(* ===== verification/Prelude.thy ===== *)
theory Prelude
  imports Main "HOL-Library.Word" "HOL-Library.Sublist" "HOL-Library.Monad_Syntax"
begin

section \<open>Shared types, checked reads and searches\<close>

text \<open>
  What every component of the daemon shares: the names of the machine types, the shape of a
  fallible call (\<open>bool f(..., std::string* error)\<close> is a sum, \<open>Inl\<close> the message it stores),
  the checked read that turns an out-of-range access of a vector into \<open>None\<close>, and the three
  searches of the C++ library the sources use (\<open>std::search\<close> and \<open>string::find\<close>,
  \<open>find_first_of\<close>), with their specifications.
\<close>

unbundle bit_operations_syntax

type_synonym byte = "8 word"
type_synonym bytes = "byte list"
type_synonym u32 = "32 word"
type_synonym u64 = "64 word"

text \<open>A call that returns \<open>false\<close> and stores a message, or returns \<open>true\<close> with its results.\<close>

type_synonym 'a outcome = "string + 'a"

text \<open>Going on after a call that may fail.\<close>

fun bind_ok :: "'a outcome \<Rightarrow> ('a \<Rightarrow> 'b outcome) \<Rightarrow> 'b outcome" where
  "bind_ok (Inl e) f = Inl e"
| "bind_ok (Inr x) f = f x"

lemma bind_ok_Inr_iff: "bind_ok m f = Inr y \<longleftrightarrow> (\<exists>x. m = Inr x \<and> f x = Inr y)"
  by (cases m) auto

named_theorems peek_simps
named_theorems search_specs

lemma byte_less: "unat (b :: byte) < 256"
  using unsigned_less [of b] by simp

lemma uint_byte: "0 \<le> uint (b :: byte) \<and> uint b \<le> 255"
  using unsigned_less [of b, where 'a = int] by simp

subsection \<open>Checked reads\<close>

text \<open>\<open>v[i]\<close> of a vector: \<open>None\<close> stands for the out-of-range access, which is undefined in C++.\<close>

definition peek :: "'a list \<Rightarrow> nat \<Rightarrow> 'a option" where
  "peek xs i = (if i < length xs then Some (xs ! i) else None)"

lemma peek_in [peek_simps]: "i < length xs \<Longrightarrow> peek xs i = Some (xs ! i)"
  by (simp add: peek_def)

lemma peek_None_iff: "peek xs i = None \<longleftrightarrow> length xs \<le> i"
  by (auto simp: peek_def)

lemma peek_SomeD: "peek xs i = Some x \<Longrightarrow> i < length xs \<and> xs ! i = x"
  by (auto simp: peek_def split: if_splits)

lemma peek_Cons_0 [simp]: "peek (x # xs) 0 = Some x"
  by (simp add: peek_def)

lemma peek_Cons_Suc [simp]: "peek (x # xs) (Suc i) = peek xs i"
  by (simp add: peek_def)

lemma peek_append_right: "peek (xs @ ys) (length xs + i) = peek ys i"
  by (simp add: peek_def)

subsection \<open>Searches\<close>

text \<open>\<open>std::search\<close> and \<open>string::find\<close>: the first position where the pattern starts.\<close>

fun search :: "'a list \<Rightarrow> 'a list \<Rightarrow> nat option" where
  "search pat [] = (if pat = [] then Some 0 else None)"
| "search pat (x # xs) =
     (if prefix pat (x # xs) then Some 0 else map_option Suc (search pat xs))"

text \<open>\<open>std::find_if\<close>, \<open>find_first_of\<close>, \<open>find_first_not_of\<close>: the first element with a property.\<close>

fun find_pos :: "('a \<Rightarrow> bool) \<Rightarrow> 'a list \<Rightarrow> nat option" where
  "find_pos P [] = None"
| "find_pos P (x # xs) = (if P x then Some 0 else map_option Suc (find_pos P xs))"

lemma search_Some_prefix [search_specs]:
  "search pat xs = Some i \<Longrightarrow> prefix pat (drop i xs)"
  by (induction pat xs arbitrary: i rule: search.induct) (auto split: if_splits)

lemma search_Some_first [search_specs]:
  "search pat xs = Some i \<Longrightarrow> j < i \<Longrightarrow> \<not> prefix pat (drop j xs)"
proof (induction pat xs arbitrary: i j rule: search.induct)
  case (1 pat)
  then show ?case by (simp split: if_splits)
next
  case (2 pat x xs)
  then show ?case by (cases j) (auto split: if_splits)
qed

lemma search_None_iff: "search pat xs = None \<longleftrightarrow> (\<forall>j \<le> length xs. \<not> prefix pat (drop j xs))"
proof (induction pat xs rule: search.induct)
  case (1 pat)
  then show ?case by simp
next
  case (2 pat x xs)
  have "(\<forall>j \<le> length (x # xs). \<not> prefix pat (drop j (x # xs))) \<longleftrightarrow>
        \<not> prefix pat (x # xs) \<and> (\<forall>j \<le> length xs. \<not> prefix pat (drop j xs))"
    by (metis Suc_le_mono drop0 drop_Suc_Cons length_Cons le0 not0_implies_Suc)
  with 2 show ?case by simp
qed

lemma search_Some_bound [search_specs]:
  "search pat xs = Some i \<Longrightarrow> i + length pat \<le> length xs"
proof -
  assume a: "search pat xs = Some i"
  then have "i \<le> length xs"
    by (induction pat xs arbitrary: i rule: search.induct) (auto split: if_splits)
  moreover have "length pat \<le> length (drop i xs)"
    using search_Some_prefix [OF a] by (rule prefix_length_le)
  ultimately show ?thesis by simp
qed

lemma search_Some_split:
  assumes "search pat xs = Some i"
  shows "xs = take i xs @ pat @ drop (i + length pat) xs"
proof -
  obtain ys where ys: "drop i xs = pat @ ys"
    using search_Some_prefix [OF assms] by (auto simp: prefix_def)
  then have "drop (i + length pat) xs = ys"
    by (metis add.commute append_eq_conv_conj drop_drop)
  with ys show ?thesis by (metis append_take_drop_id)
qed

lemma find_pos_Some [search_specs]:
  "find_pos P xs = Some i \<Longrightarrow> i < length xs \<and> P (xs ! i) \<and> (\<forall>j < i. \<not> P (xs ! j))"
proof (induction xs arbitrary: i)
  case Nil
  then show ?case by simp
next
  case (Cons x xs)
  then show ?case
    by (auto simp: less_Suc_eq_0_disj nth_Cons split: if_splits nat.splits)
qed

lemma find_pos_None: "find_pos P xs = None \<longleftrightarrow> (\<forall>x \<in> set xs. \<not> P x)"
  by (induction xs) auto

subsection \<open>Evaluation\<close>

text \<open>Bounds on lengths are compared as integers: \<^verbatim>\<open>16 * 1024\<close> in successors takes the simplifier seconds.\<close>

lemma length_bound_code [code_unfold]:
  "nat_of_num k * nat_of_num l < length xs \<longleftrightarrow> numeral k * numeral l < int (length xs)"
  "nat_of_num k < length xs \<longleftrightarrow> numeral k < int (length xs)"
  unfolding nat_of_num_numeral by (metis of_nat_less_iff of_nat_numeral of_nat_mult)+

end
