(* ===== verification/Text_Format.thy ===== *)
theory Text_Format
  imports Prelude
begin

section \<open>Decimal text, character classes and lines\<close>

text \<open>
  The parts of the C++ library the parsers are built on: \<open>std::from_chars\<close> in base 10 for the
  signed 32-bit \<open>int\<close> and the unsigned 64-bit \<open>unsigned long\<close>, \<open>std::to_string\<close>,
  \<open>std::getline\<close> on a string stream, and the character tests of the sources. Strings are
  lists of bytes, as \<open>std::string\<close> is.
\<close>

subsection \<open>Characters\<close>

definition code :: "char \<Rightarrow> nat" where
  "code c = of_char c"

definition is_control :: "char \<Rightarrow> bool" where
  "is_control c \<longleftrightarrow> code c < 0x20 \<or> code c = 0x7f"

definition is_digit :: "char \<Rightarrow> bool" where
  "is_digit c \<longleftrightarrow> 48 \<le> code c \<and> code c \<le> 57"

definition is_lower :: "char \<Rightarrow> bool" where
  "is_lower c \<longleftrightarrow> 97 \<le> code c \<and> code c \<le> 122"

definition is_upper :: "char \<Rightarrow> bool" where
  "is_upper c \<longleftrightarrow> 65 \<le> code c \<and> code c \<le> 90"

definition digit_char :: "nat \<Rightarrow> char" where
  "digit_char d = char_of (48 + d)"

definition digit_value :: "char \<Rightarrow> nat" where
  "digit_value c = code c - 48"

lemma code_less [simp]: "code c < 256"
  by (simp add: code_def)

lemma code_char_of [simp]: "n < 256 \<Longrightarrow> code (char_of n) = n"
  by (simp add: code_def)

lemma digit_char_simps [simp]:
  "d < 10 \<Longrightarrow> is_digit (digit_char d)" "d < 10 \<Longrightarrow> digit_value (digit_char d) = d"
  by (simp_all add: is_digit_def digit_value_def digit_char_def)

subsection \<open>Printing and parsing numbers\<close>

fun show_nat :: "nat \<Rightarrow> string" where
  "show_nat n = (if n < 10 then [digit_char n] else show_nat (n div 10) @ [digit_char (n mod 10)])"

declare show_nat.simps [simp del]

definition to_string :: "int \<Rightarrow> string" where
  "to_string i = (if i < 0 then CHR ''-'' # show_nat (nat (- i)) else show_nat (nat i))"

definition dec_value :: "string \<Rightarrow> nat" where
  "dec_value ds = foldl (\<lambda>n c. 10 * n + digit_value c) 0 ds"

text \<open>\<open>Parsed v rest\<close>: \<open>ec\<close> is clear and \<open>rest\<close> starts at \<open>ptr\<close>.\<close>

datatype 'a from_chars_result =
    InvalidArgument
  | ResultOutOfRange
  | Parsed 'a string

definition from_chars_int :: "string \<Rightarrow> int from_chars_result" where
  "from_chars_int text =
     (let minus = (case text of c # _ \<Rightarrow> c = CHR ''-'' | [] \<Rightarrow> False);
          body = (if minus then tl text else text);
          ds = takeWhile is_digit body;
          v = (if minus then - int (dec_value ds) else int (dec_value ds))
      in if ds = [] then InvalidArgument
         else if v < - (2 ^ 31) \<or> 2 ^ 31 \<le> v then ResultOutOfRange
         else Parsed v (dropWhile is_digit body))"

definition from_chars_ulong :: "string \<Rightarrow> nat from_chars_result" where
  "from_chars_ulong text =
     (let ds = takeWhile is_digit text
      in if ds = [] then InvalidArgument
         else if 2 ^ 64 \<le> dec_value ds then ResultOutOfRange
         else Parsed (dec_value ds) (dropWhile is_digit text))"

lemma show_nat_digits: "list_all is_digit (show_nat n)"
  by (induction n rule: show_nat.induct) (subst show_nat.simps, auto)

lemma show_nat_nonempty [simp]: "show_nat n \<noteq> []"
  by (subst show_nat.simps) simp

lemma dec_value_snoc: "dec_value (ds @ [c]) = 10 * dec_value ds + digit_value c"
  by (simp add: dec_value_def)

lemma dec_value_show_nat [simp]: "dec_value (show_nat n) = n"
proof (induction n rule: show_nat.induct)
  case (1 n)
  show ?case
  proof (cases "n < 10")
    case True
    then show ?thesis by (simp add: show_nat.simps [of n] dec_value_def)
  next
    case False
    with 1 show ?thesis by (simp add: show_nat.simps [of n] dec_value_snoc)
  qed
qed

lemma takeWhile_digits: "list_all is_digit ds \<Longrightarrow> takeWhile is_digit ds = ds"
  by (simp add: takeWhile_eq_all_conv list_all_iff)

lemma dropWhile_digits: "list_all is_digit ds \<Longrightarrow> dropWhile is_digit ds = []"
  by (simp add: dropWhile_eq_Nil_conv list_all_iff)

lemma show_nat_not_minus: "show_nat n \<noteq> CHR ''-'' # cs"
proof
  assume "show_nat n = CHR ''-'' # cs"
  with show_nat_digits [of n] have "is_digit (CHR ''-'')" by simp
  then show False by (simp add: is_digit_def code_def)
qed

lemma from_chars_int_to_string:
  assumes "- (2 ^ 31) \<le> i" "i < 2 ^ 31"
  shows "from_chars_int (to_string i) = Parsed i []"
proof (cases "i < 0")
  case True
  with assms show ?thesis
    by (simp add: from_chars_int_def to_string_def takeWhile_digits dropWhile_digits
        show_nat_digits)
next
  case False
  have "(case show_nat (nat i) of c # _ \<Rightarrow> c = CHR ''-'' | [] \<Rightarrow> False) = False"
    using show_nat_not_minus [of "nat i"] by (cases "show_nat (nat i)") auto
  with False assms show ?thesis
    by (simp add: from_chars_int_def to_string_def takeWhile_digits dropWhile_digits
        show_nat_digits)
qed

lemma from_chars_ulong_show_nat:
  "n < 2 ^ 64 \<Longrightarrow> from_chars_ulong (show_nat n) = Parsed n []"
  by (simp add: from_chars_ulong_def takeWhile_digits dropWhile_digits show_nat_digits)

lemma from_chars_int_Parsed:
  assumes "from_chars_int text = Parsed v []"
  shows "- (2 ^ 31) \<le> v \<and> v < 2 ^ 31 \<and>
    (\<exists>ds. ds \<noteq> [] \<and> list_all is_digit ds \<and>
      (text = ds \<and> v = int (dec_value ds) \<or> text = CHR ''-'' # ds \<and> v = - int (dec_value ds)))"
proof -
  define minus where "minus = (case text of c # _ \<Rightarrow> c = CHR ''-'' | [] \<Rightarrow> False)"
  define body where "body = (if minus then tl text else text)"
  have body: "text = (if minus then CHR ''-'' # body else body)"
    by (auto simp: body_def minus_def split: list.splits)
  from assms have p: "takeWhile is_digit body \<noteq> []" "dropWhile is_digit body = []"
    "v = (if minus then - int (dec_value (takeWhile is_digit body))
          else int (dec_value (takeWhile is_digit body)))"
    "- (2 ^ 31) \<le> v" "v < 2 ^ 31"
    unfolding from_chars_int_def Let_def minus_def [symmetric] body_def [symmetric]
    by (auto split: if_splits)
  from p(2) have all: "list_all is_digit body"
    by (simp add: list_all_iff dropWhile_eq_Nil_conv)
  from p [unfolded takeWhile_digits [OF all]] body all show ?thesis
    by (intro conjI exI [of _ body]) (auto split: if_splits)
qed

lemma from_chars_ulong_Parsed:
  assumes "from_chars_ulong text = Parsed v []"
  shows "text \<noteq> [] \<and> list_all is_digit text \<and> v = dec_value text \<and> v < 2 ^ 64"
proof -
  from assms have p: "takeWhile is_digit text \<noteq> []" "dropWhile is_digit text = []"
    "v = dec_value (takeWhile is_digit text)" "v < 2 ^ 64"
    by (auto simp: from_chars_ulong_def Let_def split: if_splits)
  then have "takeWhile is_digit text = text" "list_all is_digit text"
    by (simp_all add: list_all_iff dropWhile_eq_Nil_conv takeWhile_eq_all_conv)
  with p show ?thesis by auto
qed

subsection \<open>Lines\<close>

text \<open>
  \<open>std::getline\<close>: the line up to the next newline, which is dropped, and the rest of the
  stream; it fails when nothing is left.
\<close>

definition newline :: char where "newline = CHR 0x0A"
definition carriage_return :: char where "carriage_return = CHR 0x0D"

definition getline :: "string \<Rightarrow> (string \<times> string) option" where
  "getline s =
     (if s = [] then None
      else case find_pos (\<lambda>c. c = newline) s of
             None \<Rightarrow> Some (s, [])
           | Some i \<Rightarrow> Some (take i s, drop (Suc i) s))"

lemma getline_shorter: "getline s = Some (line, rest) \<Longrightarrow> length rest < length s"
  by (auto simp: getline_def split: if_splits option.splits dest: find_pos_Some)

lemma find_pos_append_skip:
  "\<forall>x \<in> set xs. \<not> P x \<Longrightarrow> find_pos P (xs @ y # ys) =
     (if P y then Some (length xs) else map_option ((+) (Suc (length xs))) (find_pos P ys))"
  by (cases "find_pos P ys"; induction xs) auto

lemma getline_line:
  "newline \<notin> set line \<Longrightarrow> getline (line @ newline # rest) = Some (line, rest)"
proof -
  assume "newline \<notin> set line"
  then have "\<forall>x \<in> set line. \<not> x = newline" by auto
  from find_pos_append_skip [OF this] show ?thesis by (simp add: getline_def)
qed

text \<open>The sources drop one carriage return at the end of a line.\<close>

definition strip_cr :: "string \<Rightarrow> string" where
  "strip_cr line = (if line \<noteq> [] \<and> last line = carriage_return then butlast line else line)"

end
