(* ===== verification/Mjpeg_Parser.thy ===== *)
theory Mjpeg_Parser
  imports Prelude
begin

section \<open>MjpegParser: cutting an MJPEG byte stream into JPEG frames\<close>

text \<open>
  \<^verbatim>\<open>daemon/src/mjpeg_parser.cpp\<close> and its header. The parser keeps the bytes it could not
  yet hand out; \<open>Append\<close> adds a chunk, and its loop cuts every complete frame (from the start
  marker FF D8 to the first end marker FF D9 after it) off the front. The callback is modelled
  by the list of the frames it is called with, in order; it does not touch the parser.

  The second half gives an abstract specification, an automaton that reads one byte at a
  time, and proves that the buffered search loop computes exactly its run, whatever the sizes
  of the chunks.
\<close>

subsection \<open>The code\<close>

record MjpegParser =
  max_frame_bytes :: nat
  buffer :: bytes

definition MjpegParser_new :: "nat \<Rightarrow> MjpegParser" where
  "MjpegParser_new max_bytes = \<lparr>max_frame_bytes = max_bytes, buffer = []\<rparr>"

definition default_max_frame_bytes :: nat where
  "default_max_frame_bytes = 16 * 1024 * 1024"

definition kSoiMarker :: bytes where "kSoiMarker = [0xff, 0xd8]"
definition eoi_marker :: bytes where "eoi_marker = [0xff, 0xd9]"

text \<open>
  The loop of \<open>Append\<close> over the buffer: the result of the call, the buffer it leaves and the
  frames passed to the callback. Each round that goes on removes a frame of at least four
  bytes, so the loop ends.
\<close>

function append_loop :: "nat \<Rightarrow> bytes \<Rightarrow> unit outcome \<times> bytes \<times> bytes list" where
  "append_loop max_bytes buf =
     (case search kSoiMarker buf of
        None \<Rightarrow>
          let trailing_ff = (buf \<noteq> [] \<and> last buf = 0xff)
          in (Inr (), if trailing_ff then [0xff] else [], [])
      | Some soi \<Rightarrow>
          let buf = drop soi buf
          in (case search eoi_marker (drop 2 buf) of
                None \<Rightarrow>
                  if length buf > max_bytes
                  then (Inl ''MJPEG frame exceeds configured safety limit'', [], [])
                  else (Inr (), buf, [])
              | Some k \<Rightarrow>
                  let frame_size = (2 + k) + 2;
                      frame = take frame_size buf;
                      (result, rest, frames) = append_loop max_bytes (drop frame_size buf)
                  in (result, rest, frame # frames)))"
  by pat_completeness auto
termination
proof (relation "measure (\<lambda>(m, buf). length buf)")
  fix max_bytes :: nat and buf :: bytes and soi buf1 k frame_size frame
  assume "search kSoiMarker buf = Some soi" "buf1 = drop soi buf"
    "search eoi_marker (drop 2 buf1) = Some k" "frame_size = (2 + k) + 2"
  then show "((max_bytes, drop frame_size buf1), max_bytes, buf) \<in> measure (\<lambda>(m, buf). length buf)"
    using search_Some_bound [of kSoiMarker buf soi] by (auto simp: kSoiMarker_def)
qed auto

declare append_loop.simps [simp del]

text \<open>
  \<open>Append\<close>: \<open>data = None\<close> is the null pointer; otherwise the chunk is the first \<open>n\<close> bytes (\<open>size\<close> of the code).
\<close>

definition MjpegParser_Append ::
  "MjpegParser \<Rightarrow> bytes option \<Rightarrow> nat \<Rightarrow> unit outcome \<times> MjpegParser \<times> bytes list" where
  "MjpegParser_Append p data n =
     (if data = None \<and> n \<noteq> 0 then (Inl ''MJPEG input pointer is null'', p, [])
      else if n = 0 then (Inr (), p, [])
      else let (result, rest, frames) =
                 append_loop (max_frame_bytes p) (buffer p @ take n (the data))
           in (result, p\<lparr>buffer := rest\<rparr>, frames))"

definition MjpegParser_Reset :: "MjpegParser \<Rightarrow> MjpegParser" where
  "MjpegParser_Reset p = p\<lparr>buffer := []\<rparr>"


subsection \<open>The specification: an automaton over single bytes\<close>

text \<open>
  The state is again the pending bytes: none or a lone FF while a start marker is looked for,
  and from the start marker on everything read since.
\<close>

definition mjpeg_step :: "bytes \<Rightarrow> byte \<Rightarrow> bytes \<times> bytes list" where
  "mjpeg_step buf b =
     (if length buf < 2 then
        (if buf = [0xff] \<and> b = 0xd8 then (kSoiMarker, [])
         else if b = 0xff then ([0xff], []) else ([], []))
      else if 2 < length buf \<and> last buf = 0xff \<and> b = 0xd9 then ([], [buf @ [b]])
      else (buf @ [b], []))"

fun mjpeg_scan :: "bytes \<Rightarrow> bytes \<Rightarrow> bytes \<times> bytes list" where
  "mjpeg_scan buf [] = (buf, [])"
| "mjpeg_scan buf (x # xs) =
     (let (buf', frames) = mjpeg_step buf x;
          (buf'', frames') = mjpeg_scan buf' xs
      in (buf'', frames @ frames'))"

text \<open>What the parser may hold between two calls, and what it hands out.\<close>

definition pending :: "bytes \<Rightarrow> bool" where
  "pending buf \<longleftrightarrow> buf = [] \<or> buf = [0xff] \<or>
     (prefix kSoiMarker buf \<and> search eoi_marker (drop 2 buf) = None)"

definition jpeg_frame :: "bytes \<Rightarrow> bool" where
  "jpeg_frame f \<longleftrightarrow> 4 \<le> length f \<and> prefix kSoiMarker f \<and>
     search eoi_marker (drop 2 f) = Some (length f - 4)"

lemmas markers = kSoiMarker_def eoi_marker_def

lemma search_pair_simps [simp]:
  "search [a, b] [] = None" "search [a, b] [x] = None"
  "search [a, b] (x # y # zs) =
     (if x = a \<and> y = b then Some 0 else map_option Suc (search [a, b] (y # zs)))"
  by auto

lemma search_pair_found:
  "search [a, b] (us @ a # b # vs) \<noteq> None"
  by (induction us) auto

lemma search_pair_not_before:
  "search [a, b] (us @ a # b # vs) = Some k \<Longrightarrow> k \<le> length us"
proof (rule ccontr)
  assume "search [a, b] (us @ a # b # vs) = Some k" "\<not> k \<le> length us"
  then have "\<not> prefix [a, b] (drop (length us) (us @ a # b # vs))"
    by (intro search_Some_first) auto
  then show False by simp
qed

lemma search_pair_at:
  assumes "search [a, b] xs = Some k"
  shows "Suc k < length xs" "xs ! k = a" "xs ! Suc k = b"
proof -
  have b: "k + 2 \<le> length xs" using search_Some_bound [OF assms] by simp
  then show "Suc k < length xs" by simp
  obtain ys where ys: "drop k xs = a # b # ys"
    using search_Some_prefix [OF assms] by (auto simp: prefix_def)
  have "drop k xs ! 0 = a" "drop k xs ! 1 = b" using ys by simp_all
  with b show "xs ! k = a" "xs ! Suc k = b" by simp_all
qed

lemma mjpeg_scan_append:
  "mjpeg_scan buf (xs @ ys) =
     (let (b, fs) = mjpeg_scan buf xs; (b', fs') = mjpeg_scan b ys in (b', fs @ fs'))"
  by (induction xs arbitrary: buf) (auto simp: Let_def split: prod.splits)

text \<open>Looking for a start marker: no marker, then a first one.\<close>

lemma scan_seek_none:
  "s = [] \<or> s = [0xff] \<Longrightarrow> search kSoiMarker (s @ xs) = None \<Longrightarrow>
   mjpeg_scan s xs = (if s @ xs \<noteq> [] \<and> last (s @ xs) = 0xff then [0xff] else [], [])"
proof (induction xs arbitrary: s)
  case Nil
  then show ?case by (auto simp: markers)
next
  case (Cons x xs)
  have "search kSoiMarker (x # xs) = None"
    using Cons.prems by (auto split: if_splits)
  then have none: "search kSoiMarker xs = None"
    by (simp split: if_splits)
  have step: "mjpeg_step s x = (if x = 0xff then [0xff] else [], [])"
    using Cons.prems by (auto simp: mjpeg_step_def markers)
  show ?case
  proof (cases "x = 0xff")
    case True
    with Cons.IH [of "[0xff]"] \<open>search kSoiMarker (x # xs) = None\<close> step show ?thesis
      by (auto simp: Let_def)
  next
    case False
    with Cons.IH [of "[]"] none step show ?thesis by (auto simp: Let_def)
  qed
qed

lemma scan_seek_some:
  "s = [] \<or> s = [0xff] \<Longrightarrow> search kSoiMarker (s @ xs) = Some i \<Longrightarrow>
   mjpeg_scan s xs = mjpeg_scan kSoiMarker (drop (i + 2 - length s) xs)"
proof (induction xs arbitrary: s i)
  case Nil
  then show ?case by (auto simp: markers)
next
  case (Cons x xs)
  show ?case
  proof (cases "s = [0xff] \<and> x = 0xd8")
    case True
    with Cons.prems show ?thesis by (auto simp: markers mjpeg_step_def Let_def)
  next
    case no_start: False
    then have step: "mjpeg_step s x = (if x = 0xff then [0xff] else [], [])"
      using Cons.prems by (auto simp: mjpeg_step_def markers)
    obtain j where j: "search kSoiMarker (x # xs) = Some j" "i = j + length s"
      using Cons.prems no_start by (auto simp: markers split: if_splits)
    show ?thesis
    proof (cases "x = 0xff")
      case True
      with Cons.IH [of "[0xff]" j] j step Cons.prems show ?thesis by (auto simp: Let_def)
    next
      case False
      then obtain j' where j': "search kSoiMarker xs = Some j'" "j = Suc j'"
        using j by (cases xs) (auto simp: markers split: if_splits)
      with Cons.IH [of "[]" j'] j step False Cons.prems(1) show ?thesis
        by (auto simp: Let_def eval_nat_numeral)
    qed
  qed
qed

text \<open>Inside a frame: no end marker, then the first one.\<close>

lemma drop_snoc_last:
  "2 < length acc \<Longrightarrow> last acc = y \<Longrightarrow> drop 2 acc = drop 2 (butlast acc) @ [y]"
  by (cases acc rule: rev_cases) auto

lemma scan_frame_none:
  "2 \<le> length acc \<Longrightarrow> search eoi_marker (drop 2 acc @ xs) = None \<Longrightarrow>
   mjpeg_scan acc xs = (acc @ xs, [])"
proof (induction xs arbitrary: acc)
  case Nil
  then show ?case by simp
next
  case (Cons x xs)
  have "\<not> (2 < length acc \<and> last acc = 0xff \<and> x = 0xd9)"
    using Cons.prems(2) drop_snoc_last [of acc "0xff"]
      search_pair_found [of "0xff" "0xd9" "drop 2 (butlast acc)" xs]
    by (auto simp: markers)
  then have "mjpeg_step acc x = (acc @ [x], [])"
    using Cons.prems(1) by (auto simp: mjpeg_step_def)
  with Cons.IH [of "acc @ [x]"] Cons.prems show ?case by (simp add: Let_def)
qed

lemma scan_frame_some:
  "2 \<le> length acc \<Longrightarrow> search eoi_marker (drop 2 acc @ xs) = Some k \<Longrightarrow> length acc < k + 4 \<Longrightarrow>
   n = k + 4 - length acc \<Longrightarrow>
   mjpeg_scan acc xs =
     (let (b, fs) = mjpeg_scan [] (drop n xs) in (b, (acc @ take n xs) # fs))"
proof (induction xs arbitrary: acc n)
  case Nil
  then show ?case using search_Some_bound [of eoi_marker "drop 2 acc" k] by (simp add: markers)
next
  case (Cons x xs)
  have at: "(drop 2 acc @ x # xs) ! k = 0xff" "(drop 2 acc @ x # xs) ! Suc k = 0xd9"
    using search_pair_at [of "0xff" "0xd9"] Cons.prems(2) by (auto simp: markers)
  show ?case
  proof (cases "length acc = k + 3")
    case True
    then have "acc \<noteq> []" "length acc - 1 = 2 + k" by auto
    then have "last acc = acc ! (2 + k)" by (metis last_conv_nth)
    also have "\<dots> = 0xff" using at(1) True by (simp add: nth_append)
    finally have "last acc = 0xff" .
    moreover have "x = 0xd9" using at(2) True by (simp add: nth_append)
    ultimately have "mjpeg_step acc x = ([], [acc @ [x]])"
      using True by (simp add: mjpeg_step_def)
    with True Cons.prems(4) show ?thesis by (simp add: Let_def split: prod.splits)
  next
    case False
    have "\<not> (2 < length acc \<and> last acc = 0xff \<and> x = 0xd9)"
    proof
      assume h: "2 < length acc \<and> last acc = 0xff \<and> x = 0xd9"
      then have "k \<le> length (drop 2 (butlast acc))"
        using Cons.prems(2) drop_snoc_last [of acc "0xff"]
          search_pair_not_before [of "0xff" "0xd9" "drop 2 (butlast acc)" xs k]
        by (simp add: markers)
      then have "k \<le> length acc - 3" by simp
      with h False Cons.prems(3) show False by arith
    qed
    then have "mjpeg_step acc x = (acc @ [x], [])"
      using Cons.prems(1) by (auto simp: mjpeg_step_def)
    moreover have "0 < n" using Cons.prems(3,4) by linarith
    then obtain n' where n': "n = Suc n'" by (cases n) auto
    moreover have "n' = k + 4 - length (acc @ [x])" using n' Cons.prems(4) by simp
    then have "mjpeg_scan (acc @ [x]) xs =
      (let (b, fs) = mjpeg_scan [] (drop n' xs) in (b, ((acc @ [x]) @ take n' xs) # fs))"
      using Cons.prems False by (intro Cons.IH) auto
    ultimately show ?thesis by (simp add: Let_def split: prod.splits)
  qed
qed

subsection \<open>The loop computes the automaton's run\<close>

lemma kSoiMarker_simps [simp]: "length kSoiMarker = 2" "drop 2 kSoiMarker = []"
  by (simp_all add: kSoiMarker_def)

lemma append_loop_scan:
  "append_loop m xs =
     (let (b, fs) = mjpeg_scan [] xs
      in if 2 \<le> length b \<and> m < length b
         then (Inl ''MJPEG frame exceeds configured safety limit'', [], fs)
         else (Inr (), b, fs))"
proof (induction m xs rule: append_loop.induct)
  case (1 m xs)
  show ?case
  proof (cases "search kSoiMarker xs")
    case None
    with scan_seek_none [of "[]" xs] show ?thesis
      by (simp add: append_loop.simps [of m xs] Let_def)
  next
    case (Some soi)
    let ?buf = "drop soi xs"
    have scan: "mjpeg_scan [] xs = mjpeg_scan kSoiMarker (drop 2 ?buf)"
      using scan_seek_some [of "[]" xs soi] Some by (simp add: add.commute)
    obtain zs where zs: "?buf = kSoiMarker @ zs"
      using search_Some_prefix [OF Some] by (auto simp: prefix_def)
    have "drop 2 ?buf = zs" by (simp only: zs drop_append) simp
    with zs have buf: "?buf = kSoiMarker @ drop 2 ?buf" by simp
    have len: "length ?buf = 2 + length (drop 2 ?buf)"
      using arg_cong [OF buf, of length] by simp
    show ?thesis
    proof (cases "search eoi_marker (drop 2 ?buf)")
      case None
      with scan_frame_none [of kSoiMarker "drop 2 ?buf"] scan buf have "mjpeg_scan [] xs = (?buf, [])"
        by simp
      with Some None len show ?thesis by (simp add: append_loop.simps [of m xs])
    next
      case k: (Some k)
      let ?n = "2 + k + 2"
      have "mjpeg_scan [] xs =
        (let (b, fs) = mjpeg_scan [] (drop (k + 2) (drop 2 ?buf))
         in (b, (kSoiMarker @ take (k + 2) (drop 2 ?buf)) # fs))"
        unfolding scan using k by (intro scan_frame_some) simp_all
      moreover have "kSoiMarker @ take (k + 2) (drop 2 ?buf) = take ?n ?buf"
        using arg_cong [OF buf, of "take ?n"] by simp
      moreover have "drop (k + 2) (drop 2 ?buf) = drop ?n ?buf"
        by (simp add: add.commute add.left_commute)
      moreover note "1.IH" [OF Some refl k refl refl]
      ultimately show ?thesis
        using Some k by (simp add: append_loop.simps [of m xs] Let_def split: prod.splits)
    qed
  qed
qed

lemma scan_pending: "pending buf \<Longrightarrow> mjpeg_scan [] buf = (buf, [])"
proof -
  assume "pending buf"
  then consider "buf = []" | "buf = [0xff]"
    | rest where "buf = kSoiMarker @ rest" "search eoi_marker rest = None"
    by (auto simp: pending_def prefix_def)
  then show ?thesis
  proof cases
    case 3
    then have "search kSoiMarker buf = Some 0" by (simp add: kSoiMarker_def)
    with 3 scan_seek_some [of "[]" buf 0] scan_frame_none [of kSoiMarker rest]
    show ?thesis by simp
  qed (simp_all add: mjpeg_step_def)
qed

lemma scan_from_pending: "pending buf \<Longrightarrow> mjpeg_scan [] (buf @ xs) = mjpeg_scan buf xs"
  by (simp add: mjpeg_scan_append scan_pending)

lemma search_snoc_None:
  "search eoi_marker xs = None \<Longrightarrow> \<not> (xs \<noteq> [] \<and> last xs = 0xff \<and> b = 0xd9) \<Longrightarrow>
   search eoi_marker (xs @ [b]) = None"
proof (induction xs)
  case Nil
  then show ?case by (simp add: markers)
next
  case (Cons x xs)
  then show ?case by (cases xs) (auto simp: markers split: if_splits)
qed

lemma search_snoc_Some:
  "search eoi_marker xs = None \<Longrightarrow> xs \<noteq> [] \<Longrightarrow> last xs = 0xff \<Longrightarrow>
   search eoi_marker (xs @ [0xd9]) = Some (length xs - 1)"
proof (induction xs)
  case Nil
  then show ?case by simp
next
  case (Cons x xs)
  then show ?case by (cases xs) (auto simp: markers split: if_splits)
qed

lemma mjpeg_step_pending:
  assumes "pending buf" "mjpeg_step buf b = (buf', fs)"
  shows "pending buf' \<and> (\<forall>f \<in> set fs. jpeg_frame f \<and> f = buf @ [b])"
proof (cases "length buf < 2")
  case True
  with assms show ?thesis
    by (auto simp: mjpeg_step_def pending_def markers split: if_splits)
next
  case False
  with assms(1) obtain rest where buf: "buf = kSoiMarker @ rest" "search eoi_marker rest = None"
    by (auto simp: pending_def prefix_def)
  show ?thesis
  proof (cases "rest \<noteq> [] \<and> last rest = 0xff \<and> b = 0xd9")
    case True
    with assms(2) buf search_snoc_Some [of rest] show ?thesis
      by (auto simp: mjpeg_step_def pending_def jpeg_frame_def Suc_le_eq)
  next
    case no_end: False
    then have "mjpeg_step buf b = (buf @ [b], [])"
      using buf False by (auto simp: mjpeg_step_def)
    with assms(2) buf no_end search_snoc_None [of rest b] show ?thesis
      by (auto simp: pending_def)
  qed
qed

lemma mjpeg_scan_pending:
  "pending buf \<Longrightarrow> mjpeg_scan buf xs = (buf', fs) \<Longrightarrow>
   pending buf' \<and> (\<forall>f \<in> set fs. jpeg_frame f \<and> length f \<le> length buf + length xs) \<and>
   length buf' \<le> length buf + length xs"
proof (induction xs arbitrary: buf buf' fs)
  case Nil
  then show ?case by simp
next
  case (Cons x xs)
  obtain b1 fs1 where 1: "mjpeg_step buf x = (b1, fs1)" by fastforce
  obtain b2 fs2 where 2: "mjpeg_scan b1 xs = (b2, fs2)" by fastforce
  have len: "length b1 \<le> Suc (length buf)"
    using 1 by (auto simp: mjpeg_step_def kSoiMarker_def split: if_splits)
  from mjpeg_step_pending [OF Cons.prems(1) 1] Cons.IH [OF _ 2] len
  have "pending b2" "\<forall>f \<in> set fs1. jpeg_frame f \<and> length f \<le> Suc (length buf)"
    "\<forall>f \<in> set fs2. jpeg_frame f \<and> length f \<le> Suc (length buf) + length xs"
    "length b2 \<le> Suc (length buf) + length xs"
    by fastforce+
  moreover from Cons.prems(2) 1 2 have "buf' = b2" "fs = fs1 @ fs2" by simp_all
  ultimately show ?case by auto
qed


subsection \<open>The parser's invariant and its interface\<close>

definition parser_ok :: "MjpegParser \<Rightarrow> bool" where
  "parser_ok p \<longleftrightarrow> pending (buffer p) \<and> length (buffer p) \<le> max 1 (max_frame_bytes p)"

lemma parser_ok_new [simp]: "parser_ok (MjpegParser_new m)"
  by (simp add: parser_ok_def MjpegParser_new_def pending_def)

lemma parser_ok_Reset [simp]: "parser_ok (MjpegParser_Reset p)"
  by (simp add: parser_ok_def MjpegParser_Reset_def pending_def)

text \<open>A chunk that is there: its pointer is not null and \<open>size\<close> is its length.\<close>

definition append_chunk :: "MjpegParser \<Rightarrow> bytes \<Rightarrow> unit outcome \<times> MjpegParser \<times> bytes list" where
  "append_chunk p chunk = MjpegParser_Append p (Some chunk) (length chunk)"

lemma append_scan:
  assumes "parser_ok p"
  shows "append_chunk p chunk =
     (let (b, fs) = mjpeg_scan (buffer p) chunk
      in if 2 \<le> length b \<and> max_frame_bytes p < length b
         then (Inl ''MJPEG frame exceeds configured safety limit'', p\<lparr>buffer := []\<rparr>, fs)
         else (Inr (), p\<lparr>buffer := b\<rparr>, fs))"
proof (cases "chunk = []")
  case True
  with assms show ?thesis
    by (auto simp: append_chunk_def MjpegParser_Append_def parser_ok_def)
next
  case False
  with assms show ?thesis
    by (auto simp: append_chunk_def MjpegParser_Append_def append_loop_scan scan_from_pending
        parser_ok_def split: prod.splits)
qed

lemma append_chunk_max: "append_chunk p chunk = (r, p', fs) \<Longrightarrow> max_frame_bytes p' = max_frame_bytes p"
  by (auto simp: append_chunk_def MjpegParser_Append_def split: if_splits prod.splits)

lemma append_chunk_result:
  assumes "parser_ok p" "append_chunk p chunk = (r, p', fs)"
  shows "parser_ok p'"
    and "\<forall>f \<in> set fs. jpeg_frame f \<and> length f \<le> length (buffer p) + length chunk"
proof -
  obtain b gs where scan: "mjpeg_scan (buffer p) chunk = (b, gs)" by fastforce
  with mjpeg_scan_pending assms(1) have
    "pending b" "\<forall>f \<in> set gs. jpeg_frame f \<and> length f \<le> length (buffer p) + length chunk"
    by (auto simp: parser_ok_def)
  with assms scan append_scan [OF assms(1), of chunk] show "parser_ok p'"
    "\<forall>f \<in> set fs. jpeg_frame f \<and> length f \<le> length (buffer p) + length chunk"
    by (auto simp: parser_ok_def pending_def split: if_splits)
qed

text \<open>Several chunks in a row, up to the first call that fails.\<close>

fun feed_chunks :: "('p \<Rightarrow> bytes \<Rightarrow> unit outcome \<times> 'p \<times> bytes list) \<Rightarrow>
    'p \<Rightarrow> bytes list \<Rightarrow> unit outcome \<times> 'p \<times> bytes list" where
  "feed_chunks feed p [] = (Inr (), p, [])"
| "feed_chunks feed p (c # cs) =
     (case feed p c of
        (Inl e, p', fs) \<Rightarrow> (Inl e, p', fs)
      | (Inr _, p', fs) \<Rightarrow>
          let (r, p'', gs) = feed_chunks feed p' cs in (r, p'', fs @ gs))"

text \<open>
  What the stream reader relies on: an empty chunk changes nothing, two chunks in a row are
  one chunk, the invariant holds on and every frame handed out is a frame.
\<close>

locale frame_cutter =
  fixes feed :: "'p \<Rightarrow> bytes \<Rightarrow> unit outcome \<times> 'p \<times> bytes list"
    and ok :: "'p \<Rightarrow> bool"
    and frame :: "bytes \<Rightarrow> bool"
  assumes feed_nil: "ok p \<Longrightarrow> feed p [] = (Inr (), p, [])"
    and feed_ok: "ok p \<Longrightarrow> feed p xs = (r, p', fs) \<Longrightarrow> ok p'"
    and feed_frame: "ok p \<Longrightarrow> feed p xs = (r, p', fs) \<Longrightarrow> f \<in> set fs \<Longrightarrow> frame f"
    and feed_merge: "ok p \<Longrightarrow> feed p xs = (Inr u, p1, fs) \<Longrightarrow> feed p1 ys = (r, p2, gs) \<Longrightarrow>
      feed p (xs @ ys) = (r, p2, fs @ gs)"
begin

lemma chunks_ok: "ok p \<Longrightarrow> feed_chunks feed p cs = (r, p', fs) \<Longrightarrow> ok p'"
  by (induction cs arbitrary: p r p' fs)
    (auto split: prod.splits sum.splits dest: feed_ok)

lemma chunks_frame:
  "ok p \<Longrightarrow> feed_chunks feed p cs = (r, p', fs) \<Longrightarrow> f \<in> set fs \<Longrightarrow> frame f"
proof (induction cs arbitrary: p r p' fs)
  case Nil
  then show ?case by simp
next
  case (Cons c cs)
  obtain r1 p1 fs1 where 1: "feed p c = (r1, p1, fs1)" by (cases "feed p c")
  with Cons.prems have "f \<in> set fs1 \<or> (\<exists>r2 p2 gs. feed_chunks feed p1 cs = (r2, p2, gs) \<and> f \<in> set gs)"
    by (auto split: prod.splits sum.splits)
  with 1 Cons.prems(1) Cons.IH show ?case by (meson feed_ok feed_frame)
qed

lemma chunks_merge:
  "ok p \<Longrightarrow> feed_chunks feed p cs = (Inr u, p', fs) \<Longrightarrow> feed p (concat cs) = (Inr u, p', fs)"
proof (induction cs arbitrary: p p' fs)
  case Nil
  then show ?case by (simp add: feed_nil)
next
  case (Cons c cs)
  then obtain p1 fs1 gs where 1: "feed p c = (Inr u, p1, fs1)"
    "feed_chunks feed p1 cs = (Inr u, p', gs)" "fs = fs1 @ gs"
    by (auto split: prod.splits sum.splits)
  then have "feed p1 (concat cs) = (Inr u, p', gs)"
    using Cons.IH Cons.prems(1) feed_ok by blast
  with 1 Cons.prems(1) show ?case by (auto intro: feed_merge)
qed

end

interpretation mjpeg: frame_cutter append_chunk parser_ok jpeg_frame
proof unfold_locales
  fix p :: MjpegParser
  assume "parser_ok p"
  then show "append_chunk p [] = (Inr (), p, [])"
    by (simp add: append_chunk_def MjpegParser_Append_def)
next
  fix p p' :: MjpegParser and xs r fs
  assume "parser_ok p" "append_chunk p xs = (r, p', fs)"
  then show "parser_ok p'" by (rule append_chunk_result)
next
  fix p p' :: MjpegParser and xs r fs f
  assume "parser_ok p" "append_chunk p xs = (r, p', fs)" "f \<in> set fs"
  then show "jpeg_frame f" using append_chunk_result(2) by blast
next
  fix p p1 p2 :: MjpegParser and xs ys u r fs gs
  assume a: "parser_ok p" "append_chunk p xs = (Inr u, p1, fs)" "append_chunk p1 ys = (r, p2, gs)"
  have "parser_ok p1" using a(1,2) by (rule append_chunk_result)
  then show "append_chunk p (xs @ ys) = (r, p2, fs @ gs)"
    using a append_scan [OF a(1), of xs] append_scan [of p1 ys] append_scan [OF a(1), of "xs @ ys"]
    by (auto simp: mjpeg_scan_append Let_def split: prod.splits if_splits)
qed

subsection \<open>Properties\<close>

text \<open>
  C3. \<open>MjpegParser::Append\<close> computes the run of the byte automaton: from any state the parser
  can be in, a call with a chunk of \<open>n\<close> bytes delivers exactly the frames the automaton
  delivers on these bytes and keeps exactly its pending bytes, except that it fails and
  empties the buffer when more than \<open>max_frame_bytes\<close> of an unfinished frame are pending.
\<close>
theorem append_refines_automaton:
  assumes "parser_ok p" and "n \<le> length d"
  shows "MjpegParser_Append p (Some d) n =
     (let (b, fs) = mjpeg_scan (buffer p) (take n d)
      in if 2 \<le> length b \<and> max_frame_bytes p < length b
         then (Inl ''MJPEG frame exceeds configured safety limit'', p\<lparr>buffer := []\<rparr>, fs)
         else (Inr (), p\<lparr>buffer := b\<rparr>, fs))"
proof -
  have "MjpegParser_Append p (Some d) n = append_chunk p (take n d)"
    using assms(2) by (auto simp: append_chunk_def MjpegParser_Append_def min_def)
  then show ?thesis using append_scan [OF assms(1)] by simp
qed

lemma append_refines_automaton_witness:
  "MjpegParser_Append (MjpegParser_new 5) (Some [7, 0xff, 0xd8, 1, 0xff, 0xd9, 0xff]) 7 =
     (Inr (), \<lparr>max_frame_bytes = 5, buffer = [0xff]\<rparr>, [[0xff, 0xd8, 1, 0xff, 0xd9]])"
proof -
  have "parser_ok (MjpegParser_new 5)" "7 \<le> length [7, 0xff, 0xd8, 1, 0xff, 0xd9, 0xff :: byte]"
    by simp_all
  from append_refines_automaton [OF this] show ?thesis
    by (simp add: MjpegParser_new_def mjpeg_step_def kSoiMarker_def)
qed

text \<open>
  The frames do not depend on how the stream is cut into reads: if a sequence of \<open>Append\<close>
  calls succeeds, one call with all their bytes succeeds, delivers the same frames in the same
  order and leaves the parser in the same state.
\<close>
theorem append_chunking_irrelevant:
  assumes "parser_ok p" and "feed_chunks append_chunk p chunks = (Inr (), p', frames)"
  shows "append_chunk p (concat chunks) = (Inr (), p', frames)"
  using assms by (rule mjpeg.chunks_merge)

lemma append_chunking_irrelevant_witness:
  "append_chunk (MjpegParser_new 9) (concat [[0xff], [0xd8, 0xff], [0xd9, 4]]) =
     (Inr (), MjpegParser_new 9, [[0xff, 0xd8, 0xff, 0xd9]])"
proof (rule append_chunking_irrelevant)
  show "parser_ok (MjpegParser_new 9)" by simp
  show "feed_chunks append_chunk (MjpegParser_new 9) [[0xff], [0xd8, 0xff], [0xd9, 4]] =
     (Inr (), MjpegParser_new 9, [[0xff, 0xd8, 0xff, 0xd9]])"
    by (simp add: append_chunk_def MjpegParser_Append_def MjpegParser_new_def
        append_loop.simps markers)
qed

text \<open>
  Every frame handed to the callback is one JPEG image: it starts with the start marker,
  ends with an end marker and holds no other end marker; the buffer never keeps more than
  \<open>max_frame_bytes\<close> (or the one byte FF), and a frame is at most one chunk longer than that.
\<close>
theorem append_frames_and_buffer_bounded:
  assumes "parser_ok p" and "n \<le> length d"
    and "MjpegParser_Append p (Some d) n = (r, p', frames)"
  shows "parser_ok p' \<and> length (buffer p') \<le> max 1 (max_frame_bytes p) \<and>
    list_all (\<lambda>f. jpeg_frame f \<and> length f \<le> max 1 (max_frame_bytes p) + n) frames"
proof -
  have c: "append_chunk p (take n d) = (r, p', frames)"
    using assms(2,3) by (auto simp: append_chunk_def MjpegParser_Append_def min_def)
  from append_chunk_result [OF assms(1) c] append_chunk_max [OF c] assms(1,2)
  show ?thesis unfolding list_all_iff parser_ok_def by fastforce
qed

lemma append_frames_and_buffer_bounded_witness:
  "parser_ok (MjpegParser_new 9) \<and> length (buffer (MjpegParser_new 9)) \<le> max 1 9 \<and>
     list_all (\<lambda>f. jpeg_frame f \<and> length f \<le> max 1 9 + 4) [[0xff, 0xd8, 0xff, 0xd9]]"
proof -
  have "MjpegParser_Append (MjpegParser_new 9) (Some [0xff, 0xd8, 0xff, 0xd9]) 4 =
      (Inr (), MjpegParser_new 9, [[0xff, 0xd8, 0xff, 0xd9]])"
    by (simp add: MjpegParser_Append_def MjpegParser_new_def append_loop.simps markers)
  from append_frames_and_buffer_bounded [OF parser_ok_new _ this]
  show ?thesis by (simp add: MjpegParser_new_def)
qed

text \<open>A frame that is complete inside one chunk is delivered whatever its size.\<close>

lemma oversized_complete_frame_delivered:
  "append_chunk (MjpegParser_new 5) [0xff, 0xd8, 1, 2, 3, 4, 0xff, 0xd9] =
     (Inr (), MjpegParser_new 5, [[0xff, 0xd8, 1, 2, 3, 4, 0xff, 0xd9]])"
  by (simp add: append_chunk_def MjpegParser_Append_def MjpegParser_new_def append_loop.simps
      markers)

text \<open>Frames put on the wire one after the other, each after some bytes without FF.\<close>

fun mux :: "(bytes \<times> bytes) list \<Rightarrow> bytes" where
  "mux [] = []"
| "mux ((gap, frame) # rest) = gap @ frame @ mux rest"

lemma scan_gap: "0xff \<notin> set g \<Longrightarrow> mjpeg_scan [] g = ([], [])"
  by (induction g) (auto simp: mjpeg_step_def)

lemma scan_jpeg_frame: "jpeg_frame f \<Longrightarrow> mjpeg_scan [] f = ([], [f])"
proof -
  assume f: "jpeg_frame f"
  then obtain rest where rest: "f = kSoiMarker @ rest"
    by (auto simp: jpeg_frame_def prefix_def)
  have "mjpeg_scan [] f = mjpeg_scan kSoiMarker rest"
    using rest scan_seek_some [of "[]" f 0] by (simp add: kSoiMarker_def)
  also have "\<dots> = ([], [f])"
    using f rest scan_frame_some [of kSoiMarker rest "length rest - 2" "length rest"]
    by (cases rest) (auto simp: jpeg_frame_def)
  finally show ?thesis .
qed

lemma scan_mux:
  "list_all (\<lambda>(gap, frame). 0xff \<notin> set gap \<and> jpeg_frame frame) ps \<Longrightarrow>
   mjpeg_scan [] (mux ps) = ([], map snd ps)"
  by (induction ps rule: mux.induct) (auto simp: mjpeg_scan_append scan_gap scan_jpeg_frame)

text \<open>
  C40. Round trip: JPEG images sent one after the other, each behind arbitrary bytes other than
  FF, come out of a fresh parser exactly as they were sent, and nothing stays in the buffer.
\<close>
theorem append_recovers_frames:
  assumes "list_all (\<lambda>(gap, frame). 0xff \<notin> set gap \<and> jpeg_frame frame) ps"
  shows "append_chunk (MjpegParser_new m) (mux ps) = (Inr (), MjpegParser_new m, map snd ps)"
  using scan_mux [OF assms] append_scan [OF parser_ok_new, of m "mux ps"]
  by (simp add: MjpegParser_new_def)

lemma append_recovers_frames_witness:
  "append_chunk (MjpegParser_new 16)
     (mux [([13, 10], [0xff, 0xd8, 7, 0xff, 0xd9]), ([], [0xff, 0xd8, 0xff, 0xd9])]) =
   (Inr (), MjpegParser_new 16, [[0xff, 0xd8, 7, 0xff, 0xd9], [0xff, 0xd8, 0xff, 0xd9]])"
proof -
  have "list_all (\<lambda>(gap, frame). 0xff \<notin> set gap \<and> jpeg_frame frame)
      [([13 :: byte, 10], [0xff, 0xd8, 7, 0xff, 0xd9]), ([], [0xff, 0xd8, 0xff, 0xd9 :: byte])]"
    by (simp add: jpeg_frame_def markers)
  from append_recovers_frames [OF this] show ?thesis by simp
qed

end
