(* ===== verification/Stream_Source.thy ===== *)
theory Stream_Source
  imports Text_Format
begin

section \<open>Stream URLs and FFmpeg's argument vector\<close>

text \<open>
  \<^verbatim>\<open>daemon/src/stream_source.cpp\<close>: the URL filter in front of every network source and the
  arguments FFmpeg is started with.
\<close>

subsection \<open>The code\<close>

record StreamSourceSpec =
  spec_scheme :: string
  spec_label :: string
  spec_rtsp_transport :: bool

definition StreamSourceSpec_default :: StreamSourceSpec where
  "StreamSourceSpec_default = \<lparr>spec_scheme = [], spec_label = [], spec_rtsp_transport = False\<rparr>"

definition kMaxUrlBytes :: nat where "kMaxUrlBytes = 4096"

definition kSchemes :: "(string \<times> string) list" where
  "kSchemes =
    [(''http'', ''HTTP/HLS/DASH/MJPEG''),
     (''https'', ''HTTPS/HLS/DASH/MJPEG''),
     (''rtmp'', ''RTMP''), (''rtmps'', ''RTMPS''), (''rtmpe'', ''RTMPE''),
     (''rtmpt'', ''RTMPT''), (''rtmpte'', ''RTMPTE''), (''rtmpts'', ''RTMPTS''),
     (''rtsp'', ''RTSP''), (''rtsps'', ''RTSPS''),
     (''srt'', ''SRT''), (''rist'', ''RIST''),
     (''rtp'', ''RTP''), (''srtp'', ''SRTP''),
     (''udp'', ''UDP MPEG-TS/RTP''), (''tcp'', ''TCP MPEG-TS''),
     (''mmsh'', ''MMSH''), (''mmst'', ''MMST'')]"

definition HasControlCharacter :: "string \<Rightarrow> bool" where
  "HasControlCharacter s = list_ex is_control s"

definition FfmpegProtocolWhitelist :: string where
  "FfmpegProtocolWhitelist =
     ''http,https,httpproxy,tcp,tls,crypto,ffrtmpcrypt,ffrtmphttp,'' @
     ''rtmp,rtmps,rtmpe,rtmpt,'' @
     ''rtmpte,rtmpts,rtsp,rtsps,rtp,srtp,udp,srt,rist,mmsh,mmst''"

text \<open>The lambda of \<open>std::transform\<close>.\<close>

definition ascii_lower :: "char \<Rightarrow> char" where
  "ascii_lower c = (if is_upper c then char_of (code c + (97 - 65)) else c)"

text \<open>
  \<open>spec\<close> is the caller's object (\<open>None\<close> for a null pointer); on success the result is its new
  value, on failure it is unchanged and the message is \<open>*error\<close>.
\<close>

definition ParseStreamSourceUrl ::
  "string \<Rightarrow> StreamSourceSpec option \<Rightarrow> StreamSourceSpec outcome" where
  "ParseStreamSourceUrl url spec =
     (case spec of
        None \<Rightarrow> Inl ''stream source output is missing''
      | Some sp \<Rightarrow>
          if url = [] \<or> kMaxUrlBytes < length url \<or> HasControlCharacter url
          then Inl ''stream URL is empty, too long, or contains control characters''
          else case search ''://'' url of
            None \<Rightarrow> Inl ''stream URL must contain a supported scheme and authority''
          | Some separator \<Rightarrow>
              if separator = 0 \<or> length url \<le> separator + 3
              then Inl ''stream URL must contain a supported scheme and authority''
              else
                let scheme = map ascii_lower (take separator url)
                in case map_of kSchemes scheme of
                     None \<Rightarrow> Inl ''unsupported or unsafe stream URL scheme''
                   | Some label \<Rightarrow>
                       if \<not> list_all (\<lambda>c. is_lower c \<or> is_digit c) scheme
                       then Inl ''stream URL scheme is malformed''
                       else
                         let rest = drop (separator + 3) url;
                             authority =
                               (case find_pos (\<lambda>c. c \<in> set ''/?#'') rest of
                                  None \<Rightarrow> rest | Some n \<Rightarrow> take n rest)
                         in if authority = [] \<or> 1024 < length authority
                            then Inl ''stream URL authority is missing or too long''
                            else Inr (sp\<lparr>spec_scheme := scheme, spec_label := label,
                                   spec_rtsp_transport :=
                                     (scheme = ''rtsp'' \<or> scheme = ''rtsps'')\<rparr>))"

definition BuildFfmpegArguments ::
  "string \<Rightarrow> string \<Rightarrow> int \<Rightarrow> StreamSourceSpec \<Rightarrow> string list" where
  "BuildFfmpegArguments ffmpeg_path url fps spec =
     [ffmpeg_path,
      ''-hide_banner'', ''-nostdin'', ''-loglevel'', ''error'',
      ''-protocol_whitelist'', FfmpegProtocolWhitelist,
      ''-rw_timeout'', ''15000000'',
      ''-fflags'', ''nobuffer'',
      ''-flags'', ''low_delay'',
      ''-probesize'', ''1048576'',
      ''-analyzeduration'', ''2000000'']
     @ (if spec_scheme spec = ''http'' \<or> spec_scheme spec = ''https'' then
          [''-user_agent'', ''VCamES/3.2'',
           ''-reconnect'', ''1'',
           ''-reconnect_at_eof'', ''1'',
           ''-reconnect_streamed'', ''1'',
           ''-reconnect_on_network_error'', ''1'',
           ''-reconnect_on_http_error'', ''4xx,5xx'',
           ''-reconnect_delay_max'', ''10'']
        else [])
     @ (if spec_rtsp_transport spec then [''-rtsp_transport'', ''tcp''] else [])
     @ [''-thread_queue_size'', ''8'',
        ''-i'', url,
        ''-map'', ''0:v:0'',
        ''-an'', ''-sn'', ''-dn'',
        ''-vf'', ''fps='' @ to_string fps
           @ '',scale=1280:720:force_original_aspect_ratio=decrease''
           @ '',pad=1280:720:(ow-iw)/2:(oh-ih)/2:black'',
        ''-threads'', ''2'',
        ''-c:v'', ''mjpeg'',
        ''-q:v'', ''3'',
        ''-f'', ''image2pipe'',
        ''pipe:1'']"

subsection \<open>What an accepted URL is\<close>

text \<open>A specification by the shape of the URL: a scheme, the separator and an authority.\<close>

definition authority_of :: "string \<Rightarrow> string" where
  "authority_of rest = takeWhile (\<lambda>c. c \<notin> set ''/?#'') rest"

definition url_shape :: "string \<Rightarrow> string \<Rightarrow> string \<Rightarrow> bool" where
  "url_shape url raw rest \<longleftrightarrow>
     url = raw @ ''://'' @ rest \<and> length url \<le> 4096 \<and> list_all (\<lambda>c. \<not> is_control c) url \<and>
     map ascii_lower raw \<in> fst ` set kSchemes \<and>
     authority_of rest \<noteq> [] \<and> length (authority_of rest) \<le> 1024"

definition spec_for :: "string \<Rightarrow> StreamSourceSpec" where
  "spec_for scheme =
     \<lparr>spec_scheme = scheme, spec_label = the (map_of kSchemes scheme),
      spec_rtsp_transport = (scheme \<in> {''rtsp'', ''rtsps''})\<rparr>"

lemma find_pos_takeWhile:
  "(case find_pos P xs of None \<Rightarrow> xs | Some n \<Rightarrow> take n xs) = takeWhile (\<lambda>x. \<not> P x) xs"
  by (induction xs) (auto split: option.splits)

text \<open>Every scheme of the table is made of lower-case letters, so the later check never fails.\<close>

lemma kSchemes_alnum:
  "list_all (\<lambda>(s, l). s \<noteq> [] \<and> list_all (\<lambda>c. is_lower c \<or> is_digit c) s) kSchemes"
  by (simp add: kSchemes_def is_lower_def code_def)

lemma scheme_alnum:
  "map_of kSchemes s = Some l \<Longrightarrow> s \<noteq> [] \<and> list_all (\<lambda>c. is_lower c \<or> is_digit c) s"
proof -
  assume "map_of kSchemes s = Some l"
  then have "(s, l) \<in> set kSchemes" by (rule map_of_SomeD)
  with kSchemes_alnum show ?thesis unfolding list_all_iff [of _ kSchemes] by fastforce
qed

lemma ascii_lower_colon: "ascii_lower c = CHR '':'' \<longleftrightarrow> c = CHR '':''"
proof -
  have "char_of (code c + 32) \<noteq> CHR '':''" if "is_upper c"
  proof
    assume a: "char_of (code c + 32) = CHR '':''"
    have "code (char_of (code c + 32)) = code c + 32" using that by (simp add: is_upper_def)
    with a that show False by (simp add: is_upper_def code_def)
  qed
  then show ?thesis
    by (cases "is_upper c") (auto simp: ascii_lower_def, simp add: is_upper_def code_def)
qed

lemma scheme_no_colon: "map_of kSchemes (map ascii_lower raw) = Some l \<Longrightarrow> CHR '':'' \<notin> set raw"
proof
  assume "map_of kSchemes (map ascii_lower raw) = Some l" "CHR '':'' \<in> set raw"
  moreover have "ascii_lower (CHR '':'') = CHR '':''" by (simp add: ascii_lower_colon)
  ultimately have "CHR '':'' \<in> set (map ascii_lower raw)" by (metis image_eqI list.set_map)
  moreover have "list_all (\<lambda>c. is_lower c \<or> is_digit c) (map ascii_lower raw)"
    using scheme_alnum [OF \<open>map_of _ _ = _\<close>] by (rule conjunct2)
  ultimately have "is_lower (CHR '':'') \<or> is_digit (CHR '':'')" unfolding list_all_iff by blast
  then show False by (simp add: is_lower_def is_digit_def code_def)
qed

lemma search_skip:
  "p \<notin> set xs \<Longrightarrow> search (p # ps) (xs @ ys) = map_option ((+) (length xs)) (search (p # ps) ys)"
  by (cases "search (p # ps) ys"; induction xs) auto

lemma parse_url_shape:
  assumes "url_shape url raw rest"
  shows "ParseStreamSourceUrl url (Some sp) = Inr (spec_for (map ascii_lower raw))"
proof -
  from assms have url: "url = raw @ ''://'' @ rest" "length url \<le> 4096"
    "\<not> HasControlCharacter url" and auth: "authority_of rest \<noteq> []" "length (authority_of rest) \<le> 1024"
    by (auto simp: url_shape_def HasControlCharacter_def list_all_iff list_ex_iff)
  obtain l where l: "map_of kSchemes (map ascii_lower raw) = Some l"
    using assms by (auto simp: url_shape_def kSchemes_def)
  have raw: "raw \<noteq> []" "list_all (\<lambda>c. is_lower c \<or> is_digit c) (map ascii_lower raw)"
    using scheme_alnum [OF l] by auto
  have "search ''://'' url = Some (length raw)"
    using scheme_no_colon [OF l] url(1) by (simp add: search_skip)
  moreover have "rest \<noteq> []" using auth(1) by (auto simp: authority_of_def)
  ultimately show ?thesis
    using url raw auth l
    by (simp add: ParseStreamSourceUrl_def find_pos_takeWhile authority_of_def spec_for_def
        kMaxUrlBytes_def Let_def)
qed

lemma parse_url_accepted:
  assumes "ParseStreamSourceUrl url (Some sp) = Inr sp'"
  obtains raw rest where "url_shape url raw rest"
proof -
  from assms obtain sep l where s: "search ''://'' url = Some sep"
    "map_of kSchemes (map ascii_lower (take sep url)) = Some l"
    "length url \<le> 4096" "\<not> HasControlCharacter url"
    "authority_of (drop (sep + 3) url) \<noteq> []" "length (authority_of (drop (sep + 3) url)) \<le> 1024"
    unfolding ParseStreamSourceUrl_def Let_def find_pos_takeWhile authority_of_def kMaxUrlBytes_def
    by (auto split: if_splits option.splits)
  have "url = take sep url @ ''://'' @ drop (sep + 3) url"
    using search_Some_split [OF s(1)] by (simp add: numeral_3_eq_3)
  moreover have "map ascii_lower (take sep url) \<in> fst ` set kSchemes"
    using map_of_SomeD [OF s(2)] by force
  ultimately have "url_shape url (take sep url) (drop (sep + 3) url)"
    using s unfolding url_shape_def by (auto simp: HasControlCharacter_def list_all_iff list_ex_iff)
  then show thesis by (rule that)
qed


subsection \<open>Properties\<close>

text \<open>
  C28. \<open>ParseStreamSourceUrl\<close> accepts exactly the URLs of the shape \<open>scheme://authority...\<close>
  with a scheme of the table (in any capitalisation), at most 4096 bytes without control
  characters and an authority of 1 to 1024 bytes, and it returns the lower-case scheme, its
  label and whether it is an RTSP scheme.
\<close>
theorem parse_url_accepts_iff:
  "ParseStreamSourceUrl url (Some sp) = Inr sp' \<longleftrightarrow>
     (\<exists>raw rest. url_shape url raw rest \<and> sp' = spec_for (map ascii_lower raw))"
proof
  assume a: "ParseStreamSourceUrl url (Some sp) = Inr sp'"
  then obtain raw rest where s: "url_shape url raw rest" by (rule parse_url_accepted)
  with a parse_url_shape [OF s, of sp]
  show "\<exists>raw rest. url_shape url raw rest \<and> sp' = spec_for (map ascii_lower raw)" by auto
next
  assume "\<exists>raw rest. url_shape url raw rest \<and> sp' = spec_for (map ascii_lower raw)"
  then show "ParseStreamSourceUrl url (Some sp) = Inr sp'" using parse_url_shape by auto
qed

fun split_on :: "char \<Rightarrow> string \<Rightarrow> string list" where
  "split_on sep [] = [[]]"
| "split_on sep (c # cs) =
     (if c = sep then [] # split_on sep cs
      else case split_on sep cs of w # ws \<Rightarrow> (c # w) # ws | [] \<Rightarrow> [[c]])"

definition whitelisted :: "string list" where
  "whitelisted = split_on (CHR '','') FfmpegProtocolWhitelist"

definition local_protocols :: "string list" where
  "local_protocols = [''file'', ''concat'', ''concatf'', ''data'', ''subfile'', ''unix'', ''pipe'']"

lemma whitelisted_eval:
  "whitelisted =
    [''http'', ''https'', ''httpproxy'', ''tcp'', ''tls'', ''crypto'', ''ffrtmpcrypt'',
     ''ffrtmphttp'', ''rtmp'', ''rtmps'', ''rtmpe'', ''rtmpt'', ''rtmpte'', ''rtmpts'', ''rtsp'',
     ''rtsps'', ''rtp'', ''srtp'', ''udp'', ''srt'', ''rist'', ''mmsh'', ''mmst'']"
  by code_simp

lemma kSchemes_whitelisted: "list_all (\<lambda>(s, l). s \<in> set whitelisted) kSchemes"
  by (simp add: whitelisted_eval kSchemes_def)

text \<open>
  Whatever URL gets through the filter, its scheme is one FFmpeg is told to allow, and
  none of the protocols that read local resources is allowed.
\<close>
theorem accepted_scheme_whitelisted:
  assumes "ParseStreamSourceUrl url (Some sp) = Inr sp'"
  shows "spec_scheme sp' \<in> set whitelisted \<and> set whitelisted \<inter> set local_protocols = {}"
proof -
  from assms obtain raw rest where "url_shape url raw rest" "sp' = spec_for (map ascii_lower raw)"
    using parse_url_accepted parse_url_shape by (metis sum.inject(2))
  then have "spec_scheme sp' \<in> fst ` set kSchemes" by (simp add: url_shape_def spec_for_def)
  then have "spec_scheme sp' \<in> set whitelisted"
    using kSchemes_whitelisted unfolding list_all_iff by auto
  moreover have "set whitelisted \<inter> set local_protocols = {}"
    by (simp add: whitelisted_eval local_protocols_def)
  ultimately show ?thesis by blast
qed

lemma parse_url_example:
  "ParseStreamSourceUrl ''RTSP://h/x'' (Some StreamSourceSpec_default) = Inr (spec_for ''rtsp'')"
  by code_simp

lemma accepted_scheme_whitelisted_witness:
  "spec_scheme (spec_for ''rtsp'') \<in> set whitelisted \<and> set whitelisted \<inter> set local_protocols = {}"
  by (rule accepted_scheme_whitelisted [OF parse_url_example])

text \<open>
  C29. The URL is one literal argument: FFmpeg's argument vector is the same for every URL but
  for the single element behind the only \<open>-i\<close>; the protocol whitelist comes before it, and the
  output is the pipe.
\<close>
theorem ffmpeg_url_is_one_argument:
  "\<exists>pre post. (\<forall>url. BuildFfmpegArguments path url fps spec = path # pre @ [''-i'', url] @ post) \<and>
     ''-i'' \<notin> set pre \<and> ''-i'' \<notin> set post \<and>
     (\<exists>a b. pre = a @ [''-protocol_whitelist'', FfmpegProtocolWhitelist] @ b) \<and>
     last post = ''pipe:1''"
proof -
  let ?n = "length (BuildFfmpegArguments path [] fps spec) - 19"
  define pre where "pre = take ?n (drop 1 (BuildFfmpegArguments path [] fps spec))"
  define post where "post = drop (?n + 3) (BuildFfmpegArguments path [] fps spec)"
  have pre: "pre = [''-hide_banner'', ''-nostdin'', ''-loglevel'', ''error''] @
      [''-protocol_whitelist'', FfmpegProtocolWhitelist] @ drop 6 pre"
    by (simp add: pre_def BuildFfmpegArguments_def)
  have "\<forall>url. BuildFfmpegArguments path url fps spec = path # pre @ [''-i'', url] @ post"
    by (simp add: pre_def post_def BuildFfmpegArguments_def)
  moreover have "''-i'' \<notin> set pre" "''-i'' \<notin> set post" "last post = ''pipe:1''"
    by (simp_all add: pre_def post_def BuildFfmpegArguments_def FfmpegProtocolWhitelist_def)
  ultimately show ?thesis using pre by blast
qed

end
