(* ===== verification/Json_Escape.thy ===== *)
theory Json_Escape
  imports Text_Format
begin

section \<open>JsonEscape: strings inside the daemon's JSON answers\<close>

text \<open>
  \<open>JsonEscape\<close> of \<^verbatim>\<open>daemon/src/config.cpp\<close>, which every message put into an answer goes
  through, and the reader of a JSON string literal it has to agree with.
\<close>

definition quote :: char where "quote = CHR 0x22"
definition backslash :: char where "backslash = CHR 0x5C"

definition kHex :: string where
  "kHex = ''0123456789abcdef''"

text \<open>The body of the loop, in the order of the \<open>switch\<close>.\<close>

definition escape_char :: "char \<Rightarrow> string" where
  "escape_char c =
     (if c = quote then [backslash, quote]
      else if c = backslash then [backslash, backslash]
      else if c = CHR 0x08 then [backslash, CHR ''b'']
      else if c = CHR 0x0C then [backslash, CHR ''f'']
      else if c = CHR 0x0A then [backslash, CHR ''n'']
      else if c = CHR 0x0D then [backslash, CHR ''r'']
      else if c = CHR 0x09 then [backslash, CHR ''t'']
      else if code c < 0x20 then
        [backslash] @ ''u00'' @
        [kHex ! (drop_bit 4 (code c) AND 0x0f), kHex ! (code c AND 0x0f)]
      else [c])"

definition JsonEscape :: "string \<Rightarrow> string" where
  "JsonEscape v = concat (map escape_char v)"

subsection \<open>Reading a string literal (RFC 8259)\<close>

text \<open>
  After the opening quote: the decoded characters and the text behind the closing quote.
  Bytes below 20 hex must not appear raw; of the \<open>\u\<close> escapes, those below 100 hex.
\<close>

definition hex_digit :: "char \<Rightarrow> nat option" where
  "hex_digit c = find_pos (\<lambda>h. h = c) kHex"

definition short_escape :: "char \<Rightarrow> char option" where
  "short_escape c = map_of
     [(quote, quote), (backslash, backslash), (CHR ''/'', CHR ''/''), (CHR ''b'', CHR 0x08),
      (CHR ''f'', CHR 0x0C), (CHR ''n'', CHR 0x0A), (CHR ''r'', CHR 0x0D), (CHR ''t'', CHR 0x09)] c"

definition hex_escape :: "string \<Rightarrow> char option" where
  "hex_escape ds =
     (case map hex_digit ds of
        [Some a, Some b, Some c, Some d] \<Rightarrow>
          (if a = 0 \<and> b = 0 then Some (char_of (16 * c + d)) else None)
      | _ \<Rightarrow> None)"

function json_read :: "string \<Rightarrow> (string \<times> string) option" where
  "json_read [] = None"
| "json_read (c # cs) =
     (if c = quote then Some ([], cs)
      else if c = backslash then
        (case cs of
           [] \<Rightarrow> None
         | e # rest \<Rightarrow>
             if e = CHR ''u'' then
               (case hex_escape (take 4 rest) of
                  None \<Rightarrow> None
                | Some x \<Rightarrow> map_option (apfst ((#) x)) (json_read (drop 4 rest)))
             else
               (case short_escape e of
                  None \<Rightarrow> None
                | Some x \<Rightarrow> map_option (apfst ((#) x)) (json_read rest)))
      else if code c < 0x20 then None
      else map_option (apfst ((#) c)) (json_read cs))"
  by pat_completeness auto
termination by (relation "measure length") auto

lemma json_read_short:
  "short_escape e = Some x \<Longrightarrow> e \<noteq> CHR ''u'' \<Longrightarrow>
   json_read (backslash # e # rest) = map_option (apfst ((#) x)) (json_read rest)"
  by (simp add: quote_def backslash_def)

lemma hex_escape_low:
  assumes "n < 32"
  shows "hex_escape (''00'' @ [kHex ! (drop_bit 4 n AND 0x0f), kHex ! (n AND 0x0f)]) = Some (char_of n)"
proof -
  have "list_all (\<lambda>n. hex_escape (''00'' @ [kHex ! (drop_bit 4 n AND 0x0f), kHex ! (n AND 0x0f)])
      = Some (char_of n)) [0..<32]"
    by code_simp
  with assms show ?thesis by (simp add: list_all_iff)
qed

lemma json_read_escape_char:
  "json_read (escape_char c @ rest) = map_option (apfst ((#) c)) (json_read rest)"
proof (cases "c \<in> set [quote, backslash, CHR 0x08, CHR 0x0C, CHR 0x0A, CHR 0x0D, CHR 0x09]")
  case True
  then show ?thesis
    by (auto simp: escape_char_def json_read_short short_escape_def quote_def backslash_def)
next
  case special: False
  show ?thesis
  proof (cases "code c < 0x20")
    case True
    with special have e: "escape_char c = backslash # CHR ''u'' #
        (''00'' @ [kHex ! (drop_bit 4 (code c) AND 0x0f), kHex ! (code c AND 0x0f)])"
      by (simp add: escape_char_def)
    have "hex_escape (''00'' @ [kHex ! (drop_bit 4 (code c) AND 0x0f), kHex ! (code c AND 0x0f)]) = Some c"
      using hex_escape_low [OF True] by (simp add: code_def)
    then show ?thesis unfolding e by (simp add: quote_def backslash_def)
  next
    case False
    with special have "escape_char c = [c]" by (simp add: escape_char_def)
    with special False show ?thesis by simp
  qed
qed

text \<open>
  C30. \<open>JsonEscape\<close> is safe and loses nothing: whatever bytes a message holds, a JSON reader
  that reads the escaped text inside quotes gets the message back and stops exactly at the
  closing quote the daemon wrote, so no message can end the string early.
\<close>
theorem json_escape_roundtrip:
  "json_read (JsonEscape v @ quote # rest) = Some (v, rest)"
  by (induction v) (simp_all add: JsonEscape_def json_read_escape_char)

end
