(* ===== verification/Config_Command.thy ===== *)
theory Config_Command
  imports Stream_Source
begin

section \<open>Config and the control commands\<close>

text \<open>
  \<^verbatim>\<open>daemon/include/vcames/config.h\<close> and \<^verbatim>\<open>daemon/src/config.cpp\<close>: the configuration, its
  validation and the parser of the control protocol (\<open>STOP\<close>, \<open>STATUS\<close>, or \<open>START\<close> with
  \<open>key=value\<close> lines up to a line with a dot).
\<close>

subsection \<open>The code\<close>

record Config =
  cfg_url :: string
  cfg_video_device :: string
  cfg_ffmpeg_path :: string
  cfg_width :: int
  cfg_height :: int
  cfg_fps :: int
  cfg_rotation :: int
  cfg_mirror :: bool

definition Config_default :: Config where
  "Config_default =
     \<lparr>cfg_url = ''http://192.168.1.10:8888/live.mjpg'',
      cfg_video_device = ''/dev/video100'',
      cfg_ffmpeg_path = ''/data/adb/modules/vcames_root_bridge/bin/ffmpeg'',
      cfg_width = 1280, cfg_height = 720, cfg_fps = 30, cfg_rotation = 0, cfg_mirror = False\<rparr>"

datatype CommandType = kInvalid | kStart | kStop | kStatus

record Command =
  cmd_type :: CommandType
  cmd_config :: Config

definition Command_default :: Command where
  "Command_default = \<lparr>cmd_type = kInvalid, cmd_config = Config_default\<rparr>"

definition ParseInt :: "string \<Rightarrow> int option" where
  "ParseInt text =
     (if text = [] then None
      else case from_chars_int text of
             Parsed v rest \<Rightarrow> (if rest \<noteq> [] then None else Some v)
           | _ \<Rightarrow> None)"

definition ParseBool :: "string \<Rightarrow> bool option" where
  "ParseBool text =
     (if text = ''1'' \<or> text = ''true'' then Some True
      else if text = ''0'' \<or> text = ''false'' then Some False
      else None)"

definition ContainsControlCharacter :: "string \<Rightarrow> bool" where
  "ContainsControlCharacter s = list_ex is_control s"

definition IsSafeProtocolValue :: "string \<Rightarrow> nat \<Rightarrow> bool" where
  "IsSafeProtocolValue s maximum_length \<longleftrightarrow>
     s \<noteq> [] \<and> length s \<le> maximum_length \<and> \<not> ContainsControlCharacter s"

text \<open>\<open>Config::Validate\<close>, check by check.\<close>

definition Validate_source :: "Config \<Rightarrow> unit outcome" where
  "Validate_source c =
     (if cfg_url c \<noteq> ''push://local'' \<and> cfg_url c \<noteq> ''push://placeholder'' then
        bind_ok (ParseStreamSourceUrl (cfg_url c) (Some StreamSourceSpec_default)) (\<lambda>source.
          if cfg_ffmpeg_path c = [] \<or> hd (cfg_ffmpeg_path c) \<noteq> CHR ''/''
             \<or> 512 < length (cfg_ffmpeg_path c) \<or> ContainsControlCharacter (cfg_ffmpeg_path c)
          then Inl ''FFmpeg path must be a safe absolute path''
          else Inr ())
      else Inr ())"

definition Validate :: "Config \<Rightarrow> unit outcome" where
  "Validate c =
     bind_ok (Validate_source c) (\<lambda>_.
       if \<not> prefix ''/dev/video'' (cfg_video_device c)
          \<or> \<not> IsSafeProtocolValue (cfg_video_device c) 64
       then Inl ''video device must be an absolute /dev/video* path''
       else if cfg_width c \<noteq> 1280 \<or> cfg_height c \<noteq> 720 \<or> cfg_fps c \<noteq> 30
       then Inl ''Pixel 5 global Provider output is fixed at 1280x720@30''
       else if cfg_rotation c \<noteq> 0 \<and> cfg_rotation c \<noteq> 90 \<and> cfg_rotation c \<noteq> 180
          \<and> cfg_rotation c \<noteq> 270
       then Inl ''rotation must be 0, 90, 180, or 270''
       else Inr ())"

text \<open>
  The loop over the option lines: whether the line with the dot was found, and the map
  \<open>values\<close> as the list of its entries in the order they were put in.
\<close>

type_synonym options = "(string \<times> string) list"

function read_options :: "string \<Rightarrow> options \<Rightarrow> (bool \<times> options) outcome" where
  "read_options input values =
     (case getline input of
        None \<Rightarrow> Inr (False, values)
      | Some (raw, rest) \<Rightarrow>
          let line = strip_cr raw
          in if line = ''.'' then Inr (True, values)
             else case find_pos (\<lambda>c. c = CHR ''='') line of
               None \<Rightarrow> Inl ''invalid START option''
             | Some separator \<Rightarrow>
                 if separator = 0 then Inl ''invalid START option''
                 else
                   let key = take separator line;
                       val = drop (separator + 1) line
                   in if map_of values key \<noteq> None
                      then Inl (''duplicate START option: '' @ key)
                      else read_options rest (values @ [(key, val)]))"
  by pat_completeness auto
termination
  by (relation "measure (\<lambda>(input, values). length input)") (auto dest: getline_shorter)

declare read_options.simps [simp del]

definition string_option :: "options \<Rightarrow> string \<Rightarrow> string \<Rightarrow> string" where
  "string_option values key target =
     (case map_of values key of None \<Rightarrow> target | Some v \<Rightarrow> v)"

definition int_option :: "options \<Rightarrow> string \<Rightarrow> int \<Rightarrow> int outcome" where
  "int_option values key target =
     (case map_of values key of
        None \<Rightarrow> Inr target
      | Some v \<Rightarrow> (case ParseInt v of
                     Some i \<Rightarrow> Inr i
                   | None \<Rightarrow> Inl (''invalid integer for '' @ key)))"

definition bool_option :: "options \<Rightarrow> string \<Rightarrow> bool \<Rightarrow> bool outcome" where
  "bool_option values key target =
     (case map_of values key of
        None \<Rightarrow> Inr target
      | Some v \<Rightarrow> (case ParseBool v of
                     Some b \<Rightarrow> Inr b
                   | None \<Rightarrow> Inl (''invalid boolean for '' @ key)))"

definition kKnownOptions :: "string list" where
  "kKnownOptions =
     [''url'', ''video_device'', ''width'', ''height'', ''fps'', ''rotation'', ''mirror'']"

text \<open>
  After the loop. The order in which an \<open>unordered_map\<close> yields its entries is unspecified:
  it is the parameter \<open>iteration\<close>, and only decides which unknown key the message names.
\<close>

definition config_of_options :: "options \<Rightarrow> Config outcome" where
  "config_of_options values =
     (let config = Config_default\<lparr>
            cfg_url := string_option values ''url'' (cfg_url Config_default),
            cfg_video_device :=
              string_option values ''video_device'' (cfg_video_device Config_default)\<rparr>
      in bind_ok (int_option values ''width'' (cfg_width config)) (\<lambda>w.
         bind_ok (int_option values ''height'' (cfg_height config)) (\<lambda>h.
         bind_ok (int_option values ''fps'' (cfg_fps config)) (\<lambda>f.
         bind_ok (int_option values ''rotation'' (cfg_rotation config)) (\<lambda>r.
         bind_ok (bool_option values ''mirror'' (cfg_mirror config)) (\<lambda>m.
           Inr (config\<lparr>cfg_width := w, cfg_height := h, cfg_fps := f, cfg_rotation := r,
                       cfg_mirror := m\<rparr>)))))))"

definition unknown_option :: "options \<Rightarrow> string option" where
  "unknown_option entries = List.find (\<lambda>key. key \<notin> set kKnownOptions) (map fst entries)"

definition ParseCommand ::
  "(options \<Rightarrow> options) \<Rightarrow> string \<Rightarrow> Command option \<Rightarrow> Command outcome" where
  "ParseCommand iteration request command =
     (case command of
        None \<Rightarrow> Inl ''missing command output''
      | Some cmd \<Rightarrow>
          if request = [] \<or> 16 * 1024 < length request
          then Inl ''request is empty or too large''
          else case getline request of
            None \<Rightarrow> Inl ''request has no command line''
          | Some (raw, input) \<Rightarrow>
              let line = strip_cr raw
              in if line = ''STOP'' then Inr (cmd\<lparr>cmd_type := kStop\<rparr>)
                 else if line = ''STATUS'' then Inr (cmd\<lparr>cmd_type := kStatus\<rparr>)
                 else if line \<noteq> ''START'' then Inl ''unknown command''
                 else bind_ok (read_options input []) (\<lambda>(terminated, values).
                   if \<not> terminated then Inl ''START request is not terminated''
                   else bind_ok (config_of_options values) (\<lambda>config.
                     case unknown_option (iteration values) of
                       Some key \<Rightarrow> Inl (''unknown START option: '' @ key)
                     | None \<Rightarrow>
                         bind_ok (Validate config) (\<lambda>_.
                           Inr (cmd\<lparr>cmd_type := kStart, cmd_config := config\<rparr>)))))"

subsection \<open>Validation\<close>

lemma no_control_iff: "\<not> ContainsControlCharacter s \<longleftrightarrow> list_all (\<lambda>c. \<not> is_control c) s"
  by (auto simp: ContainsControlCharacter_def list_ex_iff list_all_iff)

text \<open>The configurations the daemon may start with.\<close>

definition safe_path :: "string \<Rightarrow> bool" where
  "safe_path p \<longleftrightarrow> (\<exists>q. p = CHR ''/'' # q) \<and> length p \<le> 512 \<and> list_all (\<lambda>c. \<not> is_control c) p"

definition valid_config :: "Config \<Rightarrow> bool" where
  "valid_config c \<longleftrightarrow>
     (cfg_url c \<in> {''push://local'', ''push://placeholder''} \<or>
       ((\<exists>raw rest. url_shape (cfg_url c) raw rest) \<and> safe_path (cfg_ffmpeg_path c))) \<and>
     (\<exists>name. cfg_video_device c = ''/dev/video'' @ name) \<and> length (cfg_video_device c) \<le> 64 \<and>
     list_all (\<lambda>ch. \<not> is_control ch) (cfg_video_device c) \<and>
     cfg_width c = 1280 \<and> cfg_height c = 720 \<and> cfg_fps c = 30 \<and>
     cfg_rotation c \<in> {0, 90, 180, 270}"

lemma safe_path_iff:
  "safe_path p \<longleftrightarrow> \<not> (p = [] \<or> hd p \<noteq> CHR ''/'' \<or> 512 < length p \<or> ContainsControlCharacter p)"
  by (cases p) (auto simp: safe_path_def no_control_iff)

lemma Validate_source_iff:
  "Validate_source c = Inr () \<longleftrightarrow>
     cfg_url c \<in> {''push://local'', ''push://placeholder''} \<or>
     ((\<exists>raw rest. url_shape (cfg_url c) raw rest) \<and> safe_path (cfg_ffmpeg_path c))"
proof (cases "cfg_url c \<in> {''push://local'', ''push://placeholder''}")
  case True
  then show ?thesis by (auto simp: Validate_source_def)
next
  case False
  have "(\<exists>sp. ParseStreamSourceUrl (cfg_url c) (Some StreamSourceSpec_default) = Inr sp) \<longleftrightarrow>
      (\<exists>raw rest. url_shape (cfg_url c) raw rest)"
    using parse_url_accepted parse_url_shape by metis
  with False show ?thesis
    by (auto simp: Validate_source_def bind_ok_Inr_iff safe_path_iff)
qed

lemma Validate_valid: "Validate c = Inr () \<longleftrightarrow> valid_config c"
  unfolding Validate_def bind_ok_Inr_iff valid_config_def Validate_source_iff [symmetric]
  by (auto simp: IsSafeProtocolValue_def no_control_iff prefix_def split: if_splits)

text \<open>
  \<open>Config::Validate\<close> accepts exactly the configurations with a push source, or a network
  URL the filter accepts together with a safe absolute FFmpeg path; a control-free
  \<open>/dev/video...\<close> device of at most 64 bytes; 1280x720 at 30; a right-angle rotation.
\<close>
theorem Validate_iff: "Validate c = Inr () \<longleftrightarrow> valid_config c"
  by (rule Validate_valid)


subsection \<open>The command parser\<close>

lemma ParseInt_to_string:
  "- (2 ^ 31) \<le> i \<Longrightarrow> i < 2 ^ 31 \<Longrightarrow> ParseInt (to_string i) = Some i"
  using from_chars_int_to_string [of i] by (auto simp: ParseInt_def to_string_def split: if_splits)

lemma ParseInt_range: "ParseInt text = Some i \<Longrightarrow> - (2 ^ 31) \<le> i \<and> i < 2 ^ 31"
  using from_chars_int_Parsed [of "text" i]
  by (auto simp: ParseInt_def split: if_splits from_chars_result.splits)

text \<open>
  \<open>ParseInt\<close> is \<open>from_chars\<close> on the whole text: it accepts exactly an optional minus sign
  and at least one digit, nothing before or behind them, with a value of 32 bits, and it reads
  back what \<open>std::to_string\<close> prints.
\<close>
theorem ParseInt_iff:
  "ParseInt text = Some i \<longleftrightarrow>
     - (2 ^ 31) \<le> i \<and> i < 2 ^ 31 \<and>
     (\<exists>ds. ds \<noteq> [] \<and> list_all is_digit ds \<and>
       (text = ds \<and> i = int (dec_value ds) \<or> text = CHR ''-'' # ds \<and> i = - int (dec_value ds)))"
  (is "_ \<longleftrightarrow> ?R")
proof
  assume "ParseInt text = Some i"
  then have "from_chars_int text = Parsed i []"
    by (auto simp: ParseInt_def split: if_splits from_chars_result.splits)
  then show ?R by (rule from_chars_int_Parsed)
next
  assume ?R
  then obtain ds where ds: "ds \<noteq> []" "list_all is_digit ds" "- (2 ^ 31) \<le> i" "i < 2 ^ 31"
    and shape: "text = ds \<and> i = int (dec_value ds) \<or> text = CHR ''-'' # ds \<and> i = - int (dec_value ds)"
    by auto
  have "hd ds \<noteq> CHR ''-''"
    using ds by (cases ds) (auto simp: is_digit_def code_def)
  then have "(case ds of c # _ \<Rightarrow> c = CHR ''-'' | [] \<Rightarrow> False) = False"
    using ds(1) by (cases ds) auto
  with ds shape have "from_chars_int text = Parsed i []"
    by (auto simp: from_chars_int_def takeWhile_digits dropWhile_digits)
  then show "ParseInt text = Some i" using shape ds(1) by (auto simp: ParseInt_def)
qed

lemma take_drop_infix: "i < length xs \<Longrightarrow> take i xs @ xs ! i # drop (Suc i) xs = xs"
  by (simp add: id_take_nth_drop [symmetric])

lemma sublist_strip_cr: "sublist (strip_cr line) line"
  by (simp add: strip_cr_def sublist_butlast)

lemma getline_sublist: "getline s = Some (line, rest) \<Longrightarrow> sublist line s \<and> sublist rest s"
  by (auto simp: getline_def sublist_take sublist_drop split: if_splits option.splits)

lemma read_options_sound:
  "read_options input opts = Inr (t, opts') \<Longrightarrow> sublist input text \<Longrightarrow>
   distinct (map fst opts) \<Longrightarrow> list_all (\<lambda>(k, v). sublist (k @ ''='' @ v) text) opts \<Longrightarrow>
   distinct (map fst opts') \<and> list_all (\<lambda>(k, v). sublist (k @ ''='' @ v) text) opts'"
proof (induction input opts rule: read_options.induct)
  case (1 input opts)
  show ?case
  proof (cases "getline input")
    case None
    with 1 show ?thesis by (auto simp: read_options.simps [of input])
  next
    case (Some lr)
    then obtain raw rest where get: "getline input = Some (raw, rest)" by (cases lr) auto
    define line where "line = strip_cr raw"
    have sub: "sublist line text" "sublist rest text"
      using getline_sublist [OF get] sublist_strip_cr [of raw] "1.prems"(2)
      by (auto simp: line_def intro: sublist_order.order_trans)
    show ?thesis
    proof (cases "line = ''.''")
      case True
      with 1 get show ?thesis by (auto simp: read_options.simps [of input] line_def)
    next
      case False
      with "1.prems"(1) get obtain sep where sep: "find_pos (\<lambda>c. c = CHR ''='') line = Some sep"
        "sep \<noteq> 0" "map_of opts (take sep line) = None"
        and rec: "read_options rest (opts @ [(take sep line, drop (sep + 1) line)]) = Inr (t, opts')"
        by (auto simp: read_options.simps [of input] line_def Let_def split: option.splits if_splits)
      have eq: "take sep line @ ''='' @ drop (sep + 1) line = line"
        using find_pos_Some [OF sep(1)] take_drop_infix [of sep line] by simp
      have "distinct (map fst (opts @ [(take sep line, drop (sep + 1) line)]))"
        using "1.prems"(3) sep(3) by (auto simp: map_of_eq_None_iff)
      moreover have "list_all (\<lambda>(k, v). sublist (k @ ''='' @ v) text)
          (opts @ [(take sep line, drop (sep + 1) line)])"
        using "1.prems"(4) sub(1) eq by simp
      ultimately show ?thesis
        using "1.IH" [OF get refl line_def False sep(1,2) refl refl] sep(3) rec sub(2) by simp
    qed
  qed
qed

lemma config_of_options_path:
  "config_of_options opts = Inr c \<Longrightarrow> cfg_ffmpeg_path c = cfg_ffmpeg_path Config_default"
  by (auto simp: config_of_options_def Let_def bind_ok_Inr_iff)

lemma unknown_option_None:
  "unknown_option entries = None \<longleftrightarrow> fst ` set entries \<subseteq> set kKnownOptions"
  by (auto simp: unknown_option_def find_None_iff)


definition example_request :: string where
  "example_request = ''START'' @ [newline] @ ''url=srt://h:9'' @ [carriage_return, newline] @
     ''rotation=90'' @ [newline] @ ''.'' @ [newline]"

definition example_command :: Command where
  "example_command = \<lparr>cmd_type = kStart,
     cmd_config = Config_default\<lparr>cfg_url := ''srt://h:9'', cfg_rotation := 90\<rparr>\<rparr>"

lemma ParseCommand_example:
  "ParseCommand rev example_request (Some Command_default) = Inr example_command"
  by code_simp



subsection \<open>Writing a START request\<close>

definition option_line :: "string \<Rightarrow> string \<Rightarrow> string" where
  "option_line key val = key @ ''='' @ val @ [newline]"

definition start_request :: "Config \<Rightarrow> string" where
  "start_request c =
     ''START'' @ [newline]
     @ option_line ''url'' (cfg_url c)
     @ option_line ''video_device'' (cfg_video_device c)
     @ option_line ''width'' (to_string (cfg_width c))
     @ option_line ''height'' (to_string (cfg_height c))
     @ option_line ''fps'' (to_string (cfg_fps c))
     @ option_line ''rotation'' (to_string (cfg_rotation c))
     @ option_line ''mirror'' (if cfg_mirror c then ''1'' else ''0'')
     @ ''.'' @ [newline]"

lemma control_line_ends: "is_control newline" "is_control carriage_return"
  by (simp_all add: is_control_def newline_def carriage_return_def code_def)

lemma no_control_no_newline:
  "list_all (\<lambda>c. \<not> is_control c) s \<Longrightarrow> newline \<notin> set s \<and> carriage_return \<notin> set s"
  using control_line_ends by (auto simp: list_all_iff)

lemma read_option_line:
  assumes "newline \<notin> set key" "CHR ''='' \<notin> set key" "key \<noteq> []"
    and "newline \<notin> set val \<and> carriage_return \<notin> set val" "map_of opts key = None"
  shows "read_options (option_line key val @ rest) opts = read_options rest (opts @ [(key, val)])"
proof -
  have "newline \<notin> set (key @ ''='' @ val)" using assms by (simp add: newline_def)
  from getline_line [OF this, of rest]
  have get: "getline (option_line key val @ rest) = Some (key @ ''='' @ val, rest)"
    by (simp add: option_line_def)
  have "last (key @ ''='' @ val) \<noteq> carriage_return"
    using assms(4) by (cases val rule: rev_cases) (auto simp: carriage_return_def)
  then have strip: "strip_cr (key @ ''='' @ val) = key @ ''='' @ val"
    by (simp add: strip_cr_def)
  have "\<forall>x \<in> set key. \<not> x = CHR ''=''" using assms(2) by auto
  from find_pos_append_skip [OF this, of "CHR ''=''" val]
  have pos: "find_pos (\<lambda>c. c = CHR ''='') (key @ ''='' @ val) = Some (length key)" by simp
  have "key @ ''='' @ val \<noteq> ''.''" using assms(3) by (cases key) auto
  with get strip pos assms(3,5) show ?thesis
    by (simp add: read_options.simps [of "option_line key val @ rest"])
qed

lemma read_option_lines:
  "list_all (\<lambda>(k, v). newline \<notin> set k \<and> CHR ''='' \<notin> set k \<and> k \<noteq> [] \<and>
     newline \<notin> set v \<and> carriage_return \<notin> set v) new \<Longrightarrow> distinct (map fst (opts @ new)) \<Longrightarrow>
   read_options (concat (map (\<lambda>(k, v). option_line k v) new) @ rest) opts =
     read_options rest (opts @ new)"
proof (induction new arbitrary: opts)
  case Nil
  then show ?case by simp
next
  case (Cons kv new)
  obtain k v where kv: "kv = (k, v)" by fastforce
  have "map_of opts k = None" using Cons.prems(2) kv by (auto simp: map_of_eq_None_iff)
  moreover have "read_options (concat (map (\<lambda>(k, v). option_line k v) new) @ rest) (opts @ [kv]) =
      read_options rest ((opts @ [kv]) @ new)"
    using Cons.prems by (intro Cons.IH) auto
  ultimately show ?case using Cons.prems(1) kv by (simp add: read_option_line)
qed

lemma to_string_no_control: "list_all (\<lambda>c. \<not> is_control c) (to_string i)"
  using show_nat_digits [of "nat i"] show_nat_digits [of "nat (- i)"]
  by (auto simp: to_string_def list_all_iff is_control_def is_digit_def code_def)

lemma read_dot_line: "read_options (''.'' @ [newline]) opts = Inr (True, opts)"
  by (subst read_options.simps) (simp add: getline_def newline_def strip_cr_def carriage_return_def)

definition request_options :: "Config \<Rightarrow> options" where
  "request_options c =
     [(''url'', cfg_url c), (''video_device'', cfg_video_device c),
      (''width'', to_string (cfg_width c)), (''height'', to_string (cfg_height c)),
      (''fps'', to_string (cfg_fps c)), (''rotation'', to_string (cfg_rotation c)),
      (''mirror'', if cfg_mirror c then ''1'' else ''0'')]"

lemma valid_config_texts:
  assumes "valid_config c"
  shows "length (cfg_url c) \<le> 4096" "length (cfg_video_device c) \<le> 64"
    "list_all (\<lambda>ch. \<not> is_control ch) (cfg_url c)"
    "list_all (\<lambda>ch. \<not> is_control ch) (cfg_video_device c)"
  using assms by (auto simp: valid_config_def url_shape_def is_control_def code_def)

lemma start_request_options:
  "start_request c = ''START'' @ newline #
     concat (map (\<lambda>(k, v). option_line k v) (request_options c)) @ ''.'' @ [newline]"
  by (simp add: start_request_def request_options_def)

lemma request_options_lines:
  assumes "valid_config c"
  shows "list_all (\<lambda>(k, v). newline \<notin> set k \<and> CHR ''='' \<notin> set k \<and> k \<noteq> [] \<and>
     newline \<notin> set v \<and> carriage_return \<notin> set v) (request_options c)"
  using no_control_no_newline [OF to_string_no_control]
    no_control_no_newline [OF valid_config_texts(3) [OF assms]]
    no_control_no_newline [OF valid_config_texts(4) [OF assms]]
  by (simp add: request_options_def) (simp add: newline_def carriage_return_def)

lemma to_string_settings:
  "to_string 1280 = ''1280''" "to_string 720 = ''720''" "to_string 30 = ''30''"
  "to_string 0 = ''0''" "to_string 90 = ''90''" "to_string 180 = ''180''" "to_string 270 = ''270''"
  by code_simp+

lemma start_request_length:
  assumes "valid_config c"
  shows "length (start_request c) \<le> 16 * 1024"
proof -
  have "length (to_string i) \<le> 4" if "i \<in> {1280, 720, 30, 0, 90, 180, 270}" for i
    using that by (auto simp: to_string_settings)
  then have "length (to_string (cfg_width c)) \<le> 4" "length (to_string (cfg_height c)) \<le> 4"
    "length (to_string (cfg_fps c)) \<le> 4" "length (to_string (cfg_rotation c)) \<le> 4"
    using assms by (auto simp: valid_config_def)
  with valid_config_texts(1,2) [OF assms] show ?thesis
    by (simp add: start_request_def option_line_def)
qed

lemma config_of_request_options:
  assumes "valid_config c" "cfg_ffmpeg_path c = cfg_ffmpeg_path Config_default"
  shows "config_of_options (request_options c) = Inr c"
proof -
  have "ParseInt (to_string (cfg_width c)) = Some (cfg_width c)"
    "ParseInt (to_string (cfg_height c)) = Some (cfg_height c)"
    "ParseInt (to_string (cfg_fps c)) = Some (cfg_fps c)"
    "ParseInt (to_string (cfg_rotation c)) = Some (cfg_rotation c)"
    using assms(1) by (auto simp: valid_config_def intro!: ParseInt_to_string)
  with assms(2) show ?thesis
    by (simp add: config_of_options_def request_options_def string_option_def int_option_def
        bool_option_def ParseBool_def Config_default_def Let_def)
qed

lemma parse_start_request:
  assumes "valid_config c" "cfg_ffmpeg_path c = cfg_ffmpeg_path Config_default"
    and "\<And>vs. set (iteration vs) = set vs"
  shows "ParseCommand iteration (start_request c) (Some cmd) =
    Inr (cmd\<lparr>cmd_type := kStart, cmd_config := c\<rparr>)"
proof -
  define input where
    "input = concat (map (\<lambda>(k, v). option_line k v) (request_options c)) @ ''.'' @ [newline]"
  have req: "start_request c = ''START'' @ newline # input"
    by (simp add: start_request_options input_def)
  then have "getline (start_request c) = Some (''START'', input)"
    unfolding req by (intro getline_line) (simp add: newline_def)
  moreover have "distinct (map fst ([] @ request_options c))" by (simp add: request_options_def)
  then have "read_options input [] = Inr (True, request_options c)"
    using read_option_lines [OF request_options_lines [OF assms(1)], of "[]" "''.'' @ [newline]"]
    by (simp add: input_def read_dot_line [simplified])
  moreover have "unknown_option (iteration (request_options c)) = None"
    unfolding unknown_option_None assms(3) by (simp add: request_options_def kKnownOptions_def)
  moreover have "Validate c = Inr ()" using assms(1) by (simp add: Validate_valid)
  moreover have "strip_cr ''START'' = ''START''" by (simp add: strip_cr_def carriage_return_def)
  moreover have "start_request c \<noteq> []" by (simp add: req)
  ultimately show ?thesis
    using start_request_length [OF assms(1)] config_of_request_options [OF assms(1,2)]
    by (simp add: ParseCommand_def)
qed

text \<open>
  C27. Round trip of the control protocol: the START request written for a valid configuration
  (with the built-in FFmpeg path, which has no option) is accepted and gives exactly this
  configuration, whatever the iteration order of the hash map.
\<close>
theorem start_request_roundtrip:
  assumes "valid_config c" "cfg_ffmpeg_path c = cfg_ffmpeg_path Config_default"
    and "\<And>vs. set (iteration vs) = set vs"
  shows "ParseCommand iteration (start_request c) (Some cmd) =
    Inr (cmd\<lparr>cmd_type := kStart, cmd_config := c\<rparr>)"
  using assms by (rule parse_start_request)

lemma valid_config_default: "valid_config Config_default"
proof -
  have "Validate Config_default = Inr ()" by code_simp
  then show ?thesis by (simp add: Validate_valid)
qed

lemma start_request_roundtrip_witness:
  "ParseCommand rev (start_request Config_default) (Some Command_default) =
     Inr (Command_default\<lparr>cmd_type := kStart, cmd_config := Config_default\<rparr>)"
  by (rule start_request_roundtrip [OF valid_config_default refl]) simp

end
