(* ===== verification/Jpeg_Header.thy ===== *)
theory Jpeg_Header
  imports Prelude
begin

section \<open>ReadJpegDimensions: the size a JPEG header declares\<close>

text \<open>
  The marker walk of \<^verbatim>\<open>daemon/src/image_transform.cpp\<close> over untrusted bytes. Every read of
  the vector is a checked one: \<open>None\<close> is an access outside the vector, \<open>Some (Inl e)\<close> the
  function's \<open>false\<close> with its message, \<open>Some (Inr (w, h))\<close> its \<open>true\<close> with the values stored
  through the two pointers.
\<close>

subsection \<open>The code\<close>

definition IsStartOfFrame :: "byte \<Rightarrow> bool" where
  "IsStartOfFrame marker \<longleftrightarrow>
     marker \<in> {0xc0, 0xc1, 0xc2, 0xc3, 0xc5, 0xc6, 0xc7, 0xc9, 0xca, 0xcb, 0xcd, 0xce, 0xcf}"

text \<open>The pointer argument is the vector and an offset into it.\<close>

definition BigEndian16 :: "bytes \<Rightarrow> nat \<Rightarrow> 16 word option" where
  "BigEndian16 jpeg offset = do {
     b0 \<leftarrow> peek jpeg offset;
     b1 \<leftarrow> peek jpeg (offset + 1);
     Some (push_bit 8 (ucast b0) OR ucast b1)
   }"

text \<open>The inner loop over fill bytes.\<close>

function skip_fill :: "bytes \<Rightarrow> nat \<Rightarrow> nat" where
  "skip_fill jpeg offset =
     (if offset < length jpeg \<and> jpeg ! offset = 0xff then skip_fill jpeg (offset + 1) else offset)"
  by pat_completeness auto
termination by (relation "measure (\<lambda>(jpeg, offset). length jpeg - offset)") auto

declare skip_fill.simps [simp del]

lemma skip_fill_ge: "offset \<le> skip_fill jpeg offset"
proof (induction jpeg offset rule: skip_fill.induct)
  case (1 jpeg offset)
  then show ?case by (subst skip_fill.simps) (auto dest: Suc_leD)
qed

definition standalone_marker :: "byte \<Rightarrow> bool" where
  "standalone_marker marker \<longleftrightarrow>
     marker = 0xd8 \<or> marker = 0x01 \<or> (0xd0 \<le> marker \<and> marker \<le> 0xd7)"

definition no_dimensions :: "(nat \<times> nat) outcome" where
  "no_dimensions = Inl ''JPEG frame has no valid dimensions''"

function dimensions_loop :: "bytes \<Rightarrow> nat \<Rightarrow> (nat \<times> nat) outcome option" where
  "dimensions_loop jpeg offset =
     (if offset + 4 \<le> length jpeg then
        let start = skip_fill jpeg offset
        in if length jpeg \<le> start then Some no_dimensions
           else do {
             marker \<leftarrow> peek jpeg start;
             let offset' = start + 1;
             if standalone_marker marker then dimensions_loop jpeg offset'
             else if marker = 0xd9 \<or> marker = 0xda \<or> length jpeg < offset' + 2
             then Some no_dimensions
             else do {
               segment_length \<leftarrow> BigEndian16 jpeg offset';
               let len = unat segment_length;
               if len < 2 \<or> length jpeg < offset' + len then Some no_dimensions
               else if IsStartOfFrame marker \<and> 7 \<le> len then do {
                 parsed_height \<leftarrow> BigEndian16 jpeg (offset' + 3);
                 parsed_width \<leftarrow> BigEndian16 jpeg (offset' + 5);
                 if unat parsed_width = 0 \<or> unat parsed_height = 0 then Some no_dimensions
                 else Some (Inr (unat parsed_width, unat parsed_height))
               }
               else dimensions_loop jpeg (offset' + len)
             }
           }
      else Some no_dimensions)"
  by pat_completeness auto
termination
proof (relation "measure (\<lambda>(jpeg, offset). length jpeg - offset)")
  fix jpeg offset start
  assume "start = skip_fill jpeg offset"
  then have "offset \<le> start" using skip_fill_ge by simp
  then show "offset' = start + 1 \<Longrightarrow> \<not> length jpeg \<le> start \<Longrightarrow>
      ((jpeg, offset'), jpeg, offset) \<in> measure (\<lambda>(jpeg, offset). length jpeg - offset)"
    and "offset' = start + 1 \<Longrightarrow> \<not> length jpeg \<le> start \<Longrightarrow>
      ((jpeg, offset' + len), jpeg, offset) \<in> measure (\<lambda>(jpeg, offset). length jpeg - offset)"
    for offset' len
    by auto
qed auto

declare dimensions_loop.simps [simp del]

definition ReadJpegDimensions :: "bytes \<Rightarrow> (nat \<times> nat) outcome option" where
  "ReadJpegDimensions jpeg =
     (if length jpeg < 4 then Some (Inl ''input is not a JPEG frame'')
      else do {
        b0 \<leftarrow> peek jpeg 0;
        if b0 \<noteq> 0xff then Some (Inl ''input is not a JPEG frame'')
        else do {
          b1 \<leftarrow> peek jpeg 1;
          if b1 \<noteq> 0xd8 then Some (Inl ''input is not a JPEG frame'')
          else dimensions_loop jpeg 2
        }
      })"


subsection \<open>Reads stay inside the vector\<close>

lemma unat_be16: "unat (push_bit 8 (ucast b0) OR ucast b1 :: 16 word) = 256 * unat (b0 :: byte) + unat (b1 :: byte)"
proof -
  have "push_bit 8 (ucast b0) OR ucast b1 = push_bit 8 (ucast b0) + (ucast b1 :: 16 word)"
    by (rule disjunctive_add [symmetric]) (auto simp: bit_simps dest: bit_imp_le_length)
  moreover have "unat (push_bit 8 (ucast b0) :: 16 word) = 256 * unat b0"
    using byte_less [of b0]
    by (simp add: push_bit_eq_mult unat_word_ariths unsigned_ucast_eq take_bit_eq_mod)
  moreover have "unat (ucast b1 :: 16 word) = unat b1"
    using byte_less [of b1] by (simp add: unsigned_ucast_eq take_bit_eq_mod)
  ultimately show ?thesis
    using byte_less [of b0] byte_less [of b1] by (simp add: unat_word_ariths)
qed

lemma BigEndian16_in:
  "offset + 1 < length jpeg \<Longrightarrow>
   \<exists>v. BigEndian16 jpeg offset = Some v \<and>
     unat v = 256 * unat (jpeg ! offset) + unat (jpeg ! (offset + 1))"
  by (auto simp: BigEndian16_def peek_simps unat_be16)

text \<open>One round of the loop once the fill bytes are skipped.\<close>

definition start_of_frame_at :: "bytes \<Rightarrow> nat \<Rightarrow> nat \<Rightarrow> nat \<Rightarrow> bool" where
  "start_of_frame_at jpeg i w h \<longleftrightarrow>
     2 \<le> i \<and> i + 7 < length jpeg \<and> IsStartOfFrame (jpeg ! i) \<and>
     h = 256 * unat (jpeg ! (i + 4)) + unat (jpeg ! (i + 5)) \<and>
     w = 256 * unat (jpeg ! (i + 6)) + unat (jpeg ! (i + 7)) \<and> 0 < w \<and> 0 < h"

lemma dimensions_loop_result:
  "2 \<le> offset \<Longrightarrow> \<exists>r. dimensions_loop jpeg offset = Some r \<and>
     (r = no_dimensions \<or> (\<exists>w h i. r = Inr (w, h) \<and> start_of_frame_at jpeg i w h))"
proof (induction jpeg offset rule: dimensions_loop.induct)
  case (1 jpeg offset)
  define start where "start = skip_fill jpeg offset"
  show ?case
  proof (cases "offset + 4 \<le> length jpeg \<and> start < length jpeg")
    case False
    then show ?thesis by (subst dimensions_loop.simps) (auto simp: start_def Let_def)
  next
    case True
    have ge: "2 \<le> start" using skip_fill_ge [of offset jpeg] "1.prems" by (simp add: start_def)
    have peek: "peek jpeg start = Some (jpeg ! start)" using True by (simp add: peek_simps)
    show ?thesis
    proof (cases "standalone_marker (jpeg ! start)")
      case alone: True
      then have "dimensions_loop jpeg offset = dimensions_loop jpeg (start + 1)"
        using True peek by (subst dimensions_loop.simps) (simp add: start_def Let_def)
      then show ?thesis
        using "1.IH"(1) [OF _ start_def _ peek refl alone] True ge by simp
    next
      case segment: False
      show ?thesis
      proof (cases "jpeg ! start = 0xd9 \<or> jpeg ! start = 0xda \<or> length jpeg < start + 3")
        case stop: True
        then show ?thesis
          using True peek segment by (subst dimensions_loop.simps) (auto simp: start_def Let_def)
      next
        case go: False
        then obtain v where v: "BigEndian16 jpeg (start + 1) = Some v"
          using BigEndian16_in [of "start + 1" jpeg] by auto
        have step: "dimensions_loop jpeg offset =
          (if unat v < 2 \<or> length jpeg < start + 1 + unat v then Some no_dimensions
           else if IsStartOfFrame (jpeg ! start) \<and> 7 \<le> unat v then do {
             parsed_height \<leftarrow> BigEndian16 jpeg (start + 4);
             parsed_width \<leftarrow> BigEndian16 jpeg (start + 6);
             if unat parsed_width = 0 \<or> unat parsed_height = 0 then Some no_dimensions
             else Some (Inr (unat parsed_width, unat parsed_height)) }
           else dimensions_loop jpeg (start + 1 + unat v))"
          using True peek segment go v
          by (subst dimensions_loop.simps) (simp add: start_def Let_def add.commute)
        consider "unat v < 2 \<or> length jpeg < start + 1 + unat v"
          | (sof) "2 \<le> unat v" "start + 1 + unat v \<le> length jpeg" "IsStartOfFrame (jpeg ! start)"
            "7 \<le> unat v"
          | (rec) "2 \<le> unat v" "start + 1 + unat v \<le> length jpeg"
            "\<not> (IsStartOfFrame (jpeg ! start) \<and> 7 \<le> unat v)"
          by linarith
        then show ?thesis
        proof cases
          case 1
          then show ?thesis using step by auto
        next
          case sof
          then obtain hv wv where
            "BigEndian16 jpeg (start + 4) = Some hv" "BigEndian16 jpeg (start + 6) = Some wv"
            "unat hv = 256 * unat (jpeg ! (start + 4)) + unat (jpeg ! (start + 5))"
            "unat wv = 256 * unat (jpeg ! (start + 6)) + unat (jpeg ! (start + 7))"
            using BigEndian16_in [of "start + 4" jpeg] BigEndian16_in [of "start + 6" jpeg]
            by (auto simp: eval_nat_numeral)
          moreover have "start + 7 < length jpeg" using sof by simp
          ultimately show ?thesis
            using step sof ge by (cases "unat wv = 0 \<or> unat hv = 0") (auto simp: start_of_frame_at_def)
        next
          case rec
          have "\<exists>r. dimensions_loop jpeg (start + 1 + unat v) = Some r \<and>
              (r = no_dimensions \<or> (\<exists>w h i. r = Inr (w, h) \<and> start_of_frame_at jpeg i w h))"
            using "1.IH"(2) [OF _ start_def _ peek refl segment _ v refl _ rec(3)] True ge go rec
            by (auto simp: not_le not_less)
          then show ?thesis using step rec by auto
        qed
      qed
    qed
  qed
qed

lemma ReadJpegDimensions_result:
  "\<exists>r. ReadJpegDimensions jpeg = Some r \<and>
     ((\<exists>e. r = Inl e) \<or> (\<exists>w h i. r = Inr (w, h) \<and> start_of_frame_at jpeg i w h))"
proof (cases "length jpeg < 4 \<or> jpeg ! 0 \<noteq> 0xff \<or> jpeg ! 1 \<noteq> 0xd8")
  case True
  then show ?thesis
    by (cases "length jpeg < 4") (auto simp: ReadJpegDimensions_def peek_def)
next
  case False
  then have "ReadJpegDimensions jpeg = dimensions_loop jpeg 2"
    by (auto simp: ReadJpegDimensions_def peek_def)
  then show ?thesis
    using dimensions_loop_result [of 2 jpeg] by (auto simp: no_dimensions_def)
qed

text \<open>
  \<open>ReadJpegDimensions\<close> is memory safe and honest on every input: it always returns, never
  reads outside the vector, and when it reports a size the size is positive and is the one
  written in a start-of-frame segment that lies inside the vector.
\<close>
theorem ReadJpegDimensions_safe:
  "\<exists>r. ReadJpegDimensions jpeg = Some r \<and>
     ((\<exists>e. r = Inl e) \<or> (\<exists>w h i. r = Inr (w, h) \<and> start_of_frame_at jpeg i w h))"
  by (rule ReadJpegDimensions_result)


subsection \<open>Headers that are found\<close>

definition be16 :: "nat \<Rightarrow> bytes" where
  "be16 n = [word_of_nat (n div 256), word_of_nat (n mod 256)]"

text \<open>A segment the walk steps over.\<close>

definition other_segment :: "byte \<Rightarrow> bytes \<Rightarrow> bool" where
  "other_segment marker payload \<longleftrightarrow>
     \<not> standalone_marker marker \<and> marker \<notin> {0xd9, 0xda, 0xff} \<and> \<not> IsStartOfFrame marker \<and>
     length payload \<le> 65533"

definition segment :: "byte \<times> bytes \<Rightarrow> bytes" where
  "segment mp = [0xff, fst mp] @ be16 (length (snd mp) + 2) @ snd mp"

text \<open>A start-of-frame segment: its declared length, sample precision, height and width.\<close>

definition frame_header :: "byte \<Rightarrow> nat \<Rightarrow> byte \<Rightarrow> nat \<Rightarrow> nat \<Rightarrow> bytes" where
  "frame_header sof len precision w h = [0xff, sof] @ be16 len @ [precision] @ be16 h @ be16 w"

lemma length_be16 [simp]: "length (be16 n) = 2"
  by (simp add: be16_def)

lemma BigEndian16_be16:
  assumes "n < 65536" "offset = length pre"
  shows "\<exists>v. BigEndian16 (pre @ be16 n @ rest) offset = Some v \<and> unat v = n"
proof -
  have "n div 256 < 256" using assms(1) by simp
  then have "unat (word_of_nat (n div 256) :: byte) = n div 256"
    "unat (word_of_nat (n mod 256) :: byte) = n mod 256"
    by (simp_all add: unat_of_nat)
  then show ?thesis
    using assms(2) BigEndian16_in [of offset "pre @ be16 n @ rest"]
    by (auto simp: be16_def nth_append)
qed

lemma skip_fill_marker:
  assumes "jpeg ! offset = 0xff" "jpeg ! (offset + 1) \<noteq> 0xff" "offset + 1 < length jpeg"
  shows "skip_fill jpeg offset = offset + 1"
  using assms by (simp add: skip_fill.simps [of jpeg offset] skip_fill.simps [of jpeg "Suc offset"])

lemma IsStartOfFrame_not_other:
  "IsStartOfFrame sof \<Longrightarrow> \<not> standalone_marker sof \<and> sof \<notin> {0xd9, 0xda, 0xff}"
  by (auto simp: IsStartOfFrame_def standalone_marker_def)

lemma dimensions_loop_marker:
  assumes "offset + 4 \<le> length jpeg" "jpeg ! offset = 0xff" "jpeg ! (offset + 1) = marker"
    and "\<not> standalone_marker marker" "marker \<notin> {0xd9, 0xda, 0xff}"
    and "BigEndian16 jpeg (offset + 2) = Some v" "2 \<le> unat v" "offset + 2 + unat v \<le> length jpeg"
  shows "dimensions_loop jpeg offset =
     (if IsStartOfFrame marker \<and> 7 \<le> unat v then do {
        parsed_height \<leftarrow> BigEndian16 jpeg (offset + 5);
        parsed_width \<leftarrow> BigEndian16 jpeg (offset + 7);
        if unat parsed_width = 0 \<or> unat parsed_height = 0 then Some no_dimensions
        else Some (Inr (unat parsed_width, unat parsed_height)) }
      else dimensions_loop jpeg (offset + 2 + unat v))"
proof -
  have start: "skip_fill jpeg offset = Suc offset"
    using skip_fill_marker [of jpeg offset] assms by simp
  have peek: "peek jpeg (Suc offset) = Some marker" using assms(1,3) by (simp add: peek_def)
  show ?thesis
    using assms by (subst dimensions_loop.simps) (simp add: start peek Let_def eval_nat_numeral)
qed

lemma dimensions_loop_over_segment:
  assumes j: "jpeg = pre @ segment (marker, payload) @ rest" and o: "other_segment marker payload"
  shows "dimensions_loop jpeg (length pre) =
     dimensions_loop jpeg (length (pre @ segment (marker, payload)))"
proof -
  have m: "\<not> standalone_marker marker" "marker \<notin> {0xd9, 0xda, 0xff}"
    "\<not> IsStartOfFrame marker" "length payload + 2 < 65536"
    using o by (auto simp: other_segment_def)
  have "jpeg = (pre @ [0xff, marker]) @ be16 (length payload + 2) @ payload @ rest"
    using j by (simp add: segment_def)
  then obtain v where v: "BigEndian16 jpeg (length pre + 2) = Some v" "unat v = length payload + 2"
    using BigEndian16_be16 [OF m(4), of "length pre + 2" "pre @ [0xff, marker]"] by auto
  have "jpeg ! length pre = 0xff" "jpeg ! (length pre + 1) = marker"
    "length jpeg = length pre + 4 + length payload + length rest"
    by (simp_all add: j segment_def nth_append)
  with m v dimensions_loop_marker [of "length pre" jpeg marker v] show ?thesis
    by (simp add: segment_def add.commute add.left_commute)
qed

lemma dimensions_loop_at_frame:
  assumes j: "jpeg = pre @ frame_header sof len precision w h @ rest" and "IsStartOfFrame sof"
    and "7 \<le> len" "len < 65536" "len \<le> length rest + 7"
    and "0 < w" "w < 65536" "0 < h" "h < 65536"
  shows "dimensions_loop jpeg (length pre) = Some (Inr (w, h))"
proof -
  have "jpeg = (pre @ [0xff, sof]) @ be16 len @ ([precision] @ be16 h @ be16 w @ rest)"
    by (simp add: j frame_header_def)
  then obtain lv where lv: "BigEndian16 jpeg (length pre + 2) = Some lv" "unat lv = len"
    using BigEndian16_be16 [OF assms(4), of "length pre + 2" "pre @ [0xff, sof]"] by auto
  have "jpeg = (pre @ [0xff, sof] @ be16 len @ [precision]) @ be16 h @ (be16 w @ rest)"
    by (simp add: j frame_header_def)
  then obtain hv where hv: "BigEndian16 jpeg (length pre + 5) = Some hv" "unat hv = h"
    using BigEndian16_be16 [OF assms(9), of "length pre + 5"
        "pre @ [0xff, sof] @ be16 len @ [precision]" "be16 w @ rest"] by auto
  have "jpeg = (pre @ [0xff, sof] @ be16 len @ [precision] @ be16 h) @ be16 w @ rest"
    by (simp add: j frame_header_def)
  then obtain wv where wv: "BigEndian16 jpeg (length pre + 7) = Some wv" "unat wv = w"
    using BigEndian16_be16 [OF assms(7), of "length pre + 7"
        "pre @ [0xff, sof] @ be16 len @ [precision] @ be16 h" rest] by auto
  have "jpeg ! length pre = 0xff" "jpeg ! (length pre + 1) = sof"
    "length jpeg = length pre + 9 + length rest"
    by (simp_all add: j frame_header_def nth_append)
  with lv hv wv assms(2-) IsStartOfFrame_not_other [OF assms(2)]
    dimensions_loop_marker [of "length pre" jpeg sof lv] show ?thesis by simp
qed

lemma dimensions_loop_segments:
  "list_all (\<lambda>(marker, payload). other_segment marker payload) segs \<Longrightarrow>
   jpeg = pre @ concat (map segment segs) @ rest \<Longrightarrow>
   dimensions_loop jpeg (length pre) = dimensions_loop jpeg (length (pre @ concat (map segment segs)))"
proof (induction segs arbitrary: pre)
  case Nil
  then show ?case by simp
next
  case (Cons mp segs)
  obtain marker payload where mp: "mp = (marker, payload)" by fastforce
  have "dimensions_loop jpeg (length pre) = dimensions_loop jpeg (length (pre @ segment mp))"
    unfolding mp
    by (rule dimensions_loop_over_segment [where rest = "concat (map segment segs) @ rest"])
      (use Cons.prems mp in simp_all)
  also have "\<dots> = dimensions_loop jpeg (length ((pre @ segment mp) @ concat (map segment segs)))"
    by (rule Cons.IH) (use Cons.prems in simp_all)
  finally show ?case by (simp add: add.assoc)
qed

lemma ReadJpegDimensions_frame:
  assumes "list_all (\<lambda>(marker, payload). other_segment marker payload) segs"
    and "IsStartOfFrame sof" and "7 \<le> len" "len < 65536" "len \<le> length rest + 7"
    and "0 < w" "w < 65536" "0 < h" "h < 65536"
  shows "ReadJpegDimensions
      ([0xff, 0xd8] @ concat (map segment segs) @ frame_header sof len precision w h @ rest) =
    Some (Inr (w, h))"
    (is "ReadJpegDimensions ?jpeg = _")
proof -
  let ?pre = "[0xff, 0xd8] @ concat (map segment segs)"
  have "ReadJpegDimensions ?jpeg = dimensions_loop ?jpeg 2"
    by (simp add: ReadJpegDimensions_def frame_header_def)
  also have "\<dots> = dimensions_loop ?jpeg (length ?pre)"
    using dimensions_loop_segments [OF assms(1), of ?jpeg "[0xff, 0xd8]"]
    by (simp add: numeral_2_eq_2)
  also have "\<dots> = Some (Inr (w, h))"
    by (rule dimensions_loop_at_frame [OF _ assms(2-9)]) simp
  finally show ?thesis .
qed

text \<open>
  Round trip of the size: for a JPEG whose start marker is followed by any number of other
  segments and then a start-of-frame segment, \<open>ReadJpegDimensions\<close> returns exactly the width
  and height written there.
\<close>
theorem ReadJpegDimensions_finds_frame:
  assumes "list_all (\<lambda>(marker, payload). other_segment marker payload) segs"
    and "IsStartOfFrame sof" and "7 \<le> len" "len < 65536" "len \<le> length rest + 7"
    and "0 < w" "w < 65536" "0 < h" "h < 65536"
  shows "ReadJpegDimensions
      ([0xff, 0xd8] @ concat (map segment segs) @ frame_header sof len precision w h @ rest) =
    Some (Inr (w, h))"
  using assms by (rule ReadJpegDimensions_frame)

lemma ReadJpegDimensions_finds_frame_witness:
  "ReadJpegDimensions ([0xff, 0xd8] @ concat (map segment [(0xe0, [1, 2, 3])]) @
     frame_header 0xc0 17 8 1280 720 @ replicate 10 0) = Some (Inr (1280, 720))"
  by (rule ReadJpegDimensions_finds_frame)
    (simp_all add: other_segment_def standalone_marker_def IsStartOfFrame_def)

end
