(* ===== verification/Float32.thy ===== *)
theory Float32
  imports Prelude Complex_Main "HOL-Library.Log_Nat"
begin

section \<open>Single-precision arithmetic on rationals\<close>

text \<open>
  The geometry of the image transform is computed in C++ \<open>float\<close> (IEEE 754 binary32). A finite
  float is a rational; each operation is the exact rational operation followed by rounding to
  the nearest representable number, ties to even, with gradual underflow. Overflow to infinity
  and NaN are not represented: the code only divides by positive scales and image sizes.
  Operations are rounded one by one (no fused multiply-add).
\<close>

text \<open>The largest \<open>e\<close> with \<open>2 ^ e \<le> x\<close>, for positive \<open>x\<close>.\<close>

definition exponent :: "rat \<Rightarrow> int" where
  "exponent x =
     (let (n, d) = quotient_of x;
          e = bitlen n - bitlen d
      in if 2 powi e \<le> x then e else e - 1)"

definition round_half_even :: "rat \<Rightarrow> int" where
  "round_half_even q =
     (let f = \<lfloor>q\<rfloor>; r = q - of_int f
      in if r < 1 / 2 then f else if 1 / 2 < r then f + 1
         else if even f then f else f + 1)"

definition rnd :: "rat \<Rightarrow> rat" where
  "rnd x =
     (if x = 0 then 0
      else let u = 2 powi (max (exponent \<bar>x\<bar>) (- 126) - 23)
           in of_int (round_half_even (x / u)) * u)"

definition fadd :: "rat \<Rightarrow> rat \<Rightarrow> rat" where "fadd x y = rnd (x + y)"
definition fsub :: "rat \<Rightarrow> rat \<Rightarrow> rat" where "fsub x y = rnd (x - y)"
definition fmul :: "rat \<Rightarrow> rat \<Rightarrow> rat" where "fmul x y = rnd (x * y)"
definition fdiv :: "rat \<Rightarrow> rat \<Rightarrow> rat" where "fdiv x y = rnd (x / y)"

text \<open>\<open>static_cast<float>\<close> of an integer, \<open>std::clamp\<close>, \<open>std::lround\<close> (half away from zero).\<close>

definition to_float :: "int \<Rightarrow> rat" where "to_float i = rnd (of_int i)"

definition clamp :: "'a::linorder \<Rightarrow> 'a \<Rightarrow> 'a \<Rightarrow> 'a" where
  "clamp v lo hi = (if v < lo then lo else if hi < v then hi else v)"

definition lround :: "rat \<Rightarrow> int" where
  "lround x = (if x < 0 then - \<lfloor>1 / 2 - x\<rfloor> else \<lfloor>x + 1 / 2\<rfloor>)"

text \<open>\<open>static_cast<int>\<close> of a \<open>long\<close>: modulo 2 to the 32 (C++20).\<close>

definition int_of_long :: "int \<Rightarrow> int" where
  "int_of_long i = sint (word_of_int i :: 32 word)"

lemma clamp_range: "lo \<le> hi \<Longrightarrow> lo \<le> clamp v lo hi \<and> clamp v lo hi \<le> hi"
  by (auto simp: clamp_def)

lemma clamp_id: "lo \<le> v \<Longrightarrow> v \<le> hi \<Longrightarrow> clamp v lo hi = v"
  by (auto simp: clamp_def)

lemma lround_of_int [simp]: "lround (of_int i) = i"
proof -
  have "\<lfloor>of_int i + (1 / 2 :: rat)\<rfloor> = i" by (simp add: floor_eq_iff)
  moreover have "\<lfloor>1 / 2 - (of_int i :: rat)\<rfloor> = - i" by (simp add: floor_eq_iff)
  ultimately show ?thesis by (simp add: lround_def)
qed

lemma int_of_long_id: "- (2 ^ 31) \<le> i \<Longrightarrow> i < 2 ^ 31 \<Longrightarrow> int_of_long i = i"
  by (simp add: int_of_long_def int_word_sint)

subsection \<open>Exactness on multiples of one half\<close>

lemma exponent_bounds:
  assumes "0 < x"
  shows "2 powi (exponent x) \<le> x" "x < 2 powi (exponent x + 1)"
proof -
  obtain n d where nd: "quotient_of x = (n, d)" by fastforce
  then have x: "x = of_int n / of_int d" by (rule quotient_of_div)
  have d: "0 < d" using nd by (rule quotient_of_denom_pos)
  then have n: "0 < n" using assms x by (simp add: zero_less_divide_iff)
  have pw: "(2::rat) powi (bitlen k - 1) \<le> of_int k \<and> of_int k < (2::rat) powi (bitlen k)"
    if "0 < k" for k
  proof -
    have b: "2 ^ nat (bitlen k - 1) \<le> k" "k < 2 ^ nat (bitlen k)" "0 < bitlen k"
      using bitlen_bounds [OF that] that bitlen_ge_iff_power [of 1 k] by auto
    then have "(of_int (2 ^ nat (bitlen k - 1)) :: rat) \<le> of_int k"
      "(of_int k :: rat) < of_int (2 ^ nat (bitlen k))" by linarith+
    with b(3) show ?thesis by (simp add: power_int_def)
  qed
  let ?e = "bitlen n - bitlen d"
  have "(2::rat) powi (bitlen n - 1) / 2 powi (bitlen d) \<le> 2 powi (bitlen n - 1) / of_int d"
    using pw [OF d] d by (intro divide_left_mono) auto
  also have "\<dots> \<le> x"
    using pw [OF n] d by (simp add: x divide_right_mono)
  finally have lo: "2 powi (?e - 1) \<le> x"
    by (simp add: power_int_diff [symmetric] algebra_simps)
  have "x < 2 powi (bitlen n) / of_int d"
    using pw [OF n] d by (simp add: x divide_strict_right_mono)
  also have "2 powi (bitlen n) / of_int d \<le> (2::rat) powi (bitlen n) / 2 powi (bitlen d - 1)"
    using pw [OF d] d by (intro divide_left_mono) auto
  finally have hi: "x < 2 powi (?e + 1)"
    by (simp add: power_int_diff [symmetric] algebra_simps)
  show "2 powi (exponent x) \<le> x" "x < 2 powi (exponent x + 1)"
    using lo hi by (auto simp: exponent_def nd Let_def)
qed

lemma round_half_even_of_int [simp]: "round_half_even (of_int i) = i"
  by (simp add: round_half_even_def)

text \<open>Numbers \<open>m / 2\<close> with \<open>|m| \<le> 2 ^ 24\<close>: every integer and half-integer up to \<open>2 ^ 23\<close>.\<close>

definition half_grid :: "rat \<Rightarrow> bool" where
  "half_grid x \<longleftrightarrow> (\<exists>m. x = of_int m / 2 \<and> \<bar>m\<bar> \<le> 2 ^ 24)"

lemma rnd_half_grid:
  assumes "half_grid x"
  shows "rnd x = x"
proof (cases "x = 0")
  case True
  then show ?thesis by (simp add: rnd_def)
next
  case False
  obtain m where m: "x = of_int m / 2" "\<bar>m\<bar> \<le> 2 ^ 24"
    using assms by (auto simp: half_grid_def)
  let ?e = "exponent \<bar>x\<bar>"
  have ax: "0 < \<bar>x\<bar>" "\<bar>x\<bar> \<le> 2 powi 23" "1 / 2 \<le> \<bar>x\<bar>"
    using False m by (auto simp: abs_if of_int_le_iff [of _ "2 ^ 24", where 'a = rat, symmetric]
        split: if_splits)
  note eb = exponent_bounds [OF ax(1)]
  have "(2::rat) powi ?e \<le> 2 powi 23" using eb(1) ax(2) by linarith
  then have e23: "?e \<le> 23"
    using power_int_strict_increasing [of 23 ?e "2::rat"] by linarith
  have "(2::rat) powi (-1) < 2 powi (?e + 1)" using eb(2) ax(3) by simp
  then have e1: "-1 \<le> ?e"
    using power_int_increasing [of "?e + 1" "-1" "2::rat"] by linarith
  define u :: rat where "u = 2 powi (?e - 23)"
  have u: "u \<noteq> 0" by (simp add: u_def)
  have "\<exists>k. x / u = of_int k"
  proof (cases "?e = 23")
    case True
    then have "\<bar>x\<bar> = 2 powi 23" using eb(1) ax(2) by simp
    then have "x = of_int (2 ^ 23) \<or> x = of_int (- (2 ^ 23))" by (auto simp: abs_if split: if_splits)
    moreover have "u = 1" using True by (simp add: u_def)
    ultimately show ?thesis by (metis div_by_1)
  next
    case False
    have "x / u = of_int m * (2 powi (-1) / 2 powi (?e - 23))" by (simp add: m(1) u_def)
    also have "(2::rat) powi (-1) / 2 powi (?e - 23) = 2 powi (-1 - (?e - 23))"
      by (rule power_int_diff [symmetric]) simp
    also have "(2::rat) powi (-1 - (?e - 23)) = of_int (2 ^ nat (22 - ?e))"
      using e23 False by (simp add: power_int_def)
    finally have "x / u = of_int (m * 2 ^ nat (22 - ?e))" by simp
    then show ?thesis by blast
  qed
  then obtain k where k: "x / u = of_int k" by blast
  have "max ?e (- 126) = ?e" using e1 by simp
  then have "rnd x = of_int (round_half_even (x / u)) * u"
    using False by (simp add: rnd_def u_def Let_def)
  also have "\<dots> = x" using u k by (simp add: nonzero_divide_eq_eq)
  finally show ?thesis .
qed

lemma half_grid_of_int: "\<bar>i\<bar> \<le> 2 ^ 23 \<Longrightarrow> half_grid (of_int i)"
  unfolding half_grid_def by (rule exI [of _ "2 * i"]) simp

lemma half_grid_half: "\<bar>m\<bar> \<le> 2 ^ 24 \<Longrightarrow> half_grid (of_int m / 2)"
  by (auto simp: half_grid_def)

lemma to_float_exact [simp]: "\<bar>i\<bar> \<le> 2 ^ 23 \<Longrightarrow> to_float i = of_int i"
  by (simp add: to_float_def rnd_half_grid half_grid_of_int)

end
