(* ===== verification/Buffers.thy ===== *)
theory Buffers
  imports Prelude
begin

section \<open>Loops that fill a buffer\<close>

text \<open>
  The image routines fill a \<open>std::vector\<close> or a Java array with indexed stores inside counted
  loops. A store is checked: outside the buffer it has no result, as an out-of-range read. The
  lemmas reduce a loop, or two nested ones, whose iterations write consecutive blocks to one
  replacement of a segment.
\<close>

definition poke :: "'a list \<Rightarrow> nat \<Rightarrow> 'a \<Rightarrow> 'a list option" where
  "poke xs i v = (if i < length xs then Some (xs[i := v]) else None)"

text \<open>\<open>for (i : is) s = body(i, s)\<close>, where an iteration may have no result.\<close>

fun for_each :: "'i list \<Rightarrow> ('i \<Rightarrow> 's \<Rightarrow> 's option) \<Rightarrow> 's \<Rightarrow> 's option" where
  "for_each [] f s = Some s"
| "for_each (i # is) f s =
     do { s' \<leftarrow> f i s; for_each is f s' }"

text \<open>The buffer with the elements from position \<open>b\<close> replaced.\<close>

definition splice :: "'a list \<Rightarrow> nat \<Rightarrow> 'a list \<Rightarrow> 'a list" where
  "splice xs b vs = take b xs @ vs @ drop (b + length vs) xs"

named_theorems buffer_simps

lemma for_each_append: "for_each (is @ js) f s = do { s' \<leftarrow> for_each is f s; for_each js f s' }"
  by (induction "is" arbitrary: s) (auto split: bind_splits)

lemma length_splice [buffer_simps]:
  "b + length vs \<le> length xs \<Longrightarrow> length (splice xs b vs) = length xs"
  by (simp add: splice_def)

lemma splice_Nil [buffer_simps]: "splice xs b [] = xs"
  by (simp add: splice_def)

lemma splice_all: "length vs = length xs \<Longrightarrow> splice xs 0 vs = vs"
  by (simp add: splice_def)

lemma splice_splice:
  "b + length vs \<le> length xs \<Longrightarrow>
   splice (splice xs b vs) (b + length vs) ws = splice xs b (vs @ ws)"
  by (simp add: splice_def ac_simps)

lemma splice_front_back:
  "length vs + length ws = length xs \<Longrightarrow> splice (splice xs 0 vs) (length vs) ws = vs @ ws"
  by (simp add: splice_def)

lemma poke_splice [buffer_simps]: "i < length xs \<Longrightarrow> poke xs i v = Some (splice xs i [v])"
  by (simp add: poke_def splice_def upd_conv_take_nth_drop)

lemma nth_splice:
  assumes "b + length vs \<le> length xs" "i < length xs"
  shows "splice xs b vs ! i = (if b \<le> i \<and> i < b + length vs then vs ! (i - b) else xs ! i)"
  using assms by (auto simp: splice_def nth_append min_def)

text \<open>A loop whose iteration \<open>i\<close> writes the block \<open>g i\<close> of \<open>k\<close> elements behind the others.\<close>

lemma for_each_splice:
  assumes step: "\<And>i ys. i < n \<Longrightarrow> length ys = length xs \<Longrightarrow> f i ys = Some (splice ys (b + k * i) (g i))"
    and len: "\<And>i. i < n \<Longrightarrow> length (g i) = k"
    and fits: "b + k * n \<le> length xs"
  shows "for_each [0..<n] f xs = Some (splice xs b (concat (map g [0..<n])))"
  using assms
proof (induction n)
  case 0
  then show ?case by (simp add: splice_Nil)
next
  case (Suc n)
  have l: "length (concat (map g [0..<n])) = k * n"
    using Suc.prems(2) by (induction n) auto
  have fit: "b + k * n \<le> length xs" and fit': "b + k * n + k \<le> length xs"
    using Suc.prems(3) by (simp_all add: algebra_simps)
  have "for_each [0..<n] f xs = Some (splice xs b (concat (map g [0..<n])))"
    using Suc fit by simp
  moreover have "f n (splice xs b (concat (map g [0..<n]))) =
    Some (splice (splice xs b (concat (map g [0..<n]))) (b + k * n) (g n))"
    using fit l by (intro Suc.prems(1)) (simp_all add: length_splice)
  ultimately show ?case
    using fit l splice_splice [of b "concat (map g [0..<n])" xs "g n"]
    by (simp add: for_each_append)
qed

subsection \<open>Row-major pictures\<close>

text \<open>The elements of a picture of \<open>h\<close> rows and \<open>w\<close> columns, \<open>g y x\<close> the block at row \<open>y\<close>.\<close>

definition raster :: "nat \<Rightarrow> nat \<Rightarrow> (nat \<Rightarrow> nat \<Rightarrow> 'a list) \<Rightarrow> 'a list" where
  "raster h w g = concat (map (\<lambda>y. concat (map (g y) [0..<w])) [0..<h])"

lemma length_blocks:
  "(\<And>i. i < n \<Longrightarrow> length (g i) = k) \<Longrightarrow> length (concat (map g [0..<n])) = k * n"
  by (induction n) auto

lemma nth_blocks:
  assumes "\<And>i. i < n \<Longrightarrow> length (g i) = k" "i < n" "c < k"
  shows "concat (map g [0..<n]) ! (k * i + c) = g i ! c"
  using assms
proof (induction n)
  case 0
  then show ?case by simp
next
  case (Suc n)
  have l: "length (concat (map g [0..<n])) = k * n"
    using Suc.prems(1) by (intro length_blocks) simp
  show ?case
  proof (cases "i = n")
    case True
    then show ?thesis using l by (simp add: nth_append)
  next
    case False
    then have i: "i < n" using Suc.prems(2) by simp
    have "k * i + c < k * n"
      using mult_le_mono2 [of "Suc i" n k] i Suc.prems(3) by simp
    then show ?thesis using Suc l i by (simp add: nth_append)
  qed
qed

lemma length_raster:
  "(\<And>y x. y < h \<Longrightarrow> x < w \<Longrightarrow> length (g y x) = k) \<Longrightarrow> length (raster h w g) = k * (w * h)"
  unfolding raster_def by (subst length_blocks [where k = "k * w"]) (auto simp: length_blocks)

lemma nth_raster:
  assumes "\<And>y x. y < h \<Longrightarrow> x < w \<Longrightarrow> length (g y x) = k" "y < h" "x < w" "c < k"
  shows "raster h w g ! (k * (y * w + x) + c) = g y x ! c"
proof -
  let ?row = "\<lambda>y. concat (map (g y) [0..<w])"
  have row: "\<And>y. y < h \<Longrightarrow> length (?row y) = k * w"
    using assms(1) by (intro length_blocks) simp
  have "k * x + c < k * w"
    using mult_le_mono2 [of "Suc x" w k] assms(3,4) by simp
  then have "raster h w g ! (k * w * y + (k * x + c)) = ?row y ! (k * x + c)"
    unfolding raster_def using row assms(2) by (intro nth_blocks) auto
  also have "\<dots> = g y x ! c" using assms by (intro nth_blocks) auto
  finally show ?thesis by (simp add: algebra_simps)
qed

lemma raster_cong:
  "(\<And>y x. y < h \<Longrightarrow> x < w \<Longrightarrow> f y x = g y x) \<Longrightarrow> raster h w f = raster h w g"
  unfolding raster_def by (intro arg_cong [where f = concat] map_cong) auto

text \<open>Two nested loops that write the picture from position \<open>b\<close> on.\<close>

lemma for_each_raster:
  assumes step: "\<And>y x ys. y < h \<Longrightarrow> x < w \<Longrightarrow> length ys = length xs \<Longrightarrow>
      f y x ys = Some (splice ys (b + k * (y * w + x)) (g y x))"
    and len: "\<And>y x. y < h \<Longrightarrow> x < w \<Longrightarrow> length (g y x) = k"
    and fits: "b + k * (w * h) \<le> length xs"
  shows "for_each [0..<h] (\<lambda>y. for_each [0..<w] (f y)) xs = Some (splice xs b (raster h w g))"
  unfolding raster_def
proof (rule for_each_splice [where k = "k * w"])
  fix y and ys :: "'a list"
  assume y: "y < h" "length ys = length xs"
  have "k * w * Suc y \<le> k * w * h" using y(1) by (intro mult_le_mono2) simp
  then have "b + k * w * y + k * w \<le> length ys" using fits y(2) by (simp add: algebra_simps)
  then show "for_each [0..<w] (f y) ys = Some (splice ys (b + k * w * y) (concat (map (g y) [0..<w])))"
    using step [OF y(1)] len [OF y(1)] y(2)
    by (intro for_each_splice) (auto simp: algebra_simps)
next
  fix y assume "y < h"
  then show "length (concat (map (g y) [0..<w])) = k * w" using len by (intro length_blocks) simp
next
  show "b + k * w * h \<le> length xs" using fits by (simp add: algebra_simps)
qed

text \<open>A vector of equal bytes filled by a picture.\<close>

lemma picture_index:
  "y < h \<Longrightarrow> x < w \<Longrightarrow> y * w + x < (w * h :: nat)"
  using mult_le_mono1 [of "Suc y" h w] by (simp add: mult.commute)

end
