(* ===== verification/Image_Geometry.thy ===== *)
theory Image_Geometry
  imports Float32 Buffers
begin

section \<open>Geometry and sampling of the image transform\<close>

text \<open>
  The coordinate functions at the top of \<open>image_transform.cpp\<close>: which source position an output
  pixel shows when the oriented source is scaled to cover the output, and the bilinear sample
  taken there. Where the output has the size of the rotated source the positions are exact
  integers (\<open>MapOutputToSource_exact\<close>), although they are computed in single precision.
\<close>

record SourceCoordinate =
  src_x :: rat
  src_y :: rat

abbreviation coordinate :: "rat \<Rightarrow> rat \<Rightarrow> SourceCoordinate" where
  "coordinate x y \<equiv> \<lparr>src_x = x, src_y = y\<rparr>"

definition InvertOrientation :: "rat \<Rightarrow> rat \<Rightarrow> int \<Rightarrow> int \<Rightarrow> int \<Rightarrow> SourceCoordinate" where
  "InvertOrientation oriented_x oriented_y source_width source_height rotation =
     (if rotation = 90 then
        coordinate oriented_y (fsub (to_float (source_height - 1)) oriented_x)
      else if rotation = 180 then
        coordinate (fsub (to_float (source_width - 1)) oriented_x)
          (fsub (to_float (source_height - 1)) oriented_y)
      else if rotation = 270 then
        coordinate (fsub (to_float (source_width - 1)) oriented_y) oriented_x
      else coordinate oriented_x oriented_y)"

text \<open>
  The lambda \<open>at\<close> of \<open>SampleChannel\<close>: the index is computed in \<open>int\<close>, so an index beyond
  \<open>INT_MAX\<close> has no result, nor has a read outside the picture.
\<close>

definition sample_at :: "bytes \<Rightarrow> int \<Rightarrow> int \<Rightarrow> int \<Rightarrow> int \<Rightarrow> rat option" where
  "sample_at img width channel sample_x sample_y =
     (let i = (sample_y * width + sample_x) * 3 + channel
      in if 0 \<le> i \<and> i < 2 ^ 31 then map_option (\<lambda>b. to_float (uint b)) (peek img (nat i))
         else None)"

definition SampleChannel :: "bytes \<Rightarrow> int \<Rightarrow> int \<Rightarrow> rat \<Rightarrow> rat \<Rightarrow> int \<Rightarrow> byte option" where
  "SampleChannel img width height x y channel =
     (let x = clamp x 0 (to_float (width - 1));
          y = clamp y 0 (to_float (height - 1));
          x0 = \<lfloor>x\<rfloor>; y0 = \<lfloor>y\<rfloor>;
          x1 = min (x0 + 1) (width - 1); y1 = min (y0 + 1) (height - 1);
          fx = fsub x (to_float x0); fy = fsub y (to_float y0)
      in do {
        a \<leftarrow> sample_at img width channel x0 y0;
        b \<leftarrow> sample_at img width channel x1 y0;
        c \<leftarrow> sample_at img width channel x0 y1;
        d \<leftarrow> sample_at img width channel x1 y1;
        let top = fadd a (fmul (fsub b a) fx);
        let bottom = fadd c (fmul (fsub d c) fx);
        Some (word_of_int \<lfloor>clamp (fadd top (fmul (fsub bottom top) fy)) 0 255\<rfloor>) })"

definition ClampByte :: "int \<Rightarrow> byte" where
  "ClampByte value = word_of_int (clamp value 0 255)"

definition oriented_size :: "int \<Rightarrow> int \<Rightarrow> int \<Rightarrow> int \<times> int" where
  "oriented_size source_width source_height rotation =
     (if rotation = 90 \<or> rotation = 270 then (source_height, source_width)
      else (source_width, source_height))"

definition cover_scale :: "int \<Rightarrow> int \<Rightarrow> int \<Rightarrow> int \<Rightarrow> rat" where
  "cover_scale output_width output_height oriented_width oriented_height =
     max (fdiv (to_float output_width) (to_float oriented_width))
         (fdiv (to_float output_height) (to_float oriented_height))"

text \<open>One axis: \<open>(i + 0.5 - output * 0.5) / scale + oriented * 0.5 - 0.5\<close>.\<close>

definition oriented_axis :: "int \<Rightarrow> int \<Rightarrow> rat \<Rightarrow> int \<Rightarrow> rat" where
  "oriented_axis i output_size scale oriented =
     fsub (fadd (fdiv (fsub (fadd (to_float i) (1 / 2)) (fmul (to_float output_size) (1 / 2))) scale)
            (fmul (to_float oriented) (1 / 2))) (1 / 2)"

definition MapOutputToSource ::
  "int \<Rightarrow> int \<Rightarrow> int \<Rightarrow> int \<Rightarrow> int \<Rightarrow> int \<Rightarrow> int \<Rightarrow> bool \<Rightarrow> SourceCoordinate" where
  "MapOutputToSource output_x output_y output_width output_height source_width source_height
      rotation mirror =
     (let (oriented_width, oriented_height) = oriented_size source_width source_height rotation;
          scale = cover_scale output_width output_height oriented_width oriented_height;
          oriented_x = oriented_axis output_x output_width scale oriented_width;
          oriented_y = oriented_axis output_y output_height scale oriented_height;
          oriented_x = (if mirror then fsub (to_float (oriented_width - 1)) oriented_x
                        else oriented_x)
      in InvertOrientation oriented_x oriented_y source_width source_height rotation)"

subsection \<open>Exactness without scaling\<close>

text \<open>The pixel shown at column \<open>x\<close> and row \<open>y\<close> when the output has the rotated source's size.\<close>

definition grid_source :: "int \<Rightarrow> bool \<Rightarrow> int \<Rightarrow> int \<Rightarrow> int \<Rightarrow> int \<Rightarrow> int \<times> int" where
  "grid_source rotation mirror source_width source_height x y =
     (let ox = (if mirror then fst (oriented_size source_width source_height rotation) - 1 - x else x)
      in if rotation = 90 then (y, source_height - 1 - ox)
         else if rotation = 180 then (source_width - 1 - ox, source_height - 1 - y)
         else if rotation = 270 then (source_width - 1 - y, ox)
         else (ox, y))"

lemma rnd_half: "x = of_int m / 2 \<Longrightarrow> \<bar>m\<bar> \<le> 2 ^ 24 \<Longrightarrow> rnd x = x"
  by (metis half_grid_half rnd_half_grid)

lemma fsub_ints: "\<bar>i - j\<bar> \<le> 2 ^ 23 \<Longrightarrow> fsub (of_int i) (of_int j) = of_int (i - j)"
  unfolding fsub_def using half_grid_of_int [of "i - j"] rnd_half_grid by simp

lemma cover_scale_one: "0 < w \<Longrightarrow> w \<le> 2 ^ 23 \<Longrightarrow> 0 < h \<Longrightarrow> h \<le> 2 ^ 23 \<Longrightarrow> cover_scale w h w h = 1"
  using rnd_half [of 1 2] by (simp add: cover_scale_def fdiv_def)

lemma oriented_axis_exact:
  assumes "0 \<le> i" "i < n" "n \<le> 2 ^ 22"
  shows "oriented_axis i n 1 n = of_int i"
proof -
  have "fadd (of_int i) (1 / 2) = of_int (2 * i + 1) / 2"
    unfolding fadd_def by (subst rnd_half [of _ "2 * i + 1"]) (use assms in auto)
  moreover have "fmul (of_int n) (1 / 2) = of_int n / 2"
    unfolding fmul_def by (subst rnd_half [of _ n]) (use assms in auto)
  moreover have "fsub (of_int (2 * i + 1) / 2) (of_int n / 2) = of_int (2 * i + 1 - n) / 2"
    unfolding fsub_def by (subst rnd_half [of _ "2 * i + 1 - n"]) (use assms in \<open>auto simp: diff_divide_distrib\<close>)
  moreover have "fdiv (of_int (2 * i + 1 - n) / 2) 1 = of_int (2 * i + 1 - n) / 2"
    unfolding fdiv_def by (subst rnd_half [of _ "2 * i + 1 - n"]) (use assms in auto)
  moreover have "fadd (of_int (2 * i + 1 - n) / 2) (of_int n / 2) = of_int (2 * i + 1) / 2"
    unfolding fadd_def by (subst rnd_half [of _ "2 * i + 1"]) (use assms in \<open>auto simp: diff_divide_distrib\<close>)
  moreover have "fsub (of_int (2 * i + 1) / 2) (1 / 2) = of_int i"
    unfolding fsub_def by (subst rnd_half [of _ "2 * i"]) (use assms in \<open>auto simp: add_divide_distrib\<close>)
  moreover have "to_float i = of_int i" "to_float n = of_int n" using assms by simp_all
  ultimately show ?thesis unfolding oriented_axis_def by (simp only:)
qed

lemma MapOutputToSource_exact:
  assumes size: "(ow, oh) = oriented_size sw sh rotation"
    and pos: "0 < sw" "sw \<le> 2 ^ 22" "0 < sh" "sh \<le> 2 ^ 22"
    and inside: "0 \<le> x" "x < ow" "0 \<le> y" "y < oh"
  shows "MapOutputToSource x y ow oh sw sh rotation mirror =
    (case grid_source rotation mirror sw sh x y of (i, j) \<Rightarrow> coordinate (of_int i) (of_int j))"
proof -
  have o: "0 < ow" "ow \<le> 2 ^ 22" "0 < oh" "oh \<le> 2 ^ 22"
    using size pos by (auto simp: oriented_size_def split: if_splits)
  have one: "cover_scale ow oh ow oh = 1" using o by (simp add: cover_scale_one)
  have ax: "oriented_axis x ow 1 ow = of_int x" "oriented_axis y oh 1 oh = of_int y"
    using o inside by (simp_all add: oriented_axis_exact)
  define ox where "ox = (if mirror then ow - 1 - x else x)"
  have oxr: "0 \<le> ox" "ox < ow" using inside by (auto simp: ox_def)
  have m: "(if mirror then fsub (to_float (ow - 1)) (of_int x) else of_int x) = (of_int ox :: rat)"
    using o inside fsub_ints [of "ow - 1" x] by (simp add: ox_def)
  have inv: "InvertOrientation (of_int ox) (of_int y) sw sh rotation =
    (case grid_source rotation mirror sw sh x y of (i, j) \<Rightarrow> coordinate (of_int i) (of_int j))"
    using size pos oxr inside fsub_ints [of "sh - 1" ox] fsub_ints [of "sw - 1" ox]
      fsub_ints [of "sh - 1" y] fsub_ints [of "sw - 1" y]
    by (auto simp: InvertOrientation_def grid_source_def ox_def oriented_size_def Let_def
        simp del: of_int_diff split: if_splits)
  show ?thesis
    unfolding MapOutputToSource_def size [symmetric] Let_def prod.case one ax m by (rule inv)
qed

lemma grid_source_inside:
  assumes "(ow, oh) = oriented_size sw sh rotation"
    and "0 \<le> x" "x < ow" "0 \<le> y" "y < oh" "grid_source rotation mirror sw sh x y = (i, j)"
  shows "0 \<le> i \<and> i < sw \<and> 0 \<le> j \<and> j < sh"
  using assms by (auto simp: grid_source_def oriented_size_def Let_def split: if_splits)

subsection \<open>Sampling\<close>

lemma sample_at_in:
  assumes "0 \<le> i" "i < w" "0 \<le> j" "j < h" "length img = nat (3 * w * h)" "3 * w * h < 2 ^ 31"
    "0 \<le> c" "c < 3"
  shows "sample_at img w c i j = Some (of_int (uint (img ! nat ((j * w + i) * 3 + c))))"
proof -
  have "j * w + i < h * w"
    using assms mult_right_mono [of "j + 1" h w] by (simp add: algebra_simps)
  then have le: "(j * w + i) * 3 + c < 3 * w * h" using assms(7,8) by (simp add: algebra_simps)
  have ge: "0 \<le> (j * w + i) * 3 + c" using assms by simp
  have "to_float (uint b) = of_int (uint b)" for b :: byte
    using uint_byte [of b] by (intro to_float_exact) simp
  moreover have "nat ((j * w + i) * 3 + c) < length img"
    using le unfolding assms(5) nat_less_eq_zless [OF ge] .
  moreover have "(j * w + i) * 3 + c < 2 ^ 31" using le assms(6) by linarith
  ultimately show ?thesis using ge unfolding sample_at_def Let_def by (simp only: peek_in) simp
qed

lemma clamp_floor:
  assumes "0 < (n::int)" "n \<le> 2 ^ 23"
  shows "0 \<le> \<lfloor>clamp v 0 (to_float (n - 1))\<rfloor>" "\<lfloor>clamp v 0 (to_float (n - 1))\<rfloor> < n"
proof -
  have t: "to_float (n - 1) = of_int (n - 1)" using assms by simp
  then have r: "0 \<le> clamp v 0 (to_float (n - 1)) \<and> clamp v 0 (to_float (n - 1)) \<le> of_int (n - 1)"
    using assms clamp_range [of 0 "to_float (n - 1)" v] by simp
  then show "0 \<le> \<lfloor>clamp v 0 (to_float (n - 1))\<rfloor>" by simp
  have "\<lfloor>clamp v 0 (to_float (n - 1))\<rfloor> \<le> \<lfloor>of_int (n - 1) :: rat\<rfloor>"
    using r by (intro floor_mono) simp
  then show "\<lfloor>clamp v 0 (to_float (n - 1))\<rfloor> < n" by simp
qed

lemma SampleChannel_in:
  assumes "0 < w" "w \<le> 2 ^ 23" "0 < h" "h \<le> 2 ^ 23" "length img = nat (3 * w * h)"
    "3 * w * h < 2 ^ 31" "0 \<le> c" "c < 3"
  shows "\<exists>v. SampleChannel img w h x y c = Some v"
proof -
  let ?x = "clamp x 0 (to_float (w - 1))" and ?y = "clamp y 0 (to_float (h - 1))"
  note X = clamp_floor [OF assms(1,2), of x] and Y = clamp_floor [OF assms(3,4), of y]
  have "\<exists>a. sample_at img w c i j = Some a"
    if "i = \<lfloor>?x\<rfloor> \<or> i = min (\<lfloor>?x\<rfloor> + 1) (w - 1)" "j = \<lfloor>?y\<rfloor> \<or> j = min (\<lfloor>?y\<rfloor> + 1) (h - 1)" for i j
    using sample_at_in [of i w j h img c] that X Y assms by auto
  then show ?thesis
    unfolding SampleChannel_def Let_def by (metis bind.bind_lunit)
qed

lemma fadd_zero: "\<bar>i\<bar> \<le> 2 ^ 23 \<Longrightarrow> fadd (of_int i) 0 = of_int i"
  by (simp add: fadd_def rnd_half_grid half_grid_of_int)

lemma fmul_zero [simp]: "fmul x 0 = 0"
  by (simp add: fmul_def rnd_def)

lemma clamp_byte: "clamp (of_int (uint (b :: byte))) 0 255 = (of_int (uint b) :: rat)"
proof (rule clamp_id)
  show "0 \<le> (of_int (uint b) :: rat)" using uint_byte [of b] by (simp only: of_int_0_le_iff)
  have "(of_int (uint b) :: rat) \<le> of_int 255" using uint_byte [of b] by (simp only: of_int_le_iff)
  then show "(of_int (uint b) :: rat) \<le> 255" by simp
qed

lemma SampleChannel_grid:
  assumes "0 \<le> i" "i < w" "w \<le> 2 ^ 23" "0 \<le> j" "j < h" "h \<le> 2 ^ 23"
    "length img = nat (3 * w * h)" "3 * w * h < 2 ^ 31" "0 \<le> c" "c < 3"
  shows "SampleChannel img w h (of_int i) (of_int j) c = Some (img ! nat ((j * w + i) * 3 + c))"
proof -
  have cx: "clamp (of_int i) 0 (to_float (w - 1)) = (of_int i :: rat)"
    and cy: "clamp (of_int j) 0 (to_float (h - 1)) = (of_int j :: rat)"
    using assms to_float_exact [of "w - 1"] to_float_exact [of "h - 1"]
    by (auto simp: clamp_def simp flip: of_int_diff simp del: of_int_diff)
  have f: "fsub (of_int i) (to_float i) = 0" "fsub (of_int j) (to_float j) = 0"
    using assms fsub_ints [of i i] fsub_ints [of j j] by simp_all
  define b where "b = img ! nat ((j * w + i) * 3 + c)"
  have in_grid: "\<exists>v. sample_at img w c i' j' = Some v" if "0 \<le> i'" "i' < w" "0 \<le> j'" "j' < h" for i' j'
    using sample_at_in [OF that assms(7-10)] by blast
  have s00: "sample_at img w c i j = Some (of_int (uint b))"
    using sample_at_in [OF _ _ _ _ assms(7-10)] assms by (simp only: b_def)
  have edge: "0 \<le> min (i + 1) (w - 1)" "min (i + 1) (w - 1) < w"
    "0 \<le> min (j + 1) (h - 1)" "min (j + 1) (h - 1) < h"
    using assms by linarith+
  obtain p where s10: "sample_at img w c (min (i + 1) (w - 1)) j = Some p"
    using in_grid edge assms by blast
  obtain q where s01: "sample_at img w c i (min (j + 1) (h - 1)) = Some q"
    using in_grid edge assms by blast
  obtain r where s11: "sample_at img w c (min (i + 1) (w - 1)) (min (j + 1) (h - 1)) = Some r"
    using in_grid edge by blast
  have "\<bar>v\<bar> \<le> 2 ^ 23" if "0 \<le> v \<and> v \<le> 255" for v :: int using that by simp
  then have "fadd (of_int (uint b)) 0 = of_int (uint b)"
    using uint_byte [of b] by (intro fadd_zero) blast
  then show ?thesis
    unfolding SampleChannel_def Let_def cx cy floor_of_int f s00 s10 s01 s11 bind.bind_lunit
      fmul_zero b_def [symmetric]
    by (simp only: clamp_byte floor_of_int word_of_int_uint)
qed

text \<open>The conversion to a byte does nothing where the value is in range.\<close>

lemma ClampByte_id: "0 \<le> v \<Longrightarrow> v \<le> 255 \<Longrightarrow> uint (ClampByte v) = v"
  by (simp add: ClampByte_def clamp_id uint_word_of_int)

end
