(* ===== verification/Image_Transform.thy ===== *)
theory Image_Transform
  imports Image_Geometry Jpeg_Header "HOL-Library.Signed_Division"
begin

section \<open>Picture conversions\<close>

text \<open>
  \<open>image_transform.cpp\<close> but for the coordinate functions and the JPEG header scan: the solid
  picture, JPEG to JPEG, JPEG to NV21, NV21 to NV21 and NV21 to JPEG.

  The stb codec is not part of the sources under \<open>src/daemon/src\<close>. The decoder is the argument
  \<open>decode\<close>: \<open>None\<close> is the null pointer of \<open>stbi_load_from_memory\<close>, \<open>Some (pixels, w, h)\<close> the RGB
  picture it returns; \<open>reason\<close> is what \<open>stbi_failure_reason\<close> returns. The encoder is the argument
  \<open>encode\<close>, called with width, height, RGB bytes and quality: the chunks it hands to
  \<open>WriteToVector\<close> and its return value. A call gives its \<open>bool\<close> with the error text, the contents
  of the output vector behind it and the source size it stored; \<open>None\<close> is a read or a store
  outside a buffer, or the exception of a vector that is too long. Memory exhaustion is not
  modelled.
\<close>

record TransformOptions =
  width :: int
  height :: int
  rotation :: int
  mirror :: bool
  jpeg_quality :: int

definition TransformOptions_default :: TransformOptions where
  "TransformOptions_default =
     \<lparr>width = 1280, height = 720, rotation = 0, mirror = False, jpeg_quality = 90\<rparr>"

record image_call =
  outcome_of :: "unit outcome"
  contents :: "bytes option"
  source_size :: "(int \<times> int) option"

type_synonym decoder = "bytes \<Rightarrow> (bytes \<times> int \<times> int) option"
type_synonym encoder = "int \<Rightarrow> int \<Rightarrow> bytes \<Rightarrow> int \<Rightarrow> bytes list \<times> bool"

abbreviation refused :: "string \<Rightarrow> bytes option \<Rightarrow> (int \<times> int) option \<Rightarrow> image_call option" where
  "refused e out dims \<equiv> Some \<lparr>outcome_of = Inl e, contents = out, source_size = dims\<rparr>"

abbreviation finished :: "bytes \<Rightarrow> (int \<times> int) option \<Rightarrow> image_call option" where
  "finished out dims \<equiv> Some \<lparr>outcome_of = Inr (), contents = Some out, source_size = dims\<rparr>"

definition WriteToVector :: "bytes \<Rightarrow> bytes \<Rightarrow> bytes" where
  "WriteToVector output chunk = output @ chunk"

text \<open>\<open>output->clear()\<close>, the call of the encoder, and \<open>output->clear()\<close> again when it fails.\<close>

definition encode_into ::
  "encoder \<Rightarrow> int \<Rightarrow> int \<Rightarrow> bytes \<Rightarrow> int \<Rightarrow> string \<Rightarrow> (int \<times> int) option \<Rightarrow> image_call option" where
  "encode_into encode w h pixels quality message dims =
     (case encode w h pixels quality of
        (chunks, True) \<Rightarrow> finished (foldl WriteToVector [] chunks) dims
      | (chunks, False) \<Rightarrow> refused message (Some []) dims)"

definition max_pixels :: nat where "max_pixels = 3840 * 2160"

subsection \<open>The solid picture\<close>

definition CreateSolidJpeg ::
  "encoder \<Rightarrow> int \<Rightarrow> int \<Rightarrow> byte \<Rightarrow> byte \<Rightarrow> byte \<Rightarrow> int \<Rightarrow> bytes option \<Rightarrow> image_call option" where
  "CreateSolidJpeg encode w h red green blue quality output =
     (if output = None \<or> w \<le> 0 \<or> h \<le> 0 \<or> quality < 1 \<or> 100 < quality then
        refused ''invalid solid JPEG parameters'' output None
      else let pixel_count = nat w * nat h in
        if max_pixels < pixel_count then
          refused ''solid JPEG dimensions exceed the safety limit'' output None
        else do {
          pixels \<leftarrow> for_each [0..<pixel_count] (\<lambda>i pixels. do {
            pixels \<leftarrow> poke pixels (3 * i) red;
            pixels \<leftarrow> poke pixels (3 * i + 1) green;
            poke pixels (3 * i + 2) blue }) (replicate (pixel_count * 3) 0);
          encode_into encode w h pixels quality ''solid JPEG encode failed'' None })"

subsection \<open>JPEG input\<close>

text \<open>The checks and the decoding that \<open>TransformJpeg\<close> and \<open>TransformJpegToNv21\<close> share word for word.\<close>

definition INT_MAX :: int where "INT_MAX = 2 ^ 31 - 1"

definition declared_size :: "bytes \<Rightarrow> (int \<times> int) outcome option" where
  "declared_size input =
     (if INT_MAX < int (length input) then Some (Inl ''JPEG frame is too large to decode'')
      else do {
        r \<leftarrow> ReadJpegDimensions input;
        Some (case r of
          Inl e \<Rightarrow> Inl e
        | Inr (w, h) \<Rightarrow>
            if 3840 < w \<or> 2160 < h \<or> 3840 * 2160 < w * h
            then Inl ''JPEG dimensions exceed the decode safety limit''
            else Inr (int w, int h)) })"

definition decode_error :: "string option \<Rightarrow> string" where
  "decode_error reason =
     ''JPEG decode failed'' @ (case reason of None \<Rightarrow> '''' | Some r \<Rightarrow> '': '' @ r)"

definition SIZE_LIMIT :: nat where "SIZE_LIMIT = 2 ^ 63"

definition TransformJpeg ::
  "decoder \<Rightarrow> string option \<Rightarrow> encoder \<Rightarrow> bytes \<Rightarrow> TransformOptions \<Rightarrow> bytes option
     \<Rightarrow> image_call option" where
  "TransformJpeg decode reason encode input options output =
     (if output = None then refused ''missing JPEG output buffer'' output None
      else do {
        declared \<leftarrow> declared_size input;
        case declared of
          Inl e \<Rightarrow> refused e output None
        | Inr _ \<Rightarrow>
          (case decode input of
             None \<Rightarrow> refused (decode_error reason) output None
           | Some (decoded, decoded_width, decoded_height) \<Rightarrow>
             if decoded_width \<le> 0 \<or> decoded_height \<le> 0 then
               refused (decode_error reason) output None
             else if rotation options = 0 \<and> \<not> mirror options
                \<and> width options = decoded_width \<and> height options = decoded_height then
               finished input (Some (decoded_width, decoded_height))
             else let
                 dims = Some (decoded_width, decoded_height);
                 (oriented_width, oriented_height) =
                   oriented_size decoded_width decoded_height (rotation options);
                 scale = cover_scale (width options) (height options) oriented_width oriented_height;
                 output_pixels = word_of_int (width options) * word_of_int (height options) :: u64
               in if scale \<le> 0 then refused ''invalid image scale'' output dims
               else if SIZE_LIMIT \<le> unat (output_pixels * 3) then None
               else do {
                 transformed \<leftarrow> for_each [0..<nat (height options)] (\<lambda>y.
                   for_each [0..<nat (width options)] (\<lambda>x transformed. let
                       oriented_x = oriented_axis (int x) (width options) scale oriented_width;
                       oriented_y = oriented_axis (int y) (height options) scale oriented_height;
                       oriented_x = (if mirror options
                         then fsub (to_float (oriented_width - 1)) oriented_x else oriented_x);
                       source = InvertOrientation oriented_x oriented_y
                         decoded_width decoded_height (rotation options);
                       output_offset = (y * nat (width options) + x) * 3
                     in for_each [0..<3] (\<lambda>channel transformed. do {
                          v \<leftarrow> SampleChannel decoded decoded_width decoded_height
                                 (src_x source) (src_y source) (int channel);
                          poke transformed (output_offset + channel) v }) transformed))
                   (replicate (unat (output_pixels * 3)) 0);
                 encode_into encode (width options) (height options) transformed
                   (jpeg_quality options) ''JPEG encode failed'' dims }) })"

subsection \<open>JPEG to NV21\<close>

definition right_angle :: "int \<Rightarrow> bool" where
  "right_angle r \<longleftrightarrow> r = 0 \<or> r = 90 \<or> r = 180 \<or> r = 270"

text \<open>The three samples the conversion takes at an output pixel.\<close>

definition sample_rgb ::
  "bytes \<Rightarrow> int \<Rightarrow> int \<Rightarrow> TransformOptions \<Rightarrow> int \<Rightarrow> int \<Rightarrow> (int \<times> int \<times> int) option" where
  "sample_rgb decoded decoded_width decoded_height options x y = (let
       source = MapOutputToSource x y (width options) (height options)
         decoded_width decoded_height (rotation options) (mirror options)
     in do {
       red \<leftarrow> SampleChannel decoded decoded_width decoded_height (src_x source) (src_y source) 0;
       green \<leftarrow> SampleChannel decoded decoded_width decoded_height (src_x source) (src_y source) 1;
       blue \<leftarrow> SampleChannel decoded decoded_width decoded_height (src_x source) (src_y source) 2;
       Some (uint red, uint green, uint blue) })"

text \<open>\<open>>>\<close> on \<open>int\<close> is arithmetic.\<close>

fun rgb_luma :: "int \<times> int \<times> int \<Rightarrow> int" where
  "rgb_luma (r, g, b) = drop_bit 8 (66 * r + 129 * g + 25 * b + 128) + 16"

fun rgb_u :: "int \<times> int \<times> int \<Rightarrow> int" where
  "rgb_u (r, g, b) = drop_bit 8 (- 38 * r - 74 * g + 112 * b + 128) + 128"

fun rgb_v :: "int \<times> int \<times> int \<Rightarrow> int" where
  "rgb_v (r, g, b) = drop_bit 8 (112 * r - 94 * g - 18 * b + 128) + 128"

text \<open>The loops over \<open>row\<close> and \<open>column\<close> that add up a block of four pixels.\<close>

definition chroma_totals ::
  "bytes \<Rightarrow> int \<Rightarrow> int \<Rightarrow> TransformOptions \<Rightarrow> int \<Rightarrow> int \<Rightarrow> (int \<times> int) option" where
  "chroma_totals decoded decoded_width decoded_height options x y =
     for_each [0..<2] (\<lambda>row. for_each [0..<2] (\<lambda>column (u_total, v_total). do {
       rgb \<leftarrow> sample_rgb decoded decoded_width decoded_height options (x + int column) (y + int row);
       Some (u_total + rgb_u rgb, v_total + rgb_v rgb) })) (0, 0)"

definition TransformJpegToNv21 ::
  "decoder \<Rightarrow> string option \<Rightarrow> bytes \<Rightarrow> TransformOptions \<Rightarrow> bytes option \<Rightarrow> image_call option" where
  "TransformJpegToNv21 decode reason input options output =
     (if output = None \<or> width options \<le> 0 \<or> height options \<le> 0
         \<or> width options AND 1 \<noteq> 0 \<or> height options AND 1 \<noteq> 0 \<or> \<not> right_angle (rotation options) then
        refused ''invalid JPEG to NV21 transform parameters'' output None
      else do {
        declared \<leftarrow> declared_size input;
        case declared of
          Inl e \<Rightarrow> refused e output None
        | Inr (declared_width, declared_height) \<Rightarrow>
          (case decode input of
             None \<Rightarrow> refused (decode_error reason) output None
           | Some (decoded, decoded_width, decoded_height) \<Rightarrow>
             if decoded_width \<noteq> declared_width \<or> decoded_height \<noteq> declared_height then
               refused (decode_error reason) output None
             else let
                 w = nat (width options);
                 h = nat (height options);
                 output_pixels = w * h
               in do {
                 buffer \<leftarrow> for_each [0..<h] (\<lambda>y. for_each [0..<w] (\<lambda>x buffer. do {
                   rgb \<leftarrow> sample_rgb decoded decoded_width decoded_height options (int x) (int y);
                   poke buffer (y * w + x) (ClampByte (rgb_luma rgb)) }))
                   (replicate (output_pixels * 3 div 2) 0);
                 buffer \<leftarrow> for_each [0..<h div 2] (\<lambda>k. for_each [0..<w div 2] (\<lambda>l buffer. let
                     y = 2 * k; x = 2 * l in do {
                   (u_total, v_total) \<leftarrow>
                     chroma_totals decoded decoded_width decoded_height options (int x) (int y);
                   let chroma = output_pixels + y div 2 * w + x;
                   buffer \<leftarrow> poke buffer chroma (ClampByte (v_total sdiv 4));
                   poke buffer (chroma + 1) (ClampByte (u_total sdiv 4)) })) buffer;
                 finished buffer (Some (decoded_width, decoded_height)) }) })"

subsection \<open>NV21 to NV21\<close>

definition TransformNv21 ::
  "bytes \<Rightarrow> int \<Rightarrow> int \<Rightarrow> TransformOptions \<Rightarrow> bytes option \<Rightarrow> image_call option" where
  "TransformNv21 input source_width source_height options output =
     (if output = None \<or> source_width \<le> 0 \<or> source_height \<le> 0
         \<or> width options \<le> 0 \<or> height options \<le> 0
         \<or> source_width AND 1 \<noteq> 0 \<or> source_height AND 1 \<noteq> 0
         \<or> width options AND 1 \<noteq> 0 \<or> height options AND 1 \<noteq> 0 then
        refused ''NV21 dimensions must be positive and even'' output None
      else let source_pixels = nat source_width * nat source_height in
      if max_pixels < source_pixels \<or> length input \<noteq> source_pixels * 3 div 2 then
        refused ''NV21 payload size does not match its dimensions'' output None
      else if \<not> right_angle (rotation options) then
        refused ''NV21 rotation is invalid'' output None
      else if rotation options = 0 \<and> \<not> mirror options
          \<and> width options = source_width \<and> height options = source_height then
        finished input None
      else let
          w = nat (width options);
          h = nat (height options);
          output_pixels = w * h
        in do {
          buffer \<leftarrow> for_each [0..<h] (\<lambda>y. for_each [0..<w] (\<lambda>x buffer. let
              source = MapOutputToSource (int x) (int y) (width options) (height options)
                source_width source_height (rotation options) (mirror options);
              source_x = clamp (int_of_long (lround (src_x source))) 0 (source_width - 1);
              source_y = clamp (int_of_long (lround (src_y source))) 0 (source_height - 1) in do {
            v \<leftarrow> peek input (nat source_y * nat source_width + nat source_x);
            poke buffer (y * w + x) v }))
            (replicate (output_pixels * 3 div 2) 0);
          buffer \<leftarrow> for_each [0..<h div 2] (\<lambda>y. for_each [0..<w div 2] (\<lambda>x buffer. let
              source = MapOutputToSource (int x * 2) (int y * 2) (width options) (height options)
                source_width source_height (rotation options) (mirror options);
              source_x = clamp (int_of_long (lround (src_x source))) 0 (source_width - 2);
              source_y = clamp (int_of_long (lround (src_y source))) 0 (source_height - 2);
              source_x = source_x AND NOT 1;
              source_y = source_y AND NOT 1;
              source_offset = source_pixels + nat (source_y div 2) * nat source_width + nat source_x;
              output_offset = output_pixels + y * w + x * 2 in do {
            a \<leftarrow> peek input source_offset;
            buffer \<leftarrow> poke buffer output_offset a;
            b \<leftarrow> peek input (source_offset + 1);
            poke buffer (output_offset + 1) b })) buffer;
          finished buffer None })"

subsection \<open>NV21 to JPEG\<close>

definition nv21_rgb :: "byte \<Rightarrow> byte \<Rightarrow> byte \<Rightarrow> byte \<times> byte \<times> byte" where
  "nv21_rgb y_byte v_byte u_byte = (let
       v = uint v_byte - 128; u = uint u_byte - 128; c = max 0 (uint y_byte - 16)
     in (ClampByte (drop_bit 8 (298 * c + 409 * v + 128)),
         ClampByte (drop_bit 8 (298 * c - 100 * u - 208 * v + 128)),
         ClampByte (drop_bit 8 (298 * c + 516 * u + 128))))"

definition Nv21ToJpeg ::
  "encoder \<Rightarrow> bytes \<Rightarrow> int \<Rightarrow> int \<Rightarrow> int \<Rightarrow> bytes option \<Rightarrow> image_call option" where
  "Nv21ToJpeg encode input w h quality output =
     (if output = None \<or> w \<le> 0 \<or> h \<le> 0 \<or> w AND 1 \<noteq> 0 \<or> h AND 1 \<noteq> 0 \<or> quality < 1 \<or> 100 < quality then
        refused ''invalid NV21 JPEG parameters'' output None
      else let pixels = nat w * nat h in
      if max_pixels < pixels \<or> length input \<noteq> pixels * 3 div 2 then
        refused ''NV21 JPEG payload size mismatch'' output None
      else do {
        rgb \<leftarrow> for_each [0..<nat h] (\<lambda>y. for_each [0..<nat w] (\<lambda>x rgb. do {
          luma \<leftarrow> peek input (y * nat w + x);
          let chroma = pixels + y div 2 * nat w + nat (int x AND NOT 1);
          v \<leftarrow> peek input chroma;
          u \<leftarrow> peek input (chroma + 1);
          let offset = (y * nat w + x) * 3;
          let (r, g, b) = nv21_rgb luma v u;
          rgb \<leftarrow> poke rgb offset r;
          rgb \<leftarrow> poke rgb (offset + 1) g;
          poke rgb (offset + 2) b })) (replicate (pixels * 3) 0);
        encode_into encode w h rgb quality ''NV21 JPEG encode failed'' None })"

end
