(* ===== verification/Nv21_Pictures.thy ===== *)
theory Nv21_Pictures
  imports Buffers Image_Geometry
begin

section \<open>Pictures in NV21 layout\<close>

text \<open>
  What the conversions to and from NV21 share: the bytes a pixel shows, a picture given by its
  pixels, and the effect of the two passes (luma, then interleaved V and U) that write one.
\<close>

lemma and_not_one: "(x :: int) AND NOT 1 = 2 * (x div 2)"
proof (rule bit_eqI)
  fix n show "bit (x AND NOT 1) n = bit (2 * (x div 2)) n"
    by (simp only: bit_and_iff bit_not_iff bit_1_iff bit_double_iff possible_bit_def)
      (cases n, auto simp: bit_Suc)
qed

lemma and_one_iff: "(x :: int) AND 1 \<noteq> 0 \<longleftrightarrow> odd x"
  by (simp add: and_one_eq odd_iff_mod_2_eq_one)

subsection \<open>NV21 pictures\<close>

text \<open>The luma, V and U bytes that a pixel of an NV21 picture of size \<open>w * h\<close> shows.\<close>

fun nv21_pixel :: "bytes \<Rightarrow> int \<Rightarrow> int \<Rightarrow> int \<times> int \<Rightarrow> byte \<times> byte \<times> byte" where
  "nv21_pixel buf w h (x, y) =
     (let c = w * h + y div 2 * w + 2 * (x div 2)
      in (buf ! nat (y * w + x), buf ! nat c, buf ! nat (c + 1)))"

definition nv21_of ::
  "nat \<Rightarrow> nat \<Rightarrow> (nat \<Rightarrow> nat \<Rightarrow> byte) \<Rightarrow> (nat \<Rightarrow> nat \<Rightarrow> byte) \<Rightarrow> (nat \<Rightarrow> nat \<Rightarrow> byte) \<Rightarrow> bytes" where
  "nv21_of w h f v u =
     raster h w (\<lambda>y x. [f y x]) @ raster (h div 2) (w div 2) (\<lambda>y x. [v y x, u y x])"

lemma half_area: "even w \<Longrightarrow> even h \<Longrightarrow> w * h * 3 div 2 = w * h + 2 * ((w div 2) * (h div 2))"
  for w h :: nat
  by (elim evenE) simp

lemma length_nv21_of: "even w \<Longrightarrow> even h \<Longrightarrow> length (nv21_of w h f v u) = w * h * 3 div 2"
  by (simp add: nv21_of_def length_raster [where k = 1] length_raster [where k = 2] half_area)

lemma nv21_pixel_of:
  assumes "even w" "even h" "x < w" "y < h"
  shows "nv21_pixel (nv21_of w h f v u) (int w) (int h) (int x, int y) =
    (f y x, v (y div 2) (x div 2), u (y div 2) (x div 2))"
proof -
  let ?A = "raster h w (\<lambda>y x. [f y x])" and ?B = "raster (h div 2) (w div 2) (\<lambda>y x. [v y x, u y x])"
  have la: "length ?A = w * h" by (simp add: length_raster [where k = 1])
  have i: "y * w + x < w * h" using assms by (intro picture_index)
  have "nv21_of w h f v u ! (y * w + x) = f y x"
    using nth_raster [of h w "\<lambda>y x. [f y x]" 1 y x 0] i la assms by (simp add: nv21_of_def nth_append)
  moreover have "nat (int y * int w + int x) = y * w + x" by (simp flip: of_nat_mult of_nat_add)
  moreover have c: "int w * int h + int y div 2 * int w + 2 * (int x div 2) =
      int (w * h + 2 * (y div 2 * (w div 2) + x div 2))"
    using assms(1) by (auto elim!: evenE simp: zdiv_int algebra_simps)
  moreover have "nv21_of w h f v u ! (w * h + (2 * (y div 2 * (w div 2) + x div 2) + k)) =
      [v (y div 2) (x div 2), u (y div 2) (x div 2)] ! k" if "k < 2" for k
    unfolding nv21_of_def nth_append la
    using nth_raster [of "h div 2" "w div 2" "\<lambda>y x. [v y x, u y x]" 2 "y div 2" "x div 2" k] assms that
    by (auto elim!: evenE)
  from this [of 0] this [of 1] have "nv21_of w h f v u ! (w * h + 2 * (y div 2 * (w div 2) + x div 2)) = v (y div 2) (x div 2)"
    "nv21_of w h f v u ! (w * h + 2 * (y div 2 * (w div 2) + x div 2) + 1) = u (y div 2) (x div 2)"
    by simp_all
  moreover have s: "nat (int n + 1) = n + 1" for n by simp
  ultimately show ?thesis unfolding nv21_pixel.simps Let_def c nat_int s by presburger
qed

text \<open>A picture is determined by its pixels.\<close>

lemma nv21_eqI:
  assumes "even w" "even h" "length a = w * h * 3 div 2" "length b = w * h * 3 div 2"
    and px: "\<And>x y. x < w \<Longrightarrow> y < h \<Longrightarrow>
      nv21_pixel a (int w) (int h) (int x, int y) = nv21_pixel b (int w) (int h) (int x, int y)"
  shows "a = b"
proof (rule nth_equalityI)
  show "length a = length b" using assms by simp
next
  fix i assume i: "i < length a"
  have pos: "0 < w" using i assms(3) by (cases w) auto
  show "a ! i = b ! i"
  proof (cases "i < w * h")
    case True
    then have r: "i mod w < w" "i div w < h" using pos by (simp_all add: less_mult_imp_div_less mult.commute)
    have "nat (int (i div w) * int w + int (i mod w)) = i" by (simp flip: of_nat_mult of_nat_add)
    then show ?thesis using px [OF r] unfolding nv21_pixel.simps Let_def by simp
  next
    case False
    define j where "j = (i - w * h) div 2"
    have j: "i = w * h + 2 * j + (i - w * h) mod 2" using False by (simp add: j_def)
    have "j < (w div 2) * (h div 2)"
      using i half_area [OF assms(1,2)] assms(3) False unfolding j_def by linarith
    moreover then have w2: "0 < w div 2" by (cases "w div 2") auto
    ultimately have r: "j mod (w div 2) < w div 2" "j div (w div 2) < h div 2"
      by (simp_all add: less_mult_imp_div_less mult.commute)
    let ?x = "2 * (j mod (w div 2))" and ?y = "2 * (j div (w div 2))"
    have "?x < w" "?y < h" using r by linarith+
    note p = px [OF this]
    have c: "int w * int h + int ?y div 2 * int w + 2 * (int ?x div 2) = int (w * h + 2 * j)"
    proof -
      have "w * (j div (w div 2)) + 2 * (j mod (w div 2)) = 2 * (w div 2 * (j div (w div 2)) + j mod (w div 2))"
        using dvd_mult_div_cancel [OF assms(1)] by (metis distrib_left mult.assoc)
      also have "\<dots> = 2 * j" by (simp only: mult_div_mod_eq)
      finally have "int w * int (j div (w div 2)) + 2 * int (j mod (w div 2)) = 2 * int j"
        by (metis of_nat_add of_nat_mult of_nat_numeral)
      then show ?thesis by (simp add: algebra_simps)
    qed
    have s: "nat (int n + 1) = n + 1" for n by simp
    have "a ! (w * h + 2 * j) = b ! (w * h + 2 * j)" "a ! (w * h + 2 * j + 1) = b ! (w * h + 2 * j + 1)"
      using p unfolding nv21_pixel.simps Let_def c nat_int s by simp_all
    moreover have "(i - w * h) mod 2 = 0 \<or> (i - w * h) mod 2 = 1" by auto
    ultimately show ?thesis using j by (metis add.right_neutral)
  qed
qed

text \<open>Two passes that write every luma byte and every chroma pair build the picture.\<close>

lemma fill_nv21:
  assumes even: "even w" "even h"
    and luma: "\<And>y x ys. y < h \<Longrightarrow> x < w \<Longrightarrow> length ys = w * h * 3 div 2 \<Longrightarrow>
      F y x ys = Some (splice ys (y * w + x) [f y x])"
    and chroma: "\<And>y x ys. y < h div 2 \<Longrightarrow> x < w div 2 \<Longrightarrow> length ys = w * h * 3 div 2 \<Longrightarrow>
      G y x ys = Some (splice ys (w * h + (y * w + x * 2)) [v y x, u y x])"
  shows "do { b \<leftarrow> for_each [0..<h] (\<lambda>y. for_each [0..<w] (F y)) (replicate (w * h * 3 div 2) 0);
      b \<leftarrow> for_each [0..<h div 2] (\<lambda>y. for_each [0..<w div 2] (G y)) b; K b } = K (nv21_of w h f v u)"
proof -
  let ?n = "w * h * 3 div 2" and ?A = "raster h w (\<lambda>y x. [f y x])"
    and ?B = "raster (h div 2) (w div 2) (\<lambda>y x. [v y x, u y x])"
  let ?b = "splice (replicate ?n (0::byte)) 0 ?A"
  have la: "length ?A = w * h" by (simp add: length_raster [where k = 1])
  have lb: "length ?B = 2 * ((w div 2) * (h div 2))" by (simp add: length_raster [where k = 2])
  have n: "?n = w * h + 2 * ((w div 2) * (h div 2))" using even by (rule half_area)
  have 1: "for_each [0..<h] (\<lambda>y. for_each [0..<w] (F y)) (replicate ?n 0) = Some ?b"
    by (rule for_each_raster [where k = 1]) (use luma n in auto)
  have lenb: "length ?b = ?n" using la n by (simp add: length_splice)
  have off: "y * w + x * 2 = 2 * (y * (w div 2) + x)" for x y using even by (auto elim!: evenE)
  have 2: "for_each [0..<h div 2] (\<lambda>y. for_each [0..<w div 2] (G y)) ?b = Some (splice ?b (w * h) ?B)"
  proof (rule for_each_raster [where k = 2])
    fix y x and ys :: bytes
    assume "y < h div 2" "x < w div 2" "length ys = length ?b"
    then show "G y x ys = Some (splice ys (w * h + 2 * (y * (w div 2) + x)) [v y x, u y x])"
      using chroma [of y x ys] lenb unfolding off by simp
  next
    show "w * h + 2 * (w div 2 * (h div 2)) \<le> length ?b" using lenb n by simp
  qed simp
  have "splice ?b (w * h) ?B = ?A @ ?B"
    using splice_front_back [of ?A ?B "replicate ?n 0"] la lb n by simp
  then show ?thesis by (simp only: 1 2 bind.bind_lunit nv21_of_def)
qed

lemma poke_pair:
  "i + 1 < length xs \<Longrightarrow> do { xs \<leftarrow> poke xs i a; poke xs (i + 1) b } = Some (splice xs i [a, b])"
  using splice_splice [of i "[a]" xs "[b]"] by (simp add: poke_splice length_splice)

lemma poke_triple:
  "i + 2 < length xs \<Longrightarrow>
   do { xs \<leftarrow> poke xs i a; xs \<leftarrow> poke xs (i + 1) b; poke xs (i + 2) c } = Some (splice xs i [a, b, c])"
  using splice_splice [of i "[a]" xs "[b]"] splice_splice [of i "[a, b]" xs "[c]"]
  by (simp add: poke_splice length_splice)

end
