(* ===== verification/Nv21_Transform.thy ===== *)
theory Nv21_Transform
  imports Image_Transform Nv21_Pictures
begin

section \<open>Scaling and turning an NV21 picture\<close>

text \<open>
  Facts about \<open>TransformNv21\<close>: which calls it accepts, that it never reads or writes outside its
  buffers whatever the sizes, what it writes, and that turning and mirroring without scaling
  moves every pixel exactly and can be undone.
\<close>

subsection \<open>NV21 to NV21\<close>

text \<open>The arguments \<open>TransformNv21\<close> accepts.\<close>

definition nv21_arguments :: "bytes \<Rightarrow> int \<Rightarrow> int \<Rightarrow> TransformOptions \<Rightarrow> bool" where
  "nv21_arguments input sw sh options \<longleftrightarrow>
     0 < sw \<and> even sw \<and> 0 < sh \<and> even sh \<and> sw * sh \<le> 3840 * 2160
     \<and> int (length input) = sw * sh * 3 div 2
     \<and> 0 < width options \<and> even (width options) \<and> 0 < height options \<and> even (height options)
     \<and> right_angle (rotation options)"

definition copies_input :: "int \<Rightarrow> int \<Rightarrow> TransformOptions \<Rightarrow> bool" where
  "copies_input sw sh options \<longleftrightarrow>
     rotation options = 0 \<and> \<not> mirror options \<and> width options = sw \<and> height options = sh"

text \<open>The input position of the luma byte, and of the V byte, for an output position.\<close>

definition nearest :: "rat \<Rightarrow> int \<Rightarrow> int" where
  "nearest v limit = clamp (int_of_long (lround v)) 0 limit"

definition luma_index :: "int \<Rightarrow> int \<Rightarrow> TransformOptions \<Rightarrow> nat \<Rightarrow> nat \<Rightarrow> nat" where
  "luma_index sw sh options y x = (let
       source = MapOutputToSource (int x) (int y) (width options) (height options) sw sh
         (rotation options) (mirror options)
     in nat (nearest (src_y source) (sh - 1)) * nat sw + nat (nearest (src_x source) (sw - 1)))"

definition chroma_index :: "int \<Rightarrow> int \<Rightarrow> TransformOptions \<Rightarrow> nat \<Rightarrow> nat \<Rightarrow> nat" where
  "chroma_index sw sh options y x = (let
       source = MapOutputToSource (int x * 2) (int y * 2) (width options) (height options) sw sh
         (rotation options) (mirror options)
     in nat sw * nat sh + nat ((2 * (nearest (src_y source) (sh - 2) div 2)) div 2) * nat sw
          + nat (2 * (nearest (src_x source) (sw - 2) div 2)))"

lemma nearest_range: "0 \<le> n \<Longrightarrow> 0 \<le> nearest v n \<and> nearest v n \<le> n"
  by (simp add: nearest_def clamp_range)

lemma half_nearest: "0 < n \<Longrightarrow> 0 \<le> nearest v (2 * n - 2) div 2 \<and> nearest v (2 * n - 2) div 2 < n"
  using nearest_range [of "2 * n - 2" v] by auto

lemma luma_index_less:
  assumes "0 < sw" "0 < sh"
  shows "luma_index sw sh options y x < nat sw * nat sh"
  unfolding luma_index_def Let_def
  using assms nearest_range [of "sw - 1"] nearest_range [of "sh - 1"]
  by (intro picture_index) (simp_all add: nat_less_iff zle_diff1_eq)

lemma chroma_index_less:
  assumes "0 < sw" "even sw" "0 < sh" "even sh"
  shows "chroma_index sw sh options y x + 1 < nat sw * nat sh * 3 div 2"
proof -
  obtain a b where ab: "sw = 2 * a" "sh = 2 * b" using assms by (auto elim!: evenE)
  define i where "i = nearest (src_x (MapOutputToSource (int x * 2) (int y * 2) (width options)
    (height options) sw sh (rotation options) (mirror options))) (sw - 2) div 2"
  define j where "j = nearest (src_y (MapOutputToSource (int x * 2) (int y * 2) (width options)
    (height options) sw sh (rotation options) (mirror options))) (sh - 2) div 2"
  have pos: "0 < a" "0 < b" using ab assms by simp_all
  have r: "0 \<le> i" "i < a" "0 \<le> j" "j < b"
    using pos half_nearest [of a] half_nearest [of b] unfolding i_def j_def ab by blast+
  have "nat j * nat a + nat i < nat a * nat b" using r by (intro picture_index) auto
  moreover have "nat sw = 2 * nat a" "nat sh = 2 * nat b" by (simp_all add: ab nat_mult_distrib)
  moreover have "chroma_index sw sh options y x = nat sw * nat sh + nat j * nat sw + 2 * nat i"
    unfolding chroma_index_def Let_def i_def [symmetric] j_def [symmetric]
    by (simp add: nat_mult_distrib)
  ultimately show ?thesis by simp
qed

lemma even_nat: "even i \<Longrightarrow> 0 \<le> i \<Longrightarrow> even (nat i)"
  by (simp add: even_nat_iff)

lemma TransformNv21_runs:
  assumes args: "nv21_arguments input sw sh options" and other: "\<not> copies_input sw sh options"
  shows "TransformNv21 input sw sh options (Some old) =
    finished (nv21_of (nat (width options)) (nat (height options))
      (\<lambda>y x. input ! luma_index sw sh options y x)
      (\<lambda>y x. input ! chroma_index sw sh options y x)
      (\<lambda>y x. input ! (chroma_index sw sh options y x + 1))) None"
proof -
  let ?w = "nat (width options)" and ?h = "nat (height options)"
  note a = args [unfolded nv21_arguments_def]
  have px: "nat sw * nat sh \<le> max_pixels"
    using a by (simp add: max_pixels_def nat_le_iff flip: nat_mult_distrib)
  have len: "length input = nat sw * nat sh * 3 div 2"
  proof -
    have "int (nat sw * nat sh * 3 div 2) = sw * sh * 3 div 2" using a by (simp add: zdiv_int)
    then show ?thesis using a by linarith
  qed
  have ev: "even ?w" "even ?h" using a by (simp_all add: even_nat)
  have luma: "luma_index sw sh options y x < length input" for y x
    using luma_index_less [of sw sh options y x] a len by simp
  have chroma: "chroma_index sw sh options y x + 1 < length input" for y x
    using chroma_index_less [of sw sh options y x] a len by simp
  note halves = half_area [OF ev]
  have shape: "\<not> (Some old = None \<or> sw \<le> 0 \<or> sh \<le> 0 \<or> width options \<le> 0 \<or> height options \<le> 0
      \<or> odd sw \<or> odd sh \<or> odd (width options) \<or> odd (height options))"
    using a by simp
  have payload: "\<not> (max_pixels < nat sw * nat sh \<or> length input \<noteq> nat sw * nat sh * 3 div 2)"
    using px len by simp
  have angle: "right_angle (rotation options)" using a by simp
  show ?thesis
    unfolding TransformNv21_def Let_def and_one_iff and_not_one nearest_def [symmetric]
      copies_input_def [symmetric] if_not_P [OF shape] if_not_P [OF payload]
      if_not_P [OF other] not_not if_not_P [of "\<not> right_angle _", OF notnotD]
    using angle
    apply (simp only: not_True_eq_False if_False)
    apply (rule fill_nv21 [OF ev, of _ "\<lambda>y x. input ! luma_index sw sh options y x" _
          "\<lambda>y x. input ! chroma_index sw sh options y x"
          "\<lambda>y x. input ! (chroma_index sw sh options y x + 1)"])
    subgoal premises p for y x ys
    proof -
      have "y * ?w + x < length ys"
        using picture_index [OF p(2,3)] p(4) halves by linarith
      then show ?thesis
        unfolding luma_index_def [unfolded Let_def, symmetric] peek_in [OF luma] bind.bind_lunit
        by (rule poke_splice)
    qed
    subgoal premises p for y x ys
    proof -
      have "y * (?w div 2) + x < (?w div 2) * (?h div 2)" using p(2,3) by (rule picture_index)
      moreover have "y * ?w = 2 * (y * (?w div 2))" using ev(1) by (auto elim!: evenE)
      ultimately have "?w * ?h + y * ?w + x * 2 + 1 < length ys" using p(4) halves by linarith
      then show ?thesis
        unfolding chroma_index_def [unfolded Let_def, symmetric] add.assoc [symmetric]
          peek_in [OF chroma] peek_in [OF add_lessD1 [OF chroma]] bind.bind_lunit
        by (rule poke_pair)
    qed
    done
qed

lemma TransformNv21_copy:
  assumes "nv21_arguments input sw sh options" "copies_input sw sh options"
  shows "TransformNv21 input sw sh options (Some old) = finished input None"
proof -
  note a = assms(1) [unfolded nv21_arguments_def] and c = assms(2) [unfolded copies_input_def]
  have "nat sw * nat sh \<le> max_pixels"
    using a by (simp add: max_pixels_def nat_le_iff flip: nat_mult_distrib)
  moreover have "length input = nat sw * nat sh * 3 div 2"
  proof -
    have "int (nat sw * nat sh * 3 div 2) = sw * sh * 3 div 2" using a by (simp add: zdiv_int)
    then show ?thesis using a by linarith
  qed
  ultimately show ?thesis using a c by (simp add: TransformNv21_def and_one_iff right_angle_def)
qed

lemma TransformNv21_refused:
  assumes "output = None \<or> \<not> nv21_arguments input sw sh options"
  shows "\<exists>e. TransformNv21 input sw sh options output = refused e output None"
proof (cases "output = None \<or> sw \<le> 0 \<or> sh \<le> 0 \<or> width options \<le> 0 \<or> height options \<le> 0
    \<or> odd sw \<or> odd sh \<or> odd (width options) \<or> odd (height options)")
  case True
  then show ?thesis unfolding TransformNv21_def and_one_iff by simp
next
  case False
  have "int (nat sw * nat sh * 3 div 2) = sw * sh * 3 div 2" using False by (simp add: zdiv_int)
  moreover have "nat sw * nat sh \<le> max_pixels \<longleftrightarrow> sw * sh \<le> 3840 * 2160"
    using False by (simp add: max_pixels_def nat_le_iff flip: nat_mult_distrib)
  ultimately have "max_pixels < nat sw * nat sh \<or> length input \<noteq> nat sw * nat sh * 3 div 2
      \<or> \<not> right_angle (rotation options)"
    using assms False by (fastforce simp: nv21_arguments_def)
  then show ?thesis using False by (auto simp: TransformNv21_def and_one_iff Let_def)
qed

lemma TransformNv21_outcome:
  "if output \<noteq> None \<and> nv21_arguments input sw sh options
   then \<exists>out. TransformNv21 input sw sh options output = finished out None
     \<and> int (length out) = width options * height options * 3 div 2
   else \<exists>e. TransformNv21 input sw sh options output = refused e output None"
proof (cases "output \<noteq> None \<and> nv21_arguments input sw sh options")
  case True
  then obtain old where o: "output = Some old" by auto
  have ev: "even (nat (width options))" "even (nat (height options))" "0 \<le> width options * height options"
    using True by (auto simp: nv21_arguments_def even_nat)
  have "int (length (nv21_of (nat (width options)) (nat (height options)) f v u)) =
    width options * height options * 3 div 2" for f v u
    using True by (simp add: length_nv21_of ev zdiv_int nv21_arguments_def)
  moreover have "copies_input sw sh options \<Longrightarrow> int (length input) = width options * height options * 3 div 2"
    using True by (simp add: copies_input_def nv21_arguments_def)
  ultimately show ?thesis
    using True TransformNv21_copy [of input sw sh options old]
      TransformNv21_runs [of input sw sh options old]
    unfolding o by (cases "copies_input sw sh options") auto
next
  case False
  then show ?thesis using TransformNv21_refused by (auto simp del: split_paired_Ex)
qed

text \<open>Without scaling every output pixel is the input pixel that \<open>grid_source\<close> names.\<close>

lemma nearest_of_int: "0 \<le> i \<Longrightarrow> i < 2 ^ 31 \<Longrightarrow> nearest (of_int i) n = clamp i 0 n"
  by (simp add: nearest_def int_of_long_id)

lemma even_area_bound:
  assumes "0 < sw" "even sw" "0 < sh" "even sh" "sw * sh \<le> 3840 * (2160 :: int)"
  shows "sw \<le> 2 ^ 22" "sh \<le> 2 ^ 22"
proof -
  have two: "2 \<le> sw" "2 \<le> sh" using assms by (auto elim!: evenE)
  have "sw * 2 \<le> sw * sh" "2 * sh \<le> sw * sh"
    using two by (intro mult_left_mono mult_right_mono; simp)+
  then show "sw \<le> 2 ^ 22" "sh \<le> 2 ^ 22" using assms(5) by simp_all
qed

text \<open>The block of two by two pixels that shows a source position holds all four of its images.\<close>

lemma block_same:
  fixes x n :: int
  assumes "even n" "0 \<le> x" "x < n"
  shows "clamp (2 * (x div 2)) 0 (n - 2) div 2 = x div 2"
proof -
  obtain a where "n = 2 * a" using assms(1) by (elim evenE)
  moreover have "2 * (x div 2) \<le> x" "0 \<le> x div 2" using assms(2) by simp_all
  ultimately have "x div 2 < a" "0 \<le> x div 2" using assms(3) by linarith+
  with \<open>n = 2 * a\<close> have "clamp (2 * (x div 2)) 0 (n - 2) = 2 * (x div 2)"
    by (intro clamp_id) linarith+
  then show ?thesis by simp
qed

lemma block_flip:
  fixes x n :: int
  assumes "even n" "0 \<le> x" "x < n"
  shows "clamp (n - 1 - 2 * (x div 2)) 0 (n - 2) div 2 = (n - 1 - x) div 2"
proof -
  obtain a where a: "n = 2 * a" using assms(1) by (elim evenE)
  define k where "k = x div 2"
  have x: "x = 2 * k \<or> x = 2 * k + 1" unfolding k_def by presburger
  have k: "0 \<le> k" "k < a" using assms x a by auto
  have r: "(n - 1 - x) div 2 = a - 1 - k" using x a by auto
  show ?thesis
  proof (cases "k = 0")
    case True
    then show ?thesis using r a k by (simp add: clamp_def k_def [symmetric])
  next
    case False
    then have "clamp (n - 1 - 2 * k) 0 (n - 2) = n - 1 - 2 * k"
      using a k by (intro clamp_id) auto
    then show ?thesis using r a unfolding k_def [symmetric] by auto
  qed
qed

lemma grid_source_block:
  assumes "(ow, oh) = oriented_size sw sh r" "even sw" "even sh"
    and "0 \<le> x" "x < ow" "0 \<le> y" "y < oh"
    and "grid_source r m sw sh x y = (i, j)"
    and "grid_source r m sw sh (2 * (x div 2)) (2 * (y div 2)) = (i', j')"
  shows "2 * (clamp i' 0 (sw - 2) div 2) = 2 * (i div 2) \<and> 2 * (clamp j' 0 (sh - 2) div 2) = 2 * (j div 2)"
proof -
  have flips: "p - 1 - (p - 1 - q) = q" for p q :: int by simp
  consider "r = 90" | "r = 180" | "r = 270" | "r \<noteq> 90" "r \<noteq> 180" "r \<noteq> 270" by blast
  then show ?thesis
    using assms(1,4-9)
    by cases (cases m; simp add: grid_source_def oriented_size_def flips
        block_same [OF assms(2)] block_same [OF assms(3)] block_flip [OF assms(2)] block_flip [OF assms(3)],
        (clarsimp simp: block_same [OF assms(2)] block_same [OF assms(3)]
          block_flip [OF assms(2)] block_flip [OF assms(3)])?)+
qed

lemma nv21_exact:
  assumes args: "nv21_arguments input sw sh options"
    and size: "(width options, height options) = oriented_size sw sh (rotation options)"
  obtains out where
    "TransformNv21 input sw sh options (Some old) = finished out None"
    "int (length out) = width options * height options * 3 div 2"
    "\<And>x y. 0 \<le> x \<Longrightarrow> x < width options \<Longrightarrow> 0 \<le> y \<Longrightarrow> y < height options \<Longrightarrow>
      nv21_pixel out (width options) (height options) (x, y) =
      nv21_pixel input sw sh (grid_source (rotation options) (mirror options) sw sh x y)"
proof (cases "copies_input sw sh options")
  case True
  have "TransformNv21 input sw sh options (Some old) = finished input None"
    using args True by (rule TransformNv21_copy)
  then show ?thesis
    using that [of input] True args
    by (simp add: copies_input_def nv21_arguments_def grid_source_def Let_def)
next
  case False
  note a = args [unfolded nv21_arguments_def]
  let ?w = "nat (width options)" and ?h = "nat (height options)"
  let ?g = "grid_source (rotation options) (mirror options) sw sh"
  define out where "out = nv21_of ?w ?h (\<lambda>y x. input ! luma_index sw sh options y x)
    (\<lambda>y x. input ! chroma_index sw sh options y x) (\<lambda>y x. input ! (chroma_index sw sh options y x + 1))"
  have ev: "even ?w" "even ?h" using a by (simp_all add: even_nat)
  have small: "sw \<le> 2 ^ 22" "sh \<le> 2 ^ 22" using a even_area_bound [of sw sh] by simp_all
  have wh: "int ?w = width options" "int ?h = height options" using a by simp_all
  have coord: "MapOutputToSource x y (width options) (height options) sw sh (rotation options) (mirror options)
      = coordinate (of_int (fst (?g x y))) (of_int (snd (?g x y)))"
    "0 \<le> fst (?g x y)" "fst (?g x y) < sw" "0 \<le> snd (?g x y)" "snd (?g x y) < sh"
    if "0 \<le> x" "x < width options" "0 \<le> y" "y < height options" for x y
  proof -
    obtain i j where g: "?g x y = (i, j)" by fastforce
    show "MapOutputToSource x y (width options) (height options) sw sh (rotation options) (mirror options)
      = coordinate (of_int (fst (?g x y))) (of_int (snd (?g x y)))"
      using MapOutputToSource_exact [OF size _ _ _ _ that, of "mirror options"] small a
      unfolding g by simp
    show "0 \<le> fst (?g x y)" "fst (?g x y) < sw" "0 \<le> snd (?g x y)" "snd (?g x y) < sh"
      using grid_source_inside [OF size that g] unfolding g by simp_all
  qed
  show ?thesis
  proof (rule that [of out])
    show "TransformNv21 input sw sh options (Some old) = finished out None"
      unfolding out_def using args False by (rule TransformNv21_runs)
    show "int (length out) = width options * height options * 3 div 2"
      using a by (simp add: out_def length_nv21_of ev zdiv_int)
    fix x y assume r: "0 \<le> x" "x < width options" "0 \<le> y" "y < height options"
    obtain i j where g: "?g x y = (i, j)" by fastforce
    define x' where "x' = 2 * (x div 2)"
    define y' where "y' = 2 * (y div 2)"
    have r': "0 \<le> x'" "x' < width options" "0 \<le> y'" "y' < height options"
      using r by (simp_all add: x'_def y'_def)
    obtain i' j' where g': "?g x' y' = (i', j')" by fastforce
    have nx: "nearest (of_int k) n = clamp k 0 n" if "0 \<le> k" "k < sw \<or> k < sh" for k n
      using that small by (intro nearest_of_int) auto
    have luma: "luma_index sw sh options (nat y) (nat x) = nat (j * sw + i)"
      using coord [OF r] g r a nx by (simp add: luma_index_def nat_add_distrib nat_mult_distrib clamp_id)
    have half: "int (nat x div 2) * 2 = x'" "int (nat y div 2) * 2 = y'"
      using r by (simp_all add: x'_def y'_def zdiv_int)
    have chroma: "chroma_index sw sh options (nat y div 2) (nat x div 2) =
        nat (sw * sh + j div 2 * sw + 2 * (i div 2))"
      using coord [OF r'] coord [OF r] g g' a nx grid_source_block [OF size _ _ r g g' [unfolded x'_def y'_def]]
      unfolding chroma_index_def half Let_def
      by (simp add: nat_add_distrib nat_mult_distrib)
    have "nv21_pixel out (width options) (height options) (x, y) =
      (input ! luma_index sw sh options (nat y) (nat x),
       input ! chroma_index sw sh options (nat y div 2) (nat x div 2),
       input ! (chroma_index sw sh options (nat y div 2) (nat x div 2) + 1))"
      using nv21_pixel_of [OF ev, of "nat x" "nat y"] r unfolding out_def wh by simp
    also have "\<dots> = nv21_pixel input sw sh (?g x y)"
      using coord [OF r] a g unfolding luma chroma by (simp add: nat_add_distrib)
    finally show "nv21_pixel out (width options) (height options) (x, y) = nv21_pixel input sw sh (?g x y)" .
  qed
qed

subsection \<open>Properties\<close>

text \<open>The buffer of a call with any arguments is either refused, and then left alone, or it is
  a complete NV21 picture of the requested size; the accepted calls are exactly
  those with a buffer, positive even sizes, at most 3840 * 2160 source pixels, a payload of one and a
  half bytes per pixel and a right angle. No call reads or writes outside its buffers.\<close>

theorem TransformNv21_total:
  "if output \<noteq> None \<and> nv21_arguments input sw sh options
   then \<exists>out. TransformNv21 input sw sh options output = finished out None
     \<and> int (length out) = width options * height options * 3 div 2
   else \<exists>e. TransformNv21 input sw sh options output = refused e output None"
  by (rule TransformNv21_outcome)

text \<open>C24. Where the output has the size of the turned source, the pixel (luma, V and U) at every
  position of the output is the source pixel at the position that the rotation and the mirror
  name, although the position is computed in single precision.\<close>

theorem TransformNv21_moves_pixels:
  assumes "nv21_arguments input sw sh options"
    and "(width options, height options) = oriented_size sw sh (rotation options)"
  shows "\<exists>out. TransformNv21 input sw sh options (Some old) = finished out None \<and>
    (\<forall>x y. 0 \<le> x \<and> x < width options \<and> 0 \<le> y \<and> y < height options \<longrightarrow>
      nv21_pixel out (width options) (height options) (x, y) =
      nv21_pixel input sw sh (grid_source (rotation options) (mirror options) sw sh x y))"
  by (rule nv21_exact [OF assms, of old]) blast

lemma TransformNv21_moves_pixels_witness:
  "\<exists>out. TransformNv21 [1, 2, 3, 4, 5, 6, 7, 8, 9, 10, 11, 12] 4 2
      \<lparr>width = 2, height = 4, rotation = 90, mirror = True, jpeg_quality = 90\<rparr> (Some []) = finished out None \<and>
    nv21_pixel out 2 4 (0, 3) = (4, 11, 12)"
proof -
  let ?o = "\<lparr>width = 2, height = 4, rotation = 90, mirror = True, jpeg_quality = 90\<rparr>"
  have "nv21_arguments [1, 2, 3, 4, 5, 6, 7, 8, 9, 10, 11, 12] 4 2 ?o"
    by (simp add: nv21_arguments_def right_angle_def)
  from TransformNv21_moves_pixels [OF this, of "[]"] obtain out where
    "TransformNv21 [1, 2, 3, 4, 5, 6, 7, 8, 9, 10, 11, 12] 4 2 ?o (Some []) = finished out None"
    "\<And>x y. 0 \<le> x \<and> x < 2 \<and> 0 \<le> y \<and> y < 4 \<Longrightarrow> nv21_pixel out 2 4 (x, y) =
      nv21_pixel [1, 2, 3, 4, 5, 6, 7, 8, 9, 10, 11, 12] 4 2 (grid_source 90 True 4 2 x y)"
    by (auto simp: oriented_size_def simp del: nv21_pixel.simps)
  from this(1) this(2) [of 0 3] show ?thesis
    by (simp add: oriented_size_def grid_source_def Let_def eval_nat_numeral del: nv21_pixel.simps)
      (simp add: eval_nat_numeral)
qed

text \<open>The turn that brings a picture back.\<close>

definition undo :: "int \<Rightarrow> int \<Rightarrow> TransformOptions \<Rightarrow> TransformOptions" where
  "undo sw sh options = options\<lparr>width := sw, height := sh,
     rotation := if mirror options then rotation options else (360 - rotation options) mod 360\<rparr>"

lemma undo_size:
  assumes "right_angle (rotation options)"
    and "(width options, height options) = oriented_size sw sh (rotation options)"
  shows "(sw, sh) = oriented_size (width options) (height options) (rotation (undo sw sh options))"
  using assms by (auto simp: undo_def right_angle_def oriented_size_def split: if_splits)

lemma undo_grid_source:
  assumes "right_angle (rotation options)"
    and "(width options, height options) = oriented_size sw sh (rotation options)"
    and "grid_source (rotation (undo sw sh options)) (mirror options) (width options) (height options) x y = (i, j)"
  shows "grid_source (rotation options) (mirror options) sw sh i j = (x, y)"
  using assms
  by (cases "mirror options")
    (auto simp: undo_def right_angle_def oriented_size_def grid_source_def Let_def split: if_splits)

text \<open>A picture is its pixels.\<close>

lemma nv21_same:
  assumes args: "nv21_arguments input sw sh options" and size: "int (length again) = sw * sh * 3 div 2"
    and pixels: "\<And>x y. 0 \<le> x \<Longrightarrow> x < sw \<Longrightarrow> 0 \<le> y \<Longrightarrow> y < sh \<Longrightarrow> nv21_pixel again sw sh (x, y) = nv21_pixel input sw sh (x, y)"
  shows "again = input"
proof (rule nv21_eqI [of "nat sw" "nat sh"])
  note a = args [unfolded nv21_arguments_def]
  show "even (nat sw)" "even (nat sh)" using a by (simp_all add: even_nat)
  have "int (nat sw * nat sh * 3 div 2) = sw * sh * 3 div 2" using a by (simp add: zdiv_int)
  then show "length again = nat sw * nat sh * 3 div 2" "length input = nat sw * nat sh * 3 div 2"
    using size a by linarith+
  fix x y assume "x < nat sw" "y < nat sh"
  then show "nv21_pixel again (int (nat sw)) (int (nat sh)) (int x, int y) =
      nv21_pixel input (int (nat sw)) (int (nat sh)) (int x, int y)"
    using a pixels [of "int x" "int y"] by simp
qed

text \<open>C10. Turning and mirroring an NV21 picture without scaling can be undone: the call with the
  opposite turn on the result gives the original buffer, byte for byte.\<close>

theorem TransformNv21_undo:
  assumes args: "nv21_arguments input sw sh options"
    and size: "(width options, height options) = oriented_size sw sh (rotation options)"
  shows "\<exists>out. TransformNv21 input sw sh options (Some old) = finished out None \<and>
    TransformNv21 out (width options) (height options) (undo sw sh options) (Some old') =
      finished input None"
proof -
  note a = args [unfolded nv21_arguments_def]
  let ?u = "undo sw sh options"
  have u: "width ?u = sw" "height ?u = sh" "mirror ?u = mirror options" by (simp_all add: undo_def)
  obtain out where out: "TransformNv21 input sw sh options (Some old) = finished out None"
    "int (length out) = width options * height options * 3 div 2"
    "\<And>x y. 0 \<le> x \<Longrightarrow> x < width options \<Longrightarrow> 0 \<le> y \<Longrightarrow> y < height options \<Longrightarrow>
      nv21_pixel out (width options) (height options) (x, y) =
      nv21_pixel input sw sh (grid_source (rotation options) (mirror options) sw sh x y)"
    using nv21_exact [OF args size, of old] by metis
  have area: "width options * height options = sw * sh"
    using size by (auto simp: oriented_size_def split: if_splits)
  have angle: "right_angle (rotation ?u)" using a by (auto simp: undo_def right_angle_def)
  have args': "nv21_arguments out (width options) (height options) ?u"
    using a out(2) angle area by (simp add: nv21_arguments_def u)
  have size': "(width ?u, height ?u) = oriented_size (width options) (height options) (rotation ?u)"
    using undo_size [OF _ size] a by (simp add: u)
  obtain again where again: "TransformNv21 out (width options) (height options) ?u (Some old') = finished again None"
    "int (length again) = sw * sh * 3 div 2"
    "\<And>x y. 0 \<le> x \<Longrightarrow> x < sw \<Longrightarrow> 0 \<le> y \<Longrightarrow> y < sh \<Longrightarrow>
      nv21_pixel again sw sh (x, y) = nv21_pixel out (width options) (height options)
        (grid_source (rotation ?u) (mirror options) (width options) (height options) x y)"
    using nv21_exact [OF args' size', of old'] unfolding u by metis
  have "nv21_pixel again sw sh (x, y) = nv21_pixel input sw sh (x, y)"
    if r: "0 \<le> x" "x < sw" "0 \<le> y" "y < sh" for x y
  proof -
    obtain i j where g: "grid_source (rotation ?u) (mirror options) (width options) (height options) x y = (i, j)"
      by fastforce
    have "0 \<le> i \<and> i < width options \<and> 0 \<le> j \<and> j < height options"
      using grid_source_inside [OF size' [unfolded u] r g] .
    then show ?thesis using again(3) [OF r] g out(3) undo_grid_source [OF _ size g] a by simp
  qed
  then have "again = input" using args again(2) by (rule nv21_same [rotated 2])
  then show ?thesis using out(1) again(1) by blast
qed

lemma TransformNv21_undo_witness:
  "\<exists>out. TransformNv21 [1, 2, 3, 4, 5, 6, 7, 8, 9, 10, 11, 12] 4 2
      \<lparr>width = 2, height = 4, rotation = 90, mirror = False, jpeg_quality = 90\<rparr> (Some []) = finished out None \<and>
    TransformNv21 out 2 4
      \<lparr>width = 4, height = 2, rotation = 270, mirror = False, jpeg_quality = 90\<rparr> (Some [0]) =
      finished [1, 2, 3, 4, 5, 6, 7, 8, 9, 10, 11, 12] None"
proof -
  let ?o = "\<lparr>width = 2, height = 4, rotation = 90, mirror = False, jpeg_quality = 90\<rparr>"
  have "nv21_arguments [1, 2, 3, 4, 5, 6, 7, 8, 9, 10, 11, 12] 4 2 ?o"
    by (simp add: nv21_arguments_def right_angle_def)
  from TransformNv21_undo [OF this, of "[]" "[0]"] show ?thesis
    by (simp add: oriented_size_def undo_def)
qed

end
