(* ===== verification/Jpeg_Transform.thy ===== *)
theory Jpeg_Transform
  imports Image_Transform Nv21_Pictures
begin

section \<open>Conversions that decode or encode JPEG\<close>

text \<open>
  Facts about the four routines of \<open>image_transform.cpp\<close> that call the stb codec: each is total
  and never leaves its buffers, hands the encoder exactly the picture it means to, and converts
  colours between RGB and BT.601 video range without clipping on the way in and with an error of at most three
  levels on the way back.
\<close>

subsection \<open>The solid picture\<close>

lemma solid_pixels:
  "for_each [0..<n] (\<lambda>i pixels. do {
      pixels \<leftarrow> poke pixels (3 * i) red;
      pixels \<leftarrow> poke pixels (3 * i + 1) green;
      poke pixels (3 * i + 2) blue }) (replicate (n * 3) 0) =
   Some (concat (replicate n [red, green, blue]))" for red :: byte
proof -
  have "for_each [0..<n] (\<lambda>i pixels. do {
      pixels \<leftarrow> poke pixels (3 * i) red;
      pixels \<leftarrow> poke pixels (3 * i + 1) green;
      poke pixels (3 * i + 2) blue }) (replicate (n * 3) 0) =
    Some (splice (replicate (n * 3) 0) 0 (concat (map (\<lambda>i. [red, green, blue]) [0..<n])))"
  proof (rule for_each_splice [where k = 3])
    fix i and ys :: bytes
    assume "i < n" "length ys = length (replicate (n * 3) (0::byte))"
    then have "3 * i + 2 < length ys" by simp
    then show "do { pixels \<leftarrow> poke ys (3 * i) red; pixels \<leftarrow> poke pixels (3 * i + 1) green;
        poke pixels (3 * i + 2) blue } = Some (splice ys (0 + 3 * i) [red, green, blue])"
      by (simp only: add_0 poke_triple)
  qed simp_all
  also have "map (\<lambda>i. [red, green, blue]) [0..<n] = replicate n [red, green, blue]"
    by (simp add: map_replicate_const)
  finally show ?thesis by (simp add: splice_all length_concat sum_list_replicate)
qed

text \<open>\<open>CreateSolidJpeg\<close> refuses the parameters out of range and leaves the buffer alone; otherwise
  it hands the encoder a picture of exactly width times height pixels of the colour and returns
  what the encoder wrote, or an emptied buffer when the encoder fails.\<close>

theorem CreateSolidJpeg_result:
  "CreateSolidJpeg encode w h red green blue quality output =
    (if output = None \<or> w \<le> 0 \<or> h \<le> 0 \<or> quality < 1 \<or> 100 < quality then
       refused ''invalid solid JPEG parameters'' output None
     else if 3840 * 2160 < w * h then
       refused ''solid JPEG dimensions exceed the safety limit'' output None
     else case encode w h (concat (replicate (nat (w * h)) [red, green, blue])) quality of
       (chunks, True) \<Rightarrow> finished (concat chunks) None
     | (chunks, False) \<Rightarrow> refused ''solid JPEG encode failed'' (Some []) None)"
proof -
  have w: "foldl WriteToVector acc chunks = acc @ concat chunks" for acc chunks
    by (induction chunks arbitrary: acc) (simp_all add: WriteToVector_def)
  show ?thesis
  proof (cases "output = None \<or> w \<le> 0 \<or> h \<le> 0 \<or> quality < 1 \<or> 100 < quality")
    case True
    then show ?thesis by (auto simp: CreateSolidJpeg_def)
  next
    case False
    then have p: "nat w * nat h = nat (w * h)" "max_pixels < nat (w * h) \<longleftrightarrow> 3840 * 2160 < w * h"
      by (simp_all add: max_pixels_def nat_mult_distrib zless_nat_eq_int_zless del: mult_eq_0_iff
          flip: nat_mult_distrib)
    show ?thesis
      using False unfolding CreateSolidJpeg_def Let_def p solid_pixels
      by (auto simp: encode_into_def w split: prod.splits bool.splits)
  qed
qed

subsection \<open>JPEG to NV21\<close>

text \<open>
  What the code relies on from the decoder (stb_image, three components requested): a decoded
  picture has the dimensions a JPEG frame header can hold, three bytes per pixel, and is small
  enough for its own size computation in \<open>int\<close>.
\<close>

definition decoder_ok :: "decoder \<Rightarrow> bool" where
  "decoder_ok decode \<longleftrightarrow>
     (\<forall>input px w h. decode input = Some (px, w, h) \<longrightarrow>
        0 < w \<and> w < 65536 \<and> 0 < h \<and> h < 65536 \<and> 3 * w * h < 2 ^ 31
        \<and> length px = nat (3 * w * h))"

fun rgb_in_range :: "int \<times> int \<times> int \<Rightarrow> bool" where
  "rgb_in_range (r, g, b) \<longleftrightarrow> 0 \<le> r \<and> r \<le> 255 \<and> 0 \<le> g \<and> g \<le> 255 \<and> 0 \<le> b \<and> b \<le> 255"

lemma rgb_video_range:
  assumes "rgb_in_range p"
  shows "16 \<le> rgb_luma p \<and> rgb_luma p \<le> 235" "16 \<le> rgb_u p \<and> rgb_u p \<le> 240"
    "16 \<le> rgb_v p \<and> rgb_v p \<le> 240"
proof -
  obtain r g b where p: "p = (r, g, b)" by (cases p)
  have div: "lo \<le> n div 256 \<and> n div 256 \<le> hi" if "lo * 256 \<le> n" "n < hi * 256 + 256" for n lo hi :: int
    using that by linarith
  show "16 \<le> rgb_luma p \<and> rgb_luma p \<le> 235"
    using assms div [of 0 "66 * r + 129 * g + 25 * b + 128" 219] by (simp add: p drop_bit_eq_div)
  show "16 \<le> rgb_u p \<and> rgb_u p \<le> 240"
    using assms div [of "-112" "- 38 * r - 74 * g + 112 * b + 128" 112] by (simp add: p drop_bit_eq_div)
  show "16 \<le> rgb_v p \<and> rgb_v p \<le> 240"
    using assms div [of "-112" "112 * r - 94 * g - 18 * b + 128" 112] by (simp add: p drop_bit_eq_div)
qed

lemma sample_rgb_in:
  assumes "0 < w" "w \<le> 2 ^ 23" "0 < h" "h \<le> 2 ^ 23" "length px = nat (3 * w * h)" "3 * w * h < 2 ^ 31"
  shows "\<exists>p. sample_rgb px w h options x y = Some p \<and> rgb_in_range p"
proof -
  have "\<exists>v. SampleChannel px w h sx sy c = Some v" if "c = 0 \<or> c = 1 \<or> c = 2" for c sx sy
    using SampleChannel_in [OF assms, of c] that by auto
  then obtain r g b where
    "SampleChannel px w h (src_x (MapOutputToSource x y (width options) (height options) w h
       (rotation options) (mirror options))) (src_y (MapOutputToSource x y (width options)
       (height options) w h (rotation options) (mirror options))) 0 = Some r"
    "SampleChannel px w h (src_x (MapOutputToSource x y (width options) (height options) w h
       (rotation options) (mirror options))) (src_y (MapOutputToSource x y (width options)
       (height options) w h (rotation options) (mirror options))) 1 = Some g"
    "SampleChannel px w h (src_x (MapOutputToSource x y (width options) (height options) w h
       (rotation options) (mirror options))) (src_y (MapOutputToSource x y (width options)
       (height options) w h (rotation options) (mirror options))) 2 = Some b"
    by metis
  then show ?thesis
    using uint_byte [of r] uint_byte [of g] uint_byte [of b] by (simp add: sample_rgb_def Let_def)
qed

text \<open>The sum over the four pixels of a block.\<close>

definition block_sum :: "(int \<Rightarrow> int \<Rightarrow> int) \<Rightarrow> int \<Rightarrow> int \<Rightarrow> int" where
  "block_sum f x y = f x y + f (x + 1) y + f x (y + 1) + f (x + 1) (y + 1)"

lemma block_sum_quarter:
  assumes "\<And>x y. 16 \<le> f x y \<and> f x y \<le> 240"
  shows "16 \<le> block_sum f x y sdiv 4 \<and> block_sum f x y sdiv 4 \<le> 240"
proof -
  have "64 \<le> block_sum f x y \<and> block_sum f x y \<le> 960"
    unfolding block_sum_def using assms [of x y] assms [of "x + 1" y] assms [of x "y + 1"]
      assms [of "x + 1" "y + 1"] by linarith
  moreover from this have "block_sum f x y sdiv 4 = block_sum f x y div 4"
    by (simp add: signed_divide_int_def)
  ultimately show ?thesis by auto
qed

lemma chroma_totals_sum:
  assumes "\<And>x y. sample_rgb px w h options x y = Some (S x y)"
  shows "chroma_totals px w h options x y =
    Some (block_sum (\<lambda>x y. rgb_u (S x y)) x y, block_sum (\<lambda>x y. rgb_v (S x y)) x y)"
proof -
  have two: "[0..<2] = [0, Suc 0]" by (simp add: upt_rec)
  show ?thesis unfolding chroma_totals_def two by (simp add: assms block_sum_def)
qed

text \<open>The picture the conversion writes when every sample is available.\<close>

definition converted :: "TransformOptions \<Rightarrow> (int \<Rightarrow> int \<Rightarrow> int \<times> int \<times> int) \<Rightarrow> bytes" where
  "converted options S = nv21_of (nat (width options)) (nat (height options))
     (\<lambda>y x. ClampByte (rgb_luma (S (int x) (int y))))
     (\<lambda>y x. ClampByte (block_sum (\<lambda>x y. rgb_v (S x y)) (2 * int x) (2 * int y) sdiv 4))
     (\<lambda>y x. ClampByte (block_sum (\<lambda>x y. rgb_u (S x y)) (2 * int x) (2 * int y) sdiv 4))"

definition nv21_options :: "TransformOptions \<Rightarrow> bool" where
  "nv21_options options \<longleftrightarrow> 0 < width options \<and> even (width options)
     \<and> 0 < height options \<and> even (height options) \<and> right_angle (rotation options)"

lemma TransformJpegToNv21_runs:
  assumes options: "nv21_options options"
    and declared: "declared_size input = Some (Inr (dw, dh))"
    and decoded: "decode input = Some (px, dw, dh)"
    and samples: "\<And>x y. sample_rgb px dw dh options x y = Some (S x y)"
  shows "TransformJpegToNv21 decode reason input options (Some old) =
    finished (converted options S) (Some (dw, dh))"
proof -
  let ?w = "nat (width options)" and ?h = "nat (height options)"
  note o = options [unfolded nv21_options_def]
  have ev: "even ?w" "even ?h" using o by (simp_all add: even_nat_iff)
  note halves = half_area [OF ev]
  have shape: "\<not> (Some old = None \<or> width options \<le> 0 \<or> height options \<le> 0
      \<or> odd (width options) \<or> odd (height options) \<or> \<not> right_angle (rotation options))"
    using o by simp
  have same: "\<not> (dw \<noteq> dw \<or> dh \<noteq> dh)" by simp
  have double: "2 * k div 2 = k" for k :: nat by simp
  show ?thesis
    unfolding TransformJpegToNv21_def Let_def and_one_iff if_not_P [OF shape] declared decoded
      bind.bind_lunit sum.case prod.case option.case if_not_P [OF same] converted_def
      samples chroma_totals_sum [OF samples] double
    apply (rule fill_nv21 [OF ev])
    subgoal premises p for y x ys
      using picture_index [OF p(1,2)] p(3) halves by (intro poke_splice) linarith
    subgoal premises p for y x ys
    proof -
      have "y * (?w div 2) + x < (?w div 2) * (?h div 2)" using p(1,2) by (rule picture_index)
      moreover have "y * ?w = 2 * (y * (?w div 2))" using ev(1) by (auto elim!: evenE)
      ultimately have "?w * ?h + y * ?w + 2 * x + 1 < length ys" using p(3) halves by linarith
      then show ?thesis using poke_pair by (simp add: mult.commute add.assoc)
    qed
    done
qed

lemma declared_size_total:
  "\<exists>r. declared_size input = Some r \<and>
    (case r of Inl e \<Rightarrow> True | Inr (w, h) \<Rightarrow> 0 \<le> w \<and> w \<le> 3840 \<and> 0 \<le> h \<and> h \<le> 2160)"
proof -
  obtain r where "ReadJpegDimensions input = Some r" using ReadJpegDimensions_result by blast
  then show ?thesis by (auto simp: declared_size_def split: sum.split)
qed

lemma list_all_raster:
  "(\<And>y x. list_all P (g y x)) \<Longrightarrow> list_all P (raster h w g)"
  by (auto simp: raster_def list_all_iff)

definition byte_between :: "int \<Rightarrow> int \<Rightarrow> byte \<Rightarrow> bool" where
  "byte_between lo hi b \<longleftrightarrow> lo \<le> uint b \<and> uint b \<le> hi"

lemma converted_video_range:
  assumes options: "nv21_options options" and S: "\<And>x y. rgb_in_range (S x y)"
  shows "int (length (converted options S)) = width options * height options * 3 div 2"
    "list_all (byte_between 16 235) (take (nat (width options * height options)) (converted options S))"
    "list_all (byte_between 16 240) (drop (nat (width options * height options)) (converted options S))"
proof -
  let ?w = "nat (width options)" and ?h = "nat (height options)"
  note o = options [unfolded nv21_options_def]
  have ev: "even ?w" "even ?h" using o by (simp_all add: even_nat_iff)
  show "int (length (converted options S)) = width options * height options * 3 div 2"
    using o by (simp add: converted_def length_nv21_of ev zdiv_int)
  have byte: "byte_between lo hi (ClampByte v)" if "lo \<le> v \<and> v \<le> hi" "0 \<le> lo" "hi \<le> 255" for v lo hi
    using that by (simp add: byte_between_def ClampByte_id)
  have size: "nat (width options * height options) = ?w * ?h" using o by (simp add: nat_mult_distrib)
  have la: "length (raster ?h ?w (\<lambda>y x. [f y x])) = ?w * ?h" for f :: "nat \<Rightarrow> nat \<Rightarrow> byte"
    by (simp add: length_raster [where k = 1])
  show "list_all (byte_between 16 235) (take (nat (width options * height options)) (converted options S))"
    unfolding converted_def nv21_of_def size using rgb_video_range(1) [OF S]
    by (simp add: la list_all_raster byte)
  have q: "16 \<le> block_sum (\<lambda>x y. rgb_u (S x y)) x y sdiv 4 \<and> block_sum (\<lambda>x y. rgb_u (S x y)) x y sdiv 4 \<le> 240"
    "16 \<le> block_sum (\<lambda>x y. rgb_v (S x y)) x y sdiv 4 \<and> block_sum (\<lambda>x y. rgb_v (S x y)) x y sdiv 4 \<le> 240" for x y
    using rgb_video_range(2,3) [OF S] by (intro block_sum_quarter; blast)+
  show "list_all (byte_between 16 240) (drop (nat (width options * height options)) (converted options S))"
    unfolding converted_def nv21_of_def size using q
    by (simp add: la list_all_raster byte)
qed

lemma TransformJpegToNv21_refused:
  assumes "output = None \<or> \<not> nv21_options options \<or> (\<exists>e. declared_size input = Some (Inl e))
    \<or> decode input = None
    \<or> (\<exists>px w h. decode input = Some (px, w, h) \<and> declared_size input \<noteq> Some (Inr (w, h)))"
  shows "\<exists>e. TransformJpegToNv21 decode reason input options output = refused e output None"
proof (cases "output = None \<or> \<not> nv21_options options")
  case True
  then have "output = None \<or> width options \<le> 0 \<or> height options \<le> 0
      \<or> odd (width options) \<or> odd (height options) \<or> \<not> right_angle (rotation options)"
    by (auto simp: nv21_options_def)
  then show ?thesis unfolding TransformJpegToNv21_def and_one_iff by simp
next
  case False
  then have shape: "\<not> (output = None \<or> width options \<le> 0 \<or> height options \<le> 0
      \<or> odd (width options) \<or> odd (height options) \<or> \<not> right_angle (rotation options))"
    by (auto simp: nv21_options_def)
  obtain r where r: "declared_size input = Some r" using declared_size_total by blast
  show ?thesis
    unfolding TransformJpegToNv21_def and_one_iff if_not_P [OF shape] r
    using assms False r by (cases r; cases "decode input") auto
qed

lemma TransformJpegToNv21_accepted:
  assumes "decoder_ok decode" "nv21_options options"
    and declared: "declared_size input = Some (Inr (dw, dh))"
    and decoded: "decode input = Some (px, dw, dh)"
  obtains S where "\<And>x y. rgb_in_range (S x y)"
    "\<And>x y. sample_rgb px dw dh options x y = Some (S x y)"
    "TransformJpegToNv21 decode reason input options (Some old) =
       finished (converted options S) (Some (dw, dh))"
proof -
  have d: "0 < dw" "dw \<le> 2 ^ 23" "0 < dh" "dh \<le> 2 ^ 23" "length px = nat (3 * dw * dh)" "3 * dw * dh < 2 ^ 31"
    using assms(1) decoded unfolding decoder_ok_def by fastforce+
  define S where "S x y = the (sample_rgb px dw dh options x y)" for x y
  have S: "sample_rgb px dw dh options x y = Some (S x y)" "rgb_in_range (S x y)" for x y
    using sample_rgb_in [OF d, of options x y] by (auto simp: S_def)
  show ?thesis
    by (rule that [OF S(2,1)]) (rule TransformJpegToNv21_runs [where decode = decode, OF assms(2) declared decoded S(1)])
qed

lemma TransformJpegToNv21_total:
  assumes "decoder_ok decode"
  shows "\<exists>r. TransformJpegToNv21 decode reason input options output = Some r \<and>
    (case outcome_of r of
       Inl e \<Rightarrow> contents r = output
     | Inr _ \<Rightarrow> \<exists>out. contents r = Some out \<and>
         int (length out) = width options * height options * 3 div 2 \<and>
         list_all (byte_between 16 235) (take (nat (width options * height options)) out) \<and>
         list_all (byte_between 16 240) (drop (nat (width options * height options)) out))"
proof (cases "output = None \<or> \<not> nv21_options options \<or> (\<exists>e. declared_size input = Some (Inl e))
    \<or> decode input = None
    \<or> (\<exists>px w h. decode input = Some (px, w, h) \<and> declared_size input \<noteq> Some (Inr (w, h)))")
  case True
  then show ?thesis using TransformJpegToNv21_refused [where decode = decode and reason = reason, OF True] by auto
next
  case False
  then obtain old px w h where *: "output = Some old" "nv21_options options"
    "declared_size input = Some (Inr (w, h))" "decode input = Some (px, w, h)"
    by (metis not_None_eq prod_cases3)
  obtain S where "\<And>x y. rgb_in_range (S x y)"
    "TransformJpegToNv21 decode reason input options output = finished (converted options S) (Some (w, h))"
    using TransformJpegToNv21_accepted [OF assms *(2-4), of reason old] unfolding *(1) by metis
  then show ?thesis using converted_video_range [OF *(2), of S] by auto
qed

text \<open>With a decoder that keeps its contract, \<open>TransformJpegToNv21\<close> never reads or writes outside
  a buffer, whatever the input bytes and options: it refuses and leaves the output alone, or it
  writes a complete NV21 picture of the requested size whose luma bytes lie in 16..235 and whose
  chroma bytes lie in 16..240, so \<open>ClampByte\<close> never clips.\<close>

theorem TransformJpegToNv21_video_range:
  assumes "decoder_ok decode"
  shows "\<exists>r. TransformJpegToNv21 decode reason input options output = Some r \<and>
    (case outcome_of r of
       Inl e \<Rightarrow> contents r = output
     | Inr _ \<Rightarrow> \<exists>out. contents r = Some out \<and>
         int (length out) = width options * height options * 3 div 2 \<and>
         list_all (byte_between 16 235) (take (nat (width options * height options)) out) \<and>
         list_all (byte_between 16 240) (drop (nat (width options * height options)) out))"
  using assms by (rule TransformJpegToNv21_total)

lemma TransformJpegToNv21_video_range_witness:
  "\<exists>r. TransformJpegToNv21 (\<lambda>_. Some ([10, 20, 30, 40, 50, 60], 2, 1)) None [0xff, 0xd8]
      TransformOptions_default (Some []) = Some r \<and>
    (case outcome_of r of Inl e \<Rightarrow> contents r = Some [] | Inr _ \<Rightarrow> True)"
proof -
  have "decoder_ok (\<lambda>_. Some ([10, 20, 30, 40, 50, 60], 2, 1))" by (simp add: decoder_ok_def)
  from TransformJpegToNv21_video_range [OF this, of None "[0xff, 0xd8]" TransformOptions_default "Some []"]
  show ?thesis by (auto split: sum.splits)
qed

text \<open>The colour of a pixel of a decoded picture.\<close>

fun decoded_rgb :: "bytes \<Rightarrow> int \<Rightarrow> int \<times> int \<Rightarrow> int \<times> int \<times> int" where
  "decoded_rgb px w (i, j) =
     (let p = (j * w + i) * 3
      in (uint (px ! nat p), uint (px ! nat (p + 1)), uint (px ! nat (p + 2))))"

lemma sample_rgb_exact:
  assumes size: "(width options, height options) = oriented_size dw dh (rotation options)"
    and pos: "0 < dw" "dw \<le> 2 ^ 22" "0 < dh" "dh \<le> 2 ^ 22" "length px = nat (3 * dw * dh)" "3 * dw * dh < 2 ^ 31"
    and r: "0 \<le> x" "x < width options" "0 \<le> y" "y < height options"
  shows "sample_rgb px dw dh options x y =
    Some (decoded_rgb px dw (grid_source (rotation options) (mirror options) dw dh x y))"
proof -
  obtain i j where g: "grid_source (rotation options) (mirror options) dw dh x y = (i, j)" by fastforce
  have ij: "0 \<le> i" "i < dw" "0 \<le> j" "j < dh" using grid_source_inside [OF size r g] by simp_all
  have m: "MapOutputToSource x y (width options) (height options) dw dh (rotation options) (mirror options)
      = coordinate (of_int i) (of_int j)"
    using MapOutputToSource_exact [OF size pos(1-4) r, of "mirror options"] g by simp
  have s: "SampleChannel px dw dh (of_int i) (of_int j) c = Some (px ! nat ((j * dw + i) * 3 + c))"
    if "0 \<le> c" "c < 3" for c
    using pos ij that by (intro SampleChannel_grid) simp_all
  show ?thesis
    unfolding sample_rgb_def Let_def m g decoded_rgb.simps using s [of 0] s [of 1] s [of 2] by simp
qed

lemma converted_pixel:
  assumes "nv21_options options" "0 \<le> x" "x < width options" "0 \<le> y" "y < height options"
  shows "nv21_pixel (converted options S) (width options) (height options) (x, y) =
    (ClampByte (rgb_luma (S x y)),
     ClampByte (block_sum (\<lambda>x y. rgb_v (S x y)) (2 * (x div 2)) (2 * (y div 2)) sdiv 4),
     ClampByte (block_sum (\<lambda>x y. rgb_u (S x y)) (2 * (x div 2)) (2 * (y div 2)) sdiv 4))"
proof -
  note o = assms(1) [unfolded nv21_options_def]
  have ev: "even (nat (width options))" "even (nat (height options))" using o by (simp_all add: even_nat_iff)
  have "int (nat (width options)) = width options" "int (nat (height options)) = height options"
    using o by simp_all
  moreover have "int (nat x) = x" "int (nat y) = y" "2 * int (nat x div 2) = 2 * (x div 2)"
    "2 * int (nat y div 2) = 2 * (y div 2)"
    using assms by (simp_all add: zdiv_int)
  ultimately show ?thesis
    using nv21_pixel_of [OF ev, of "nat x" "nat y"] assms unfolding converted_def by simp
qed

text \<open>C25. A picture decoded to the size of the output before turning is converted pixel by pixel:
  the luma byte at a position is the luma of the decoded pixel that rotation and mirror name, and
  the V and U bytes are the averages over the four decoded pixels its block shows.\<close>

theorem TransformJpegToNv21_exact:
  assumes "decoder_ok decode" "nv21_options options"
    and "declared_size input = Some (Inr (dw, dh))" "decode input = Some (px, dw, dh)"
    and "(width options, height options) = oriented_size dw dh (rotation options)"
    and "0 \<le> x" "x < width options" "0 \<le> y" "y < height options"
  shows "\<exists>out. TransformJpegToNv21 decode reason input options (Some old) = finished out (Some (dw, dh)) \<and>
    nv21_pixel out (width options) (height options) (x, y) =
      (let rgb = (\<lambda>x y. decoded_rgb px dw (grid_source (rotation options) (mirror options) dw dh x y))
       in (ClampByte (rgb_luma (rgb x y)),
           ClampByte (block_sum (\<lambda>x y. rgb_v (rgb x y)) (2 * (x div 2)) (2 * (y div 2)) sdiv 4),
           ClampByte (block_sum (\<lambda>x y. rgb_u (rgb x y)) (2 * (x div 2)) (2 * (y div 2)) sdiv 4)))"
proof -
  let ?rgb = "\<lambda>x y. decoded_rgb px dw (grid_source (rotation options) (mirror options) dw dh x y)"
  obtain S where S: "\<And>x y. sample_rgb px dw dh options x y = Some (S x y)"
    "TransformJpegToNv21 decode reason input options (Some old) = finished (converted options S) (Some (dw, dh))"
    using TransformJpegToNv21_accepted [OF assms(1-4), of reason old] by metis
  have d: "0 < dw" "dw \<le> 2 ^ 22" "0 < dh" "dh \<le> 2 ^ 22" "length px = nat (3 * dw * dh)" "3 * dw * dh < 2 ^ 31"
    using assms(1,4) unfolding decoder_ok_def by fastforce+
  have eq: "S i j = ?rgb i j" if "0 \<le> i" "i < width options" "0 \<le> j" "j < height options" for i j
    using sample_rgb_exact [OF assms(5) d that] S(1) [of i j] by simp
  have ev: "even (width options)" "even (height options)" using assms(2) by (simp_all add: nv21_options_def)
  have half: "even n \<Longrightarrow> 0 \<le> i \<Longrightarrow> i < n \<Longrightarrow> 2 * (i div 2) + 1 < n \<and> 0 \<le> 2 * (i div 2)" for i n :: int
    by presburger
  have "2 * (x div 2) + 1 < width options \<and> 0 \<le> 2 * (x div 2)"
    "2 * (y div 2) + 1 < height options \<and> 0 \<le> 2 * (y div 2)"
    using half [OF ev(1) assms(6,7)] half [OF ev(2) assms(8,9)] by simp_all
  then have "block_sum (\<lambda>x y. f (S x y)) (2 * (x div 2)) (2 * (y div 2)) =
      block_sum (\<lambda>x y. f (?rgb x y)) (2 * (x div 2)) (2 * (y div 2))" for f
    unfolding block_sum_def using eq by simp
  then have "nv21_pixel (converted options S) (width options) (height options) (x, y) =
      (ClampByte (rgb_luma (?rgb x y)),
       ClampByte (block_sum (\<lambda>x y. rgb_v (?rgb x y)) (2 * (x div 2)) (2 * (y div 2)) sdiv 4),
       ClampByte (block_sum (\<lambda>x y. rgb_u (?rgb x y)) (2 * (x div 2)) (2 * (y div 2)) sdiv 4))"
    using converted_pixel [OF assms(2,6-9)] eq [OF assms(6-9)] by metis
  then show ?thesis using S(2) by (auto simp: Let_def)
qed

text \<open>A frame of two by two pixels.\<close>

definition tiny_jpeg :: bytes where
  "tiny_jpeg = [0xff, 0xd8] @ concat (map segment []) @ frame_header 0xc0 11 8 2 2 @ [1, 1, 0x11, 0]"

lemma declared_size_tiny: "declared_size tiny_jpeg = Some (Inr (2, 2))"
proof -
  have "ReadJpegDimensions tiny_jpeg = Some (Inr (2, 2))"
    unfolding tiny_jpeg_def by (rule ReadJpegDimensions_frame) (simp_all add: IsStartOfFrame_def)
  moreover have "length tiny_jpeg < 100" by (simp add: tiny_jpeg_def frame_header_def)
  ultimately show ?thesis by (simp add: declared_size_def INT_MAX_def)
qed

lemma TransformJpegToNv21_exact_witness:
  "\<exists>out. TransformJpegToNv21 (\<lambda>_. Some ([0, 0, 0, 255, 255, 255, 0, 0, 0, 0, 0, 0], 2, 2)) None tiny_jpeg
      \<lparr>width = 2, height = 2, rotation = 90, mirror = False, jpeg_quality = 90\<rparr> (Some []) =
      finished out (Some (2, 2)) \<and> fst (nv21_pixel out 2 2 (1, 1)) = 235"
proof -
  let ?o = "\<lparr>width = 2, height = 2, rotation = 90, mirror = False, jpeg_quality = 90\<rparr>"
  let ?d = "\<lambda>_ :: bytes. Some ([0, 0, 0, 255, 255, 255, 0, 0, 0, 0, 0, 0 :: byte], 2 :: int, 2 :: int)"
  have "decoder_ok ?d" "nv21_options ?o"
    by (simp_all add: decoder_ok_def nv21_options_def right_angle_def)
  moreover have "(width ?o, height ?o) = oriented_size 2 2 (rotation ?o)"
    by (simp add: oriented_size_def)
  ultimately obtain out where "TransformJpegToNv21 ?d None tiny_jpeg ?o (Some []) = finished out (Some (2, 2))"
    "fst (nv21_pixel out 2 2 (1, 1)) = ClampByte (rgb_luma (decoded_rgb
       [0, 0, 0, 255, 255, 255, 0, 0, 0, 0, 0, 0] 2 (grid_source 90 False 2 2 1 1)))"
    using TransformJpegToNv21_exact [of ?d ?o tiny_jpeg 2 2 _ 1 1 None "[]", OF _ _ declared_size_tiny refl]
    by (auto simp del: nv21_pixel.simps decoded_rgb.simps)
  moreover have "ClampByte (rgb_luma (decoded_rgb
       [0, 0, 0, 255, 255, 255, 0, 0, 0, 0, 0, 0] 2 (grid_source 90 False 2 2 1 1))) = 235"
    by (simp add: grid_source_def oriented_size_def Let_def drop_bit_eq_div ClampByte_def clamp_def)
  ultimately show ?thesis by metis
qed

subsection \<open>NV21 to JPEG\<close>

fun pixel_rgb :: "byte \<times> byte \<times> byte \<Rightarrow> bytes" where
  "pixel_rgb (y, v, u) = (case nv21_rgb y v u of (r, g, b) \<Rightarrow> [r, g, b])"

lemma length_pixel_rgb: "length (pixel_rgb p) = 3"
  by (cases p) (simp split: prod.split)

lemma encode_into_eq:
  "encode_into encode w h px quality message dims =
    (case encode w h px quality of
       (chunks, True) \<Rightarrow> finished (concat chunks) dims
     | (chunks, False) \<Rightarrow> refused message (Some []) dims)"
proof -
  have "foldl WriteToVector acc chunks = acc @ concat chunks" for acc chunks
    by (induction chunks arbitrary: acc) (simp_all add: WriteToVector_def)
  then show ?thesis by (simp add: encode_into_def split: prod.splits bool.splits)
qed

lemma nv21_to_rgb_loop:
  assumes "even w" "even h" "length input = w * h * 3 div 2"
  shows "for_each [0..<h] (\<lambda>y. for_each [0..<w] (\<lambda>x rgb. do {
      luma \<leftarrow> peek input (y * w + x);
      let chroma = w * h + y div 2 * w + nat (int x AND NOT 1);
      v \<leftarrow> peek input chroma;
      u \<leftarrow> peek input (chroma + 1);
      let offset = (y * w + x) * 3;
      let (r, g, b) = nv21_rgb luma v u;
      rgb \<leftarrow> poke rgb offset r;
      rgb \<leftarrow> poke rgb (offset + 1) g;
      poke rgb (offset + 2) b })) (replicate (w * h * 3) 0) =
    Some (raster h w (\<lambda>y x. pixel_rgb (nv21_pixel input w h (int x, int y))))"
    (is "for_each _ (\<lambda>y. for_each _ (?body y)) _ = Some (raster h w ?g)")
proof -
  have "for_each [0..<h] (\<lambda>y. for_each [0..<w] (?body y)) (replicate (w * h * 3) 0) =
    Some (splice (replicate (w * h * 3) 0) 0 (raster h w ?g))"
  proof (rule for_each_raster [where k = 3])
    fix y x and ys :: bytes
    assume r: "y < h" "x < w" "length ys = length (replicate (w * h * 3) (0 :: byte))"
    have i: "y * w + x < w * h" using r(1,2) by (intro picture_index)
    have "y div 2 * (w div 2) + x div 2 < (w div 2) * (h div 2)"
      using r(1,2) assms(1,2) by (intro picture_index) (auto elim!: evenE)
    moreover have "y div 2 * w = 2 * (y div 2 * (w div 2))" using assms(1) by (auto elim!: evenE)
    ultimately have c: "w * h + y div 2 * w + 2 * (x div 2) + 1 < length input"
      using half_area [OF assms(1,2)] assms(3) by linarith
    have n: "nat (int x AND NOT 1) = 2 * (x div 2)" unfolding and_not_one by (simp add: nat_mult_distrib nat_div_distrib)
    have l: "y * w + x < length input" "w * h + y div 2 * w + 2 * (x div 2) < length input"
      "(y * w + x) * 3 + 2 < length ys"
      using i c assms(3) r(3) by simp_all
    have p: "nv21_pixel input (int w) (int h) (int x, int y) =
      (input ! (y * w + x), input ! (w * h + y div 2 * w + 2 * (x div 2)),
       input ! (w * h + y div 2 * w + 2 * (x div 2) + 1))"
    proof -
      have "int w * int h + int y div 2 * int w + 2 * (int x div 2) = int (w * h + y div 2 * w + 2 * (x div 2))"
        "int y * int w + int x = int (y * w + x)" "nat (int k + 1) = k + 1" for k
        by (simp_all add: zdiv_int)
      then show ?thesis unfolding nv21_pixel.simps Let_def by (simp only: nat_int)
    qed
    show "?body y x ys = Some (splice ys (0 + 3 * (y * w + x)) (?g y x))"
      unfolding n Let_def peek_in [OF l(1)] peek_in [OF l(2)] peek_in [OF c] bind.bind_lunit p pixel_rgb.simps
      using poke_triple [OF l(3)] by (simp split: prod.split add: mult.commute)
  next
    show "0 + 3 * (w * h) \<le> length (replicate (w * h * 3) (0 :: byte))" by simp
  qed (simp add: length_pixel_rgb)
  moreover have "length (raster h w ?g) = 3 * (w * h)"
    by (rule length_raster) (simp add: length_pixel_rgb)
  ultimately show ?thesis by (simp add: splice_all)
qed

lemma Nv21ToJpeg_equation:
  "Nv21ToJpeg encode input w h quality output =
    (if output = None \<or> w \<le> 0 \<or> h \<le> 0 \<or> odd w \<or> odd h \<or> quality < 1 \<or> 100 < quality then
       refused ''invalid NV21 JPEG parameters'' output None
     else if 3840 * 2160 < w * h \<or> int (length input) \<noteq> w * h * 3 div 2 then
       refused ''NV21 JPEG payload size mismatch'' output None
     else case encode w h (raster (nat h) (nat w) (\<lambda>y x. pixel_rgb (nv21_pixel input w h (int x, int y)))) quality of
       (chunks, True) \<Rightarrow> finished (concat chunks) None
     | (chunks, False) \<Rightarrow> refused ''NV21 JPEG encode failed'' (Some []) None)"
proof (cases "output = None \<or> w \<le> 0 \<or> h \<le> 0 \<or> odd w \<or> odd h \<or> quality < 1 \<or> 100 < quality")
  case True
  then show ?thesis unfolding Nv21ToJpeg_def and_one_iff by simp
next
  case False
  have size: "(max_pixels < nat w * nat h \<or> length input \<noteq> nat w * nat h * 3 div 2) \<longleftrightarrow>
      (3840 * 2160 < w * h \<or> int (length input) \<noteq> w * h * 3 div 2)"
  proof -
    have "int (nat w * nat h) = w * h" using False by simp
    moreover have "int (nat w * nat h * 3 div 2) = w * h * 3 div 2" using False by (simp add: zdiv_int)
    ultimately show ?thesis unfolding max_pixels_def by linarith
  qed
  show ?thesis
  proof (cases "3840 * 2160 < w * h \<or> int (length input) \<noteq> w * h * 3 div 2")
    case True
    then show ?thesis using False size unfolding Nv21ToJpeg_def and_one_iff by simp
  next
    case fits: False
    have ev: "even (nat w)" "even (nat h)" using False by (simp_all add: even_nat_iff)
    have len: "length input = nat w * nat h * 3 div 2" using size fits by simp
    have wh: "int (nat w) = w" "int (nat h) = h" using False by simp_all
    have fits': "\<not> (max_pixels < nat w * nat h \<or> length input \<noteq> nat w * nat h * 3 div 2)"
      using fits size by simp
    show ?thesis
      unfolding Nv21ToJpeg_def and_one_iff Let_def if_not_P [OF False] if_not_P [OF fits] if_not_P [OF fits']
        nv21_to_rgb_loop [OF ev len, unfolded Let_def wh] bind.bind_lunit encode_into_eq
      by (rule refl)
  qed
qed

text \<open>\<open>Nv21ToJpeg\<close> refuses sizes that are not positive and even, a wrong quality, too large a
  picture and a payload of another length, all with the buffer left alone; otherwise it hands the
  encoder, without a read or store out of range, the RGB conversion of the luma, V and U bytes of every
  pixel in order, and returns what the encoder wrote.\<close>

theorem Nv21ToJpeg_result:
  "Nv21ToJpeg encode input w h quality output =
    (if output \<noteq> None \<and> 0 < w \<and> 0 < h \<and> even w \<and> even h \<and> 1 \<le> quality \<and> quality \<le> 100 then
       if w * h \<le> 3840 * 2160 \<and> int (length input) = w * h * 3 div 2 then
         (case encode w h (raster (nat h) (nat w) (\<lambda>y x. pixel_rgb (nv21_pixel input w h (int x, int y)))) quality of
            (chunks, True) \<Rightarrow> finished (concat chunks) None
          | (chunks, False) \<Rightarrow> refused ''NV21 JPEG encode failed'' (Some []) None)
       else refused ''NV21 JPEG payload size mismatch'' output None
     else refused ''invalid NV21 JPEG parameters'' output None)"
  by (simp add: Nv21ToJpeg_equation not_le not_less)

text \<open>The two conversions invert each other up to rounding.\<close>

lemma channel_bounds:
  fixes y :: int
  assumes ys:
    "256 * y \<le> 66 * r + 129 * g + 25 * b + 128"  "66 * r + 129 * g + 25 * b + 128 < 256 * y + 256"
    "256 * u \<le> - 38 * r - 74 * g + 112 * b + 128" "- 38 * r - 74 * g + 112 * b + 128 < 256 * u + 256"
    "256 * v \<le> 112 * r - 94 * g - 18 * b + 128" "112 * r - 94 * g - 18 * b + 128 < 256 * v + 256"
    and rngs: "0 \<le> r" "r \<le> 255" "0 \<le> g" "g \<le> 255" "0 \<le> b" "b \<le> 255"
  shows "256 * (r - 3) \<le> 298 * y + 409 * v + 128" "298 * y + 409 * v + 128 < 256 * (r + 4)"
    "256 * (g - 3) \<le> 298 * y - 100 * u - 208 * v + 128" "298 * y - 100 * u - 208 * v + 128 < 256 * (g + 4)"
    "256 * (b - 3) \<le> 298 * y + 516 * u + 128" "298 * y + 516 * u + 128 < 256 * (b + 4)"
proof -
  note Y = mult_left_mono [OF ys(1), of 298, simplified] mult_strict_left_mono [OF ys(2), of 298, simplified]
  note U = mult_left_mono [OF ys(3), of 516, simplified] mult_strict_left_mono [OF ys(4), of 516, simplified]
   mult_left_mono [OF ys(3), of 100, simplified] mult_strict_left_mono [OF ys(4), of 100, simplified]
  note V = mult_left_mono [OF ys(5), of 409, simplified] mult_strict_left_mono [OF ys(6), of 409, simplified]
    mult_left_mono [OF ys(5), of 208, simplified] mult_strict_left_mono [OF ys(6), of 208, simplified]
  have scale: "a \<le> c" if "256 * a \<le> 256 * c" for a c :: int using that by simp
  have scale': "a < c" if "256 * a < 256 * c" for a c :: int using that by simp
  show "256 * (r - 3) \<le> 298 * y + 409 * v + 128" by (rule scale) (use Y(2) V(2) rngs in simp)
  show "298 * y + 409 * v + 128 < 256 * (r + 4)" by (rule scale') (use Y(1) V(1) rngs in simp)
  show "256 * (g - 3) \<le> 298 * y - 100 * u - 208 * v + 128" by (rule scale) (use Y(2) V(3) U(3) rngs in simp)
  show "298 * y - 100 * u - 208 * v + 128 < 256 * (g + 4)" by (rule scale') (use Y(1) V(4) U(4) rngs in simp)
  show "256 * (b - 3) \<le> 298 * y + 516 * u + 128" by (rule scale) (use Y(2) U(2) rngs in simp)
  show "298 * y + 516 * u + 128 < 256 * (b + 4)" by (rule scale') (use Y(1) U(1) rngs in simp)
qed

definition near :: "byte \<Rightarrow> int \<Rightarrow> bool" where
  "near b v \<longleftrightarrow> v - 3 \<le> uint b \<and> uint b \<le> v + 3"

text \<open>C31. A colour survives the way from a decoded picture through NV21 and back to RGB up to an error
  of three in each channel.\<close>

theorem colour_round_trip:
  assumes "rgb_in_range (r, g, b)"
  shows "case nv21_rgb (ClampByte (rgb_luma (r, g, b))) (ClampByte (rgb_v (r, g, b))) (ClampByte (rgb_u (r, g, b)))
    of (r', g', b') \<Rightarrow> near r' r \<and> near g' g \<and> near b' b"
proof -
  define y where "y = (66 * r + 129 * g + 25 * b + 128) div 256"
  define u where "u = (- 38 * r - 74 * g + 112 * b + 128) div 256"
  define v where "v = (112 * r - 94 * g - 18 * b + 128) div 256"
  have fl: "256 * (n div 256) \<le> n" "n < 256 * (n div 256) + 256" for n :: int by simp_all
  have rngs: "0 \<le> r" "r \<le> 255" "0 \<le> g" "g \<le> 255" "0 \<le> b" "b \<le> 255" using assms by simp_all
  note ys = fl [of "66 * r + 129 * g + 25 * b + 128", folded y_def]
    fl [of "- 38 * r - 74 * g + 112 * b + 128", folded u_def]
    fl [of "112 * r - 94 * g - 18 * b + 128", folded v_def]
  have bytes: "uint (ClampByte (rgb_luma (r, g, b))) = y + 16" "uint (ClampByte (rgb_u (r, g, b))) = u + 128"
    "uint (ClampByte (rgb_v (r, g, b))) = v + 128"
    using rgb_video_range [OF assms] by (simp_all add: ClampByte_id y_def u_def v_def drop_bit_eq_div)
  have y: "0 \<le> y" using rgb_video_range(1) [OF assms] by (simp add: y_def drop_bit_eq_div)
  have clamped: "near (ClampByte q) c" if "c - 3 \<le> q \<and> q \<le> c + 3" "0 \<le> c" "c \<le> 255" for q c
  proof -
    have "uint (ClampByte q) = clamp q 0 255"
      using clamp_range [of 0 255 q] by (simp add: ClampByte_def uint_word_of_int)
    then show ?thesis using that by (auto simp: near_def clamp_def)
  qed
  have div: "lo \<le> n div 256 \<and> n div 256 \<le> hi" if "lo * 256 \<le> n" "n < hi * 256 + 256" for n lo hi :: int
    using that by linarith
  have q: "c - 3 \<le> n div 256 \<and> n div 256 \<le> c + 3" if "256 * (c - 3) \<le> n" "n < 256 * (c + 4)" for n c :: int
    using div [of "c - 3" n "c + 3"] that by simp
  note bounds = channel_bounds [OF ys rngs]
  have "near (ClampByte ((298 * y + 409 * v + 128) div 256)) r"
    using q [OF bounds(1,2)] rngs(1,2) by (rule clamped)
  moreover have "near (ClampByte ((298 * y - 100 * u - 208 * v + 128) div 256)) g"
    using q [OF bounds(3,4)] rngs(3,4) by (rule clamped)
  moreover have "near (ClampByte ((298 * y + 516 * u + 128) div 256)) b"
    using q [OF bounds(5,6)] rngs(5,6) by (rule clamped)
  ultimately show ?thesis
    unfolding nv21_rgb_def bytes Let_def using y by (simp add: drop_bit_eq_div)
qed

lemma colour_round_trip_witness:
  "case nv21_rgb (ClampByte (rgb_luma (200, 100, 50))) (ClampByte (rgb_v (200, 100, 50)))
      (ClampByte (rgb_u (200, 100, 50)))
    of (r', g', b') \<Rightarrow> near r' 200 \<and> near g' 100 \<and> near b' 50"
  by (rule colour_round_trip) simp

subsection \<open>JPEG to JPEG\<close>

definition copies_jpeg :: "int \<Rightarrow> int \<Rightarrow> TransformOptions \<Rightarrow> bool" where
  "copies_jpeg dw dh options \<longleftrightarrow>
     rotation options = 0 \<and> \<not> mirror options \<and> width options = dw \<and> height options = dh"

text \<open>Output sizes whose picture of three bytes per pixel a vector can hold.\<close>

definition holds_picture :: "TransformOptions \<Rightarrow> bool" where
  "holds_picture options \<longleftrightarrow> 0 < width options \<and> 0 < height options
     \<and> 3 * (width options * height options) < 2 ^ 63"

text \<open>The three bytes at an output position.\<close>

definition turned_pixel :: "bytes \<Rightarrow> int \<Rightarrow> int \<Rightarrow> TransformOptions \<Rightarrow> nat \<Rightarrow> nat \<Rightarrow> bytes" where
  "turned_pixel px dw dh options y x = (let
       source = MapOutputToSource (int x) (int y) (width options) (height options) dw dh
         (rotation options) (mirror options)
     in map (\<lambda>c. the (SampleChannel px dw dh (src_x source) (src_y source) (int c))) [0..<3])"

lemma TransformJpeg_runs:
  assumes dec: "decoder_ok decode" and opt: "holds_picture options"
    and declared: "declared_size input = Some (Inr d)"
    and decoded: "decode input = Some (px, dw, dh)"
    and other: "\<not> copies_jpeg dw dh options"
  shows "TransformJpeg decode reason encode input options (Some old) =
    (case oriented_size dw dh (rotation options) of (ow, oh) \<Rightarrow>
      if cover_scale (width options) (height options) ow oh \<le> 0
      then refused ''invalid image scale'' (Some old) (Some (dw, dh))
      else encode_into encode (width options) (height options)
        (raster (nat (height options)) (nat (width options)) (turned_pixel px dw dh options))
        (jpeg_quality options) ''JPEG encode failed'' (Some (dw, dh)))"
proof -
  note o = opt [unfolded holds_picture_def]
  let ?w = "nat (width options)" and ?h = "nat (height options)"
  have d: "0 < dw" "dw \<le> 2 ^ 23" "0 < dh" "dh \<le> 2 ^ 23" "length px = nat (3 * dw * dh)" "3 * dw * dh < 2 ^ 31"
    using dec decoded unfolding decoder_ok_def by fastforce+
  have n: "unat (word_of_int (width options) * word_of_int (height options) * 3 :: u64) = ?w * ?h * 3"
  proof -
    have "word_of_int (width options) * word_of_int (height options) * (3 :: u64) =
        word_of_int (width options * height options * 3)" by simp
    also have "unat (word_of_int k :: u64) = nat (k mod 2 ^ 64)" for k
      by (simp add: unsigned_of_int take_bit_eq_mod)
    also have "width options * height options * 3 mod 2 ^ 64 = width options * height options * 3"
      using o by (intro mod_pos_pos_trivial) simp_all
    finally show ?thesis using o by (simp add: nat_mult_distrib)
  qed
  have "int (?w * ?h * 3) < int SIZE_LIMIT" using o by (simp add: SIZE_LIMIT_def)
  then have small: "\<not> SIZE_LIMIT \<le> ?w * ?h * 3" by (simp only: of_nat_less_iff not_le)
  have size: "\<not> (dw \<le> 0 \<or> dh \<le> 0)" using d by simp
  obtain ow oh where oriented: "oriented_size dw dh (rotation options) = (ow, oh)" by fastforce
  let ?scale = "cover_scale (width options) (height options) ow oh"
  let ?ox = "\<lambda>x. if mirror options then fsub (to_float (ow - 1)) (oriented_axis (int x) (width options) ?scale ow)
    else oriented_axis (int x) (width options) ?scale ow"
  let ?oy = "\<lambda>y. oriented_axis (int y) (height options) ?scale oh"
  have map: "MapOutputToSource (int x) (int y) (width options) (height options) dw dh
      (rotation options) (mirror options) = InvertOrientation (?ox x) (?oy y) dw dh (rotation options)" for x y
    unfolding MapOutputToSource_def oriented Let_def prod.case by (rule refl)
  have len: "length (turned_pixel px dw dh options y x) = 3" for y x
    by (simp add: turned_pixel_def Let_def)
  have "for_each [0..<?h] (\<lambda>y. for_each [0..<?w] (\<lambda>x transformed.
      for_each [0..<3] (\<lambda>channel transformed. do {
        v \<leftarrow> SampleChannel px dw dh (src_x (InvertOrientation (?ox x) (?oy y) dw dh (rotation options)))
          (src_y (InvertOrientation (?ox x) (?oy y) dw dh (rotation options))) (int channel);
        poke transformed ((y * ?w + x) * 3 + channel) v }) transformed)) (replicate (?w * ?h * 3) 0) =
    Some (splice (replicate (?w * ?h * 3) 0) 0 (raster ?h ?w (turned_pixel px dw dh options)))"
  proof (rule for_each_raster [where k = 3])
    fix y x and ys :: bytes
    assume r: "y < ?h" "x < ?w" "length ys = length (replicate (?w * ?h * 3) (0 :: byte))"
    have i: "y * ?w + x < ?w * ?h" using r(1,2) by (intro picture_index)
    define src where "src = InvertOrientation (?ox x) (?oy y) dw dh (rotation options)"
    have v: "SampleChannel px dw dh (src_x src) (src_y src) (int c) =
        Some (the (SampleChannel px dw dh (src_x src) (src_y src) (int c)))" if "c < 3" for c
      using SampleChannel_in [OF d, of "int c"] that by fastforce
    have "for_each [0..<3] (\<lambda>channel transformed. do {
        v \<leftarrow> SampleChannel px dw dh (src_x src) (src_y src) (int channel);
        poke transformed ((y * ?w + x) * 3 + channel) v }) ys =
      Some (splice ys ((y * ?w + x) * 3)
        (concat (map (\<lambda>c. [the (SampleChannel px dw dh (src_x src) (src_y src) (int c))]) [0..<3])))"
    proof (rule for_each_splice [where k = 1])
      fix c and zs :: bytes
      assume c: "c < (3::nat)" "length zs = length ys"
      have "(y * ?w + x) * 3 + c < length zs" using c r(3) i by simp
      then show "do { v \<leftarrow> SampleChannel px dw dh (src_x src) (src_y src) (int c);
          poke zs ((y * ?w + x) * 3 + c) v } =
        Some (splice zs ((y * ?w + x) * 3 + 1 * c) [the (SampleChannel px dw dh (src_x src) (src_y src) (int c))])"
        by (subst v [OF c(1)]) (simp add: poke_splice)
    next
      show "(y * ?w + x) * 3 + 1 * 3 \<le> length ys" using i r(3) by simp
    qed simp
    then show "for_each [0..<3] (\<lambda>channel transformed. do {
        v \<leftarrow> SampleChannel px dw dh (src_x (InvertOrientation (?ox x) (?oy y) dw dh (rotation options)))
          (src_y (InvertOrientation (?ox x) (?oy y) dw dh (rotation options))) (int channel);
        poke transformed ((y * ?w + x) * 3 + channel) v }) ys =
      Some (splice ys (0 + 3 * (y * ?w + x)) (turned_pixel px dw dh options y x))"
      unfolding turned_pixel_def map Let_def src_def [symmetric] by (simp add: mult.commute)
  next
    show "0 + 3 * (?w * ?h) \<le> length (replicate (?w * ?h * 3) (0 :: byte))" by simp
  qed (rule len)
  also have "splice (replicate (?w * ?h * 3) 0) 0 (raster ?h ?w (turned_pixel px dw dh options)) =
      raster ?h ?w (turned_pixel px dw dh options)"
    by (rule splice_all) (simp add: length_raster [where k = 3] len)
  finally have loop: "for_each [0..<?h] (\<lambda>y. for_each [0..<?w] (\<lambda>x transformed.
      for_each [0..<3] (\<lambda>channel transformed. do {
        v \<leftarrow> SampleChannel px dw dh (src_x (InvertOrientation (?ox x) (?oy y) dw dh (rotation options)))
          (src_y (InvertOrientation (?ox x) (?oy y) dw dh (rotation options))) (int channel);
        poke transformed ((y * ?w + x) * 3 + channel) v }) transformed)) (replicate (?w * ?h * 3) 0) =
    Some (raster ?h ?w (turned_pixel px dw dh options))" .
  have nn: "\<not> Some old = None" by simp
  obtain dw0 dh0 where dd: "d = (dw0, dh0)" by fastforce
  show ?thesis
    unfolding TransformJpeg_def if_not_P [OF nn] declared bind.bind_lunit sum.case decoded option.case
      prod.case if_not_P [OF size] copies_jpeg_def [symmetric] if_not_P [OF other] Let_def oriented n
      if_not_P [OF small] loop ..
qed

lemma TransformJpeg_refused:
  assumes "output = None \<or> (\<exists>e. declared_size input = Some (Inl e)) \<or> decode input = None"
    and "decoder_ok decode"
  shows "\<exists>e. TransformJpeg decode reason encode input options output = refused e output None"
proof (cases "output = None")
  case True
  then show ?thesis by (simp add: TransformJpeg_def)
next
  case False
  obtain r where r: "declared_size input = Some r" using declared_size_total by blast
  show ?thesis
    unfolding TransformJpeg_def if_not_P [OF False] r
    using assms False r by (cases r; cases "decode input") auto
qed

lemma TransformJpeg_copy:
  assumes "decoder_ok decode" "declared_size input = Some (Inr d)" "decode input = Some (px, dw, dh)"
    and "copies_jpeg dw dh options"
  shows "TransformJpeg decode reason encode input options (Some old) = finished input (Some (dw, dh))"
proof -
  have "0 < dw" "0 < dh" using assms(1,3) by (auto simp: decoder_ok_def)
  then show ?thesis
    using assms by (cases d) (simp add: TransformJpeg_def copies_jpeg_def)
qed

text \<open>With a decoder that keeps its contract and an output picture that fits a vector,
  \<open>TransformJpeg\<close> returns on every input without an access out of range and without an exception:
  it refuses, or returns the input itself, or returns the bytes the encoder wrote when given
  exactly three bytes for each of the width times height pixels.\<close>

theorem TransformJpeg_safe:
  assumes "decoder_ok decode" "holds_picture options"
  shows "\<exists>r. TransformJpeg decode reason encode input options output = Some r \<and>
    (case outcome_of r of
       Inl e \<Rightarrow> contents r = output \<or> contents r = Some []
     | Inr _ \<Rightarrow> contents r = Some input \<or>
         (\<exists>px. int (length px) = 3 * (width options * height options) \<and>
            contents r = Some (concat (fst (encode (width options) (height options) px (jpeg_quality options))))))"
proof (cases "output = None \<or> (\<exists>e. declared_size input = Some (Inl e)) \<or> decode input = None")
  case True
  show ?thesis
    using TransformJpeg_refused [where decode = decode and reason = reason and encode = encode
        and options = options, OF True assms(1)] by auto
next
  case False
  obtain r where "declared_size input = Some r" using declared_size_total by blast
  then obtain old px dw dh d where *: "output = Some old" "declared_size input = Some (Inr d)"
    "decode input = Some (px, dw, dh)"
    using False by (cases r) (auto simp: not_None_eq)
  have len: "int (length (raster (nat (height options)) (nat (width options)) (turned_pixel px dw dh options))) =
      3 * (width options * height options)"
    using assms(2) by (subst length_raster [where k = 3]) (simp_all add: turned_pixel_def Let_def holds_picture_def)
  show ?thesis
  proof (cases "copies_jpeg dw dh options")
    case True
    then show ?thesis using TransformJpeg_copy [OF assms(1) *(2,3) True, of reason encode old] *(1) by simp
  next
    case False
    then show ?thesis
      using TransformJpeg_runs [OF assms *(2,3) False, of reason encode old] len unfolding *(1)
      by (fastforce simp: encode_into_eq split: prod.splits if_splits bool.splits)
  qed
qed

lemma TransformJpeg_safe_witness:
  "\<exists>r. TransformJpeg (\<lambda>_. Some ([10, 20, 30, 40, 50, 60], 2, 1)) None (\<lambda>w h px q. ([px], True))
      [0xff, 0xd8] TransformOptions_default (Some []) = Some r \<and>
    (case outcome_of r of Inl e \<Rightarrow> contents r = Some [] | Inr _ \<Rightarrow> True)"
proof -
  have "decoder_ok (\<lambda>_. Some ([10, 20, 30, 40, 50, 60], 2, 1))" "holds_picture TransformOptions_default"
    by (simp_all add: decoder_ok_def holds_picture_def TransformOptions_default_def)
  from TransformJpeg_safe [OF this, of None "\<lambda>w h px q. ([px], True)" "[0xff, 0xd8]" "Some []"]
  show ?thesis by (auto split: sum.splits)
qed

lemma turned_pixel_exact:
  assumes size: "(width options, height options) = oriented_size dw dh (rotation options)"
    and pos: "0 < dw" "dw \<le> 2 ^ 22" "0 < dh" "dh \<le> 2 ^ 22" "length px = nat (3 * dw * dh)" "3 * dw * dh < 2 ^ 31"
    and r: "int x < width options" "int y < height options"
    and g: "grid_source (rotation options) (mirror options) dw dh (int x) (int y) = (i, j)"
  shows "turned_pixel px dw dh options y x = map (\<lambda>c. px ! nat ((j * dw + i) * 3 + int c)) [0..<3]"
proof -
  have ij: "0 \<le> i" "i < dw" "0 \<le> j" "j < dh" using grid_source_inside [OF size _ _ _ _ g] r by simp_all
  have m: "MapOutputToSource (int x) (int y) (width options) (height options) dw dh (rotation options)
      (mirror options) = coordinate (of_int i) (of_int j)"
    using MapOutputToSource_exact [OF size pos(1-4) _ r(1) _ r(2), of "mirror options"] g by simp
  have "SampleChannel px dw dh (of_int i) (of_int j) (int c) = Some (px ! nat ((j * dw + i) * 3 + int c))"
    if "c < 3" for c
    using pos ij that by (intro SampleChannel_grid) simp_all
  then show ?thesis unfolding turned_pixel_def Let_def m by simp
qed

text \<open>Where the output has the size of the turned decoded picture, the encoder receives the
  decoded pixels themselves, each at the position that rotation and mirror name, and the
  result is what it wrote (or the input when nothing changes).\<close>

theorem TransformJpeg_turns:
  assumes dec: "decoder_ok decode" "declared_size input = Some (Inr d)" "decode input = Some (px, dw, dh)"
    and size: "(width options, height options) = oriented_size dw dh (rotation options)"
  shows "TransformJpeg decode reason encode input options (Some old) =
    (if rotation options = 0 \<and> \<not> mirror options then finished input (Some (dw, dh))
     else case encode (width options) (height options)
         (raster (nat (height options)) (nat (width options)) (\<lambda>y x.
            case grid_source (rotation options) (mirror options) dw dh (int x) (int y) of
              (i, j) \<Rightarrow> map (\<lambda>c. px ! nat ((j * dw + i) * 3 + int c)) [0..<3])) (jpeg_quality options) of
       (chunks, True) \<Rightarrow> finished (concat chunks) (Some (dw, dh))
     | (chunks, False) \<Rightarrow> refused ''JPEG encode failed'' (Some []) (Some (dw, dh)))"
proof -
  have d: "0 < dw" "dw \<le> 2 ^ 22" "0 < dh" "dh \<le> 2 ^ 22" "length px = nat (3 * dw * dh)" "3 * dw * dh < 2 ^ 31"
    using dec(1,3) unfolding decoder_ok_def by fastforce+
  have copy: "copies_jpeg dw dh options \<longleftrightarrow> rotation options = 0 \<and> \<not> mirror options"
    using size by (auto simp: copies_jpeg_def oriented_size_def)
  have opt: "holds_picture options"
    using size d by (auto simp: holds_picture_def oriented_size_def algebra_simps split: if_splits)
  have wh: "0 < width options" "width options \<le> 2 ^ 23" "0 < height options" "height options \<le> 2 ^ 23"
    using size d by (auto simp: oriented_size_def split: if_splits)
  have scale: "\<not> cover_scale (width options) (height options) (width options) (height options) \<le> 0"
    using cover_scale_one [OF wh] by simp
  have pixels: "raster (nat (height options)) (nat (width options)) (turned_pixel px dw dh options) =
      raster (nat (height options)) (nat (width options)) (\<lambda>y x.
            case grid_source (rotation options) (mirror options) dw dh (int x) (int y) of
              (i, j) \<Rightarrow> map (\<lambda>c. px ! nat ((j * dw + i) * 3 + int c)) [0..<3])"
    using turned_pixel_exact [OF size d]
    by (intro raster_cong) (auto split: prod.split simp: zless_nat_eq_int_zless)
  show ?thesis
  proof (cases "copies_jpeg dw dh options")
    case True
    then show ?thesis using TransformJpeg_copy [OF dec True] copy by simp
  next
    case False
    then have other: "\<not> (rotation options = 0 \<and> \<not> mirror options)" using copy by simp
    show ?thesis
      using TransformJpeg_runs [OF dec(1) opt dec(2,3) False, of reason encode old]
      unfolding size [symmetric] prod.case pixels encode_into_eq if_not_P [OF scale] if_not_P [OF other] .
  qed
qed

lemma TransformJpeg_turns_witness:
  "TransformJpeg (\<lambda>_. Some ([0, 1, 2, 3, 4, 5, 6, 7, 8, 9, 10, 11], 2, 2)) None (\<lambda>w h px q. ([px], True)) tiny_jpeg
      \<lparr>width = 2, height = 2, rotation = 90, mirror = False, jpeg_quality = 90\<rparr> (Some []) =
    finished [6, 7, 8, 0, 1, 2, 9, 10, 11, 3, 4, 5] (Some (2, 2))"
proof -
  let ?o = "\<lparr>width = 2, height = 2, rotation = 90, mirror = False, jpeg_quality = 90\<rparr>"
  let ?d = "\<lambda>_ :: bytes. Some ([0, 1, 2, 3, 4, 5, 6, 7, 8, 9, 10, 11 :: byte], 2 :: int, 2 :: int)"
  have "decoder_ok ?d" "(width ?o, height ?o) = oriented_size 2 2 (rotation ?o)"
    by (simp_all add: decoder_ok_def oriented_size_def)
  from TransformJpeg_turns [OF this(1) declared_size_tiny refl this(2), of None "\<lambda>w h px q. ([px], True)" "[]"]
  show ?thesis
    by (simp add: raster_def grid_source_def oriented_size_def Let_def upt_rec eval_nat_numeral)
qed

end
