(* ===== verification/Yuv420.thy ===== *)
theory Yuv420
  imports Nv21_Pictures
begin

section \<open>YUV_420_888 to NV21\<close>

text \<open>
  \<open>native/yuv420_converter.cpp\<close> and its JNI entry point \<open>app/src/main/cpp/yuv420_jni.cpp\<close>. The library is
  built for arm64 only, so \<open>size_t\<close> has 64 bits, and every offset is computed in words that wrap
  around. The planes are pointers into one memory, a partial map from addresses to bytes: two
  planes may share bytes, and the code compares their addresses to find out. The output is a Java
  array of its own. A read of an unmapped address or a store outside the output has no result.
\<close>

record YuvPlaneView =
  data :: u64
  limit :: u64
  position :: u64
  row_stride :: u64
  pixel_stride :: u64

type_synonym memory = "u64 \<Rightarrow> byte option"

definition SIZE_MAX :: u64 where "SIZE_MAX = - 1"

definition CheckedOffset :: "YuvPlaneView \<Rightarrow> u64 \<Rightarrow> u64 \<Rightarrow> u64 \<Rightarrow> u64 option" where
  "CheckedOffset plane x y samples =
     (if data plane = 0 \<or> row_stride plane = 0 \<or> pixel_stride plane = 0
         \<or> limit plane < position plane \<or> samples = 0 then None
      else if (SIZE_MAX - position plane) div row_stride plane < y then None
      else let row = position plane + y * row_stride plane in
      if (SIZE_MAX - row) div pixel_stride plane < x then None
      else let first = row + x * pixel_stride plane in
      if (SIZE_MAX - first) div pixel_stride plane < samples - 1 then None
      else let last = first + (samples - 1) * pixel_stride plane in
      if limit plane \<le> last then None else Some first)"

text \<open>\<open>memcpy\<close>, and a loop whose iterations may return from the function with an error.\<close>

definition memcpy :: "memory \<Rightarrow> nat \<Rightarrow> u64 \<Rightarrow> nat \<Rightarrow> bytes \<Rightarrow> bytes option" where
  "memcpy mem destination source n = for_each [0..<n] (\<lambda>i out. do {
     b \<leftarrow> mem (source + of_nat i);
     poke out (destination + i) b })"

fun until_error ::
  "'i list \<Rightarrow> ('i \<Rightarrow> bytes \<Rightarrow> (unit outcome \<times> bytes) option) \<Rightarrow> bytes \<Rightarrow> (unit outcome \<times> bytes) option" where
  "until_error [] body out = Some (Inr (), out)"
| "until_error (i # is) body out = do {
     (r, out) \<leftarrow> body i out;
     (case r of Inl e \<Rightarrow> Some (Inl e, out) | Inr _ \<Rightarrow> until_error is body out) }"

definition luma_row ::
  "memory \<Rightarrow> YuvPlaneView \<Rightarrow> u32 \<Rightarrow> u32 \<Rightarrow> u32 \<Rightarrow> nat \<Rightarrow> bytes \<Rightarrow> (unit outcome \<times> bytes) option" where
  "luma_row mem y crop_left crop_top w row_index out =
     (case CheckedOffset y (ucast crop_left) (ucast crop_top + of_nat row_index) (ucast w) of
        None \<Rightarrow> Some (Inl ''Y plane stride exceeds its buffer'', out)
      | Some source \<Rightarrow> let destination = row_index * unat w in do {
          out \<leftarrow>
            (if pixel_stride y = 1 then memcpy mem destination (data y + source) (unat w) out
             else for_each [0..<unat w] (\<lambda>column out. do {
               b \<leftarrow> mem (data y + (source + of_nat column * pixel_stride y));
               poke out (destination + column) b }) out);
          Some (Inr (), out) })"

definition chroma_row ::
  "memory \<Rightarrow> YuvPlaneView \<Rightarrow> YuvPlaneView \<Rightarrow> u32 \<Rightarrow> u32 \<Rightarrow> u32 \<Rightarrow> u64 \<Rightarrow> nat \<Rightarrow> bytes
     \<Rightarrow> (unit outcome \<times> bytes) option" where
  "chroma_row mem u v crop_left crop_top w pixels row_index out = (let
       chroma_width = ucast w div 2;
       chroma_left = ucast crop_left div 2;
       chroma_top = ucast crop_top div 2 in
     case CheckedOffset u chroma_left (chroma_top + of_nat row_index) chroma_width of
       None \<Rightarrow> Some (Inl ''UV plane stride exceeds its buffer'', out)
     | Some u_source \<Rightarrow>
       (case CheckedOffset v chroma_left (chroma_top + of_nat row_index) chroma_width of
          None \<Rightarrow> Some (Inl ''UV plane stride exceeds its buffer'', out)
        | Some v_source \<Rightarrow> let destination = unat pixels + row_index * unat w in
          if pixel_stride u = 2 \<and> pixel_stride v = 2
             \<and> data v + v_source + 1 = data u + u_source
             \<and> v_source \<le> limit v \<and> ucast w \<le> limit v - v_source
          then do {
            out \<leftarrow> memcpy mem destination (data v + v_source) (unat w) out;
            Some (Inr (), out) }
          else do {
            out \<leftarrow> for_each [0..<unat chroma_width] (\<lambda>column out. do {
              a \<leftarrow> mem (data v + (v_source + of_nat column * pixel_stride v));
              out \<leftarrow> poke out (destination + column * 2) a;
              b \<leftarrow> mem (data u + (u_source + of_nat column * pixel_stride u));
              poke out (destination + column * 2 + 1) b }) out;
            Some (Inr (), out) }))"

text \<open>The result and the bytes of the output array behind the call; \<open>None\<close> is a null output.\<close>

definition ConvertYuv420ToNv21 ::
  "memory \<Rightarrow> YuvPlaneView \<Rightarrow> YuvPlaneView \<Rightarrow> YuvPlaneView \<Rightarrow> u32 \<Rightarrow> u32 \<Rightarrow> u32 \<Rightarrow> u32
     \<Rightarrow> bytes option \<Rightarrow> u64 \<Rightarrow> (unit outcome \<times> bytes option) option" where
  "ConvertYuv420ToNv21 mem y u v crop_left crop_top w h output output_size =
     (case output of
        None \<Rightarrow> Some (Inl ''YUV crop and dimensions must be non-zero and even'', None)
      | Some out \<Rightarrow>
        if w = 0 \<or> h = 0 \<or> w AND 1 \<noteq> 0 \<or> h AND 1 \<noteq> 0
           \<or> crop_left AND 1 \<noteq> 0 \<or> crop_top AND 1 \<noteq> 0 then
          Some (Inl ''YUV crop and dimensions must be non-zero and even'', output)
        else let pixels = ucast w * ucast h :: u64 in
        if pixels div ucast w \<noteq> ucast h \<or> SIZE_MAX div 3 < pixels
           \<or> output_size \<noteq> pixels * 3 div 2 then
          Some (Inl ''NV21 output size is invalid'', output)
        else do {
          (r, out) \<leftarrow> until_error [0..<unat h] (luma_row mem y crop_left crop_top w) out;
          (case r of Inl e \<Rightarrow> Some (Inl e, Some out) | Inr _ \<Rightarrow> do {
            (r, out) \<leftarrow> until_error [0..<unat (h div 2)]
              (chroma_row mem u v crop_left crop_top w pixels) out;
            Some (r, Some out) }) })"

subsection \<open>The offset check in unbounded arithmetic\<close>

text \<open>The \<open>samples\<close> samples from column \<open>x\<close> of row \<open>y\<close> lie below the limit of the plane.\<close>

definition row_start :: "YuvPlaneView \<Rightarrow> nat \<Rightarrow> nat \<Rightarrow> nat" where
  "row_start p x y = unat (position p) + y * unat (row_stride p) + x * unat (pixel_stride p)"

definition row_fits :: "YuvPlaneView \<Rightarrow> nat \<Rightarrow> nat \<Rightarrow> nat \<Rightarrow> bool" where
  "row_fits p x y samples \<longleftrightarrow>
     data p \<noteq> 0 \<and> 0 < unat (row_stride p) \<and> 0 < unat (pixel_stride p)
     \<and> unat (position p) \<le> unat (limit p) \<and> 0 < samples
     \<and> row_start p x y + (samples - 1) * unat (pixel_stride p) < unat (limit p)"

lemma unat_less_2_64: "unat (a :: u64) < 2 ^ 64"
  using unsigned_less [of a] by simp

lemma step_check:
  fixes a s k :: u64
  assumes "s \<noteq> 0"
  shows "(SIZE_MAX - a) div s < k \<longleftrightarrow> 2 ^ 64 \<le> unat a + unat k * unat s"
    and "unat a + unat k * unat s < 2 ^ 64 \<Longrightarrow> unat (a + k * s) = unat a + unat k * unat s"
proof -
  have "unat (SIZE_MAX - a) = 2 ^ 64 - 1 - unat a"
  proof -
    have "a \<le> SIZE_MAX" by (simp add: SIZE_MAX_def)
    then show ?thesis by (simp add: unat_sub SIZE_MAX_def unsigned_minus_1_eq_mask mask_eq_exp_minus_1)
  qed
  moreover have "0 < unat s" using assms by (simp add: unat_gt_0)
  ultimately have "(SIZE_MAX - a) div s < k \<longleftrightarrow> 2 ^ 64 - 1 - unat a < unat k * unat s"
    by (simp add: word_less_nat_alt unat_div div_less_iff_less_mult)
  then show "(SIZE_MAX - a) div s < k \<longleftrightarrow> 2 ^ 64 \<le> unat a + unat k * unat s"
    using unat_less_2_64 [of a] by linarith
  assume b: "unat a + unat k * unat s < 2 ^ 64"
  then have "unat (k * s) = unat k * unat s" by (subst unat_mult_lem [symmetric]) simp
  then show "unat (a + k * s) = unat a + unat k * unat s"
    using b unat_add_lem [of a "k * s"] by simp
qed

lemma CheckedOffset_iff:
  "CheckedOffset p x y samples =
    (if row_fits p (unat x) (unat y) (unat samples)
     then Some (of_nat (row_start p (unat x) (unat y))) else None)"
proof (cases "data p = 0 \<or> row_stride p = 0 \<or> pixel_stride p = 0 \<or> limit p < position p \<or> samples = 0")
  case True
  then show ?thesis
    by (auto simp: CheckedOffset_def row_fits_def word_less_nat_alt unat_gt_0)
next
  case False
  define row where "row = position p + y * row_stride p"
  define first where "first = row + x * pixel_stride p"
  have nz: "row_stride p \<noteq> 0" "pixel_stride p \<noteq> 0" using False by simp_all
  have s1: "unat (samples - 1) = unat samples - 1"
    using False by (simp add: unat_minus_one)
  have lim: "unat (limit p) < 2 ^ 64" by (rule unat_less_2_64)
  have base: "row_fits p (unat x) (unat y) (unat samples) \<longleftrightarrow>
      row_start p (unat x) (unat y) + unat (samples - 1) * unat (pixel_stride p) < unat (limit p)"
    using False s1 by (auto simp: row_fits_def unat_gt_0 word_le_nat_alt not_less)
  show ?thesis
  proof (cases "2 ^ 64 \<le> unat (position p) + unat y * unat (row_stride p)")
    case True
    then have "\<not> row_fits p (unat x) (unat y) (unat samples)"
      using lim unfolding base row_start_def by linarith
    then show ?thesis using True False step_check(1) [OF nz(1), of "position p" y]
      by (simp add: CheckedOffset_def)
  next
    case row_ok: False
    then have row: "unat row = unat (position p) + unat y * unat (row_stride p)"
      unfolding row_def by (intro step_check(2) nz) simp
    show ?thesis
    proof (cases "2 ^ 64 \<le> unat row + unat x * unat (pixel_stride p)")
      case True
      then have "\<not> row_fits p (unat x) (unat y) (unat samples)"
        using lim row unfolding base row_start_def by linarith
      then show ?thesis
        using True row_ok False step_check(1) [OF nz(1), of "position p" y]
          step_check(1) [OF nz(2), of row x]
        by (simp add: CheckedOffset_def row_def)
    next
      case first_ok: False
      then have first: "unat first = row_start p (unat x) (unat y)"
        unfolding first_def row_start_def row [symmetric] by (intro step_check(2) nz) simp
      then have first_word: "of_nat (row_start p (unat x) (unat y)) = first"
        by (simp flip: first)
      show ?thesis
      proof (cases "2 ^ 64 \<le> unat first + unat (samples - 1) * unat (pixel_stride p)")
        case True
        then have "\<not> row_fits p (unat x) (unat y) (unat samples)"
          using lim first unfolding base by linarith
        then show ?thesis
          using True first_ok row_ok False step_check(1) [OF nz(1), of "position p" y]
            step_check(1) [OF nz(2), of row x] step_check(1) [OF nz(2), of first "samples - 1"]
          by (simp add: CheckedOffset_def row_def first_def)
      next
        case last_ok: False
        then have "unat (first + (samples - 1) * pixel_stride p) =
            unat first + unat (samples - 1) * unat (pixel_stride p)"
          by (intro step_check(2) nz) simp
        then have "limit p \<le> first + (samples - 1) * pixel_stride p \<longleftrightarrow>
            \<not> row_fits p (unat x) (unat y) (unat samples)"
          unfolding base first [symmetric] by (simp add: word_le_nat_alt not_less)
        then show ?thesis
          using last_ok first_ok row_ok False step_check(1) [OF nz(1), of "position p" y] first_word
            step_check(1) [OF nz(2), of row x] step_check(1) [OF nz(2), of first "samples - 1"]
          by (simp add: CheckedOffset_def row_def first_def Let_def)
      qed
    qed
  qed
qed

subsection \<open>Rows\<close>

text \<open>The bytes below the limit of a plane can be read (a direct buffer of that capacity).\<close>

definition readable :: "memory \<Rightarrow> YuvPlaneView \<Rightarrow> bool" where
  "readable mem p \<longleftrightarrow> (\<forall>i < unat (limit p). mem (data p + of_nat i) \<noteq> None)"

definition plane_byte :: "memory \<Rightarrow> YuvPlaneView \<Rightarrow> nat \<Rightarrow> nat \<Rightarrow> byte" where
  "plane_byte mem p x y = the (mem (data p + of_nat (row_start p x y)))"

lemma row_start_add: "row_start p (x + c) y = row_start p x y + c * unat (pixel_stride p)"
  by (simp add: row_start_def algebra_simps)

lemma row_fits_sample:
  assumes "row_fits p x y samples" "c < samples"
  shows "row_start p (x + c) y < unat (limit p)"
proof -
  have "c * unat (pixel_stride p) \<le> (samples - 1) * unat (pixel_stride p)"
    using assms(2) by (intro mult_le_mono1) simp
  moreover have "row_start p x y + (samples - 1) * unat (pixel_stride p) < unat (limit p)"
    using assms(1) by (simp add: row_fits_def)
  ultimately show ?thesis unfolding row_start_add by linarith
qed

lemma unat_u32_less: "unat (a :: u32) < 2 ^ 32"
  using unsigned_less [of a, where 'a = nat] by simp

lemma unat_u32_u64: "unat (ucast (a :: u32) :: u64) = unat a"
  using unat_u32_less [of a] by (simp add: unsigned_ucast_eq take_bit_nat_eq_self)

lemma row_fits_mono: "row_fits p x y samples \<Longrightarrow> y' \<le> y \<Longrightarrow> row_fits p x y' samples"
proof -
  assume a: "row_fits p x y samples" "y' \<le> y"
  have "y' * unat (row_stride p) \<le> y * unat (row_stride p)" using a(2) by (rule mult_le_mono1)
  then show ?thesis using a(1) unfolding row_fits_def row_start_def by linarith
qed

lemma read_sample:
  assumes "readable mem p" "row_fits p x y samples" "c < samples"
  shows "mem (data p + (of_nat (row_start p x y) + of_nat c * pixel_stride p)) =
    Some (plane_byte mem p (x + c) y)"
proof -
  have "mem (data p + of_nat (row_start p (x + c) y)) \<noteq> None"
    using assms(1) row_fits_sample [OF assms(2,3)] by (simp add: readable_def)
  moreover have "of_nat (row_start p (x + c) y) = of_nat (row_start p x y) + of_nat c * pixel_stride p"
    by (simp add: row_start_add)
  ultimately show ?thesis by (auto simp: plane_byte_def)
qed

lemma memcpy_splice:
  assumes "\<And>i. i < n \<Longrightarrow> mem (source + of_nat i) = Some (g i)" "destination + n \<le> length out"
  shows "memcpy mem destination source n out = Some (splice out destination (map g [0..<n]))"
proof -
  have "memcpy mem destination source n out =
    Some (splice out destination (concat (map (\<lambda>i. [g i]) [0..<n])))"
    unfolding memcpy_def
  proof (rule for_each_splice [where k = 1])
    fix i and ys :: bytes
    assume i: "i < n" "length ys = length out"
    then have "destination + i < length ys" using assms(2) by simp
    then show "do { b \<leftarrow> mem (source + of_nat i); poke ys (destination + i) b } =
        Some (splice ys (destination + 1 * i) [g i])"
      by (simp add: assms(1) [OF i(1)] poke_splice)
  qed (use assms(2) in simp_all)
  then show ?thesis by (simp add: concat_map_singleton)
qed

lemma crop_row:
  assumes "i < unat (h :: u32)"
  shows "unat (ucast (t :: u32) + of_nat i :: u64) = unat t + i"
proof -
  have "unat (ucast t :: u64) = unat t" by (simp add: unat_u32_u64)
  moreover have "i < 2 ^ 32" using assms unat_u32_less [of h] by simp
  moreover have "unat t < 2 ^ 32" using unat_u32_less [of t] by simp
  ultimately show ?thesis by (simp add: unat_word_ariths unat_of_nat)
qed

lemma unat_half: "unat (ucast (a :: u32) div 2 :: u64) = unat a div 2"
  by (simp add: unat_div unat_u32_u64)

lemma half_crop_row:
  assumes "i < unat (h :: u32)"
  shows "unat (ucast (t :: u32) div 2 + of_nat i :: u64) = unat t div 2 + i"
proof -
  have "i < 2 ^ 32" "unat t < 2 ^ 32" using assms unat_u32_less [of h] unat_u32_less [of t] by simp_all
  then have "unat (ucast t div 2 :: u64) + unat (of_nat i :: u64) = unat t div 2 + i"
    "unat t div 2 + i < 2 ^ 64"
    by (simp_all add: unat_half unat_of_nat)
  then show ?thesis
    using unat_add_lem [of "ucast t div 2 :: u64" "of_nat i"] by simp
qed

lemma luma_row_ok:
  assumes "readable mem p" and i: "i < unat (h :: u32)"
    and fits: "row_fits p (unat l) (unat t + i) (unat w)"
    and room: "i * unat w + unat w \<le> length out"
  shows "luma_row mem p l t w i out = Some (Inr (), splice out (i * unat w)
    (map (\<lambda>c. plane_byte mem p (unat l + c) (unat t + i)) [0..<unat w]))"
proof -
  let ?g = "\<lambda>c. plane_byte mem p (unat l + c) (unat t + i)"
  have u: "unat (ucast l :: u64) = unat l" "unat (ucast w :: u64) = unat w"
    by (simp_all add: unat_u32_u64)
  have off: "CheckedOffset p (ucast l) (ucast t + of_nat i) (ucast w) =
      Some (of_nat (row_start p (unat l) (unat t + i)))"
    using fits by (simp add: CheckedOffset_iff u crop_row [OF i])
  note read = read_sample [OF assms(1) fits]
  show ?thesis
  proof (cases "pixel_stride p = 1")
    case True
    have "memcpy mem (i * unat w) (data p + of_nat (row_start p (unat l) (unat t + i))) (unat w) out =
        Some (splice out (i * unat w) (map ?g [0..<unat w]))"
      using read room True by (intro memcpy_splice) (simp_all add: add.assoc)
    then show ?thesis using off True by (simp add: luma_row_def Let_def)
  next
    case False
    have "for_each [0..<unat w] (\<lambda>column out. do {
        b \<leftarrow> mem (data p + (of_nat (row_start p (unat l) (unat t + i)) + of_nat column * pixel_stride p));
        poke out (i * unat w + column) b }) out =
      Some (splice out (i * unat w) (concat (map (\<lambda>c. [?g c]) [0..<unat w])))"
    proof (rule for_each_splice [where k = 1])
      fix c and ys :: bytes
      assume c: "c < unat w" "length ys = length out"
      then have "i * unat w + c < length ys" using room by simp
      then show "do { b \<leftarrow> mem (data p + (of_nat (row_start p (unat l) (unat t + i)) + of_nat c * pixel_stride p));
          poke ys (i * unat w + c) b } = Some (splice ys (i * unat w + 1 * c) [?g c])"
        by (simp add: read [OF c(1)] poke_splice)
    qed (use room in simp_all)
    then show ?thesis using off False by (simp add: luma_row_def Let_def concat_map_singleton)
  qed
qed

lemma luma_row_fails:
  assumes i: "i < unat (h :: u32)" and "\<not> row_fits p (unat l) (unat t + i) (unat w)"
  shows "luma_row mem p l t w i out = Some (Inl ''Y plane stride exceeds its buffer'', out)"
proof -
  have "unat (ucast l :: u64) = unat l" "unat (ucast w :: u64) = unat w"
    by (simp_all add: unat_u32_u64)
  then show ?thesis using assms(2) by (simp add: luma_row_def CheckedOffset_iff crop_row [OF i])
qed

lemma map_pairs: "map g [0..<2 * m] = concat (map (\<lambda>c. [g (2 * c), g (2 * c + 1)]) [0..<m])"
  by (induction m) simp_all

text \<open>One row of interleaved V and U, on the fast and on the slow path.\<close>

lemma chroma_row_ok:
  fixes l t w h :: u32
  assumes mem: "readable mem u" "readable mem v" and i: "i < unat (h div 2)" and even: "even (unat w)"
    and fits: "row_fits u (unat l div 2) (unat t div 2 + i) (unat w div 2)"
      "row_fits v (unat l div 2) (unat t div 2 + i) (unat w div 2)"
    and room: "unat n + i * unat w + unat w \<le> length out"
  shows "chroma_row mem u v l t w n i out = Some (Inr (), splice out (unat n + i * unat w)
    (concat (map (\<lambda>c. [plane_byte mem v (unat l div 2 + c) (unat t div 2 + i),
                       plane_byte mem u (unat l div 2 + c) (unat t div 2 + i)]) [0..<unat w div 2])))"
proof -
  let ?x = "unat l div 2" and ?y = "unat t div 2 + i" and ?m = "unat w div 2"
  let ?U = "\<lambda>c. plane_byte mem u (?x + c) ?y" and ?V = "\<lambda>c. plane_byte mem v (?x + c) ?y"
  let ?us = "of_nat (row_start u ?x ?y) :: u64" and ?vs = "of_nat (row_start v ?x ?y) :: u64"
  note half = unat_half
  have y: "unat (ucast t div 2 + of_nat i :: u64) = ?y"
    using i by (rule half_crop_row)
  have off: "CheckedOffset p (ucast l div 2) (ucast t div 2 + of_nat i) (ucast w div 2) =
      Some (of_nat (row_start p ?x ?y))" if "row_fits p ?x ?y ?m" for p
    using that by (simp add: CheckedOffset_iff half y)
  note ru = read_sample [OF mem(1) fits(1)] and rv = read_sample [OF mem(2) fits(2)]
  have two: "2 * ?m = unat w" using even by simp
  let ?dest = "unat n + i * unat w"
  let ?res = "splice out ?dest (concat (map (\<lambda>c. [?V c, ?U c]) [0..<?m]))"
  show ?thesis
  proof (cases "pixel_stride u = 2 \<and> pixel_stride v = 2 \<and> data v + ?vs + 1 = data u + ?us
      \<and> ?vs \<le> limit v \<and> ucast w \<le> limit v - ?vs")
    case True
    let ?g = "\<lambda>j. if even j then ?V (j div 2) else ?U (j div 2)"
    have "mem (data v + ?vs + of_nat j) = Some (?g j)" if "j < unat w" for j
    proof -
      have c: "j div 2 < ?m" using that two by linarith
      show ?thesis
      proof (cases "even j")
        case j: True
        then have "of_nat j = (of_nat (j div 2) * 2 :: u64)"
          by (metis dvd_div_mult_self of_nat_mult of_nat_numeral)
        then show ?thesis using rv [OF c] j True by (simp add: add.assoc)
      next
        case j: False
        then have "of_nat j = (1 + of_nat (j div 2) * 2 :: u64)"
          by (metis add.commute div_mult_mod_eq odd_iff_mod_2_eq_one of_nat_1 of_nat_add of_nat_mult of_nat_numeral)
        then have "data v + ?vs + of_nat j = (data v + ?vs + 1) + of_nat (j div 2) * 2" by (simp add: add.assoc)
        also have "data v + ?vs + 1 = data u + ?us" using True by blast
        also have "data u + ?us + of_nat (j div 2) * 2 = data u + (?us + of_nat (j div 2) * pixel_stride u)"
          using True by (simp only: add.assoc)
        finally have eq: "data v + ?vs + of_nat j = data u + (?us + of_nat (j div 2) * pixel_stride u)" .
        show ?thesis unfolding eq ru [OF c] using j by simp
      qed
    qed
    then have "memcpy mem ?dest (data v + ?vs) (unat w) out = Some (splice out ?dest (map ?g [0..<unat w]))"
      using room by (intro memcpy_splice) simp_all
    also have "map ?g [0..<unat w] = concat (map (\<lambda>c. [?V c, ?U c]) [0..<?m])"
      using map_pairs [of ?g ?m] unfolding two by simp
    finally show ?thesis
      using True by (simp add: chroma_row_def Let_def off [OF fits(1)] off [OF fits(2)])
  next
    case False
    have loop: "for_each [0..<?m] (\<lambda>column out. do {
        a \<leftarrow> mem (data v + (?vs + of_nat column * pixel_stride v));
        out \<leftarrow> poke out (?dest + column * 2) a;
        b \<leftarrow> mem (data u + (?us + of_nat column * pixel_stride u));
        poke out (?dest + column * 2 + 1) b }) out = Some ?res"
    proof (rule for_each_splice [where k = 2])
      fix c and ys :: bytes
      assume c: "c < ?m" "length ys = length out"
      have "?dest + c * 2 + 1 < length ys" using c room two by linarith
      then show "do { a \<leftarrow> mem (data v + (?vs + of_nat c * pixel_stride v));
          out \<leftarrow> poke ys (?dest + c * 2) a;
          b \<leftarrow> mem (data u + (?us + of_nat c * pixel_stride u));
          poke out (?dest + c * 2 + 1) b } = Some (splice ys (?dest + 2 * c) [?V c, ?U c])"
        unfolding ru [OF c(1)] rv [OF c(1)] bind.bind_lunit
        by (simp only: mult.commute [of 2 c] poke_pair)
    qed (use room two in simp_all)
    show ?thesis
      unfolding chroma_row_def Let_def off [OF fits(1)] off [OF fits(2)] option.case if_not_P [OF False] half loop
      by simp
  qed
qed

lemma chroma_row_fails:
  fixes l t w h :: u32
  assumes i: "i < unat (h div 2)"
    and "\<not> (row_fits u (unat l div 2) (unat t div 2 + i) (unat w div 2)
      \<and> row_fits v (unat l div 2) (unat t div 2 + i) (unat w div 2))"
  shows "chroma_row mem u v l t w n i out = Some (Inl ''UV plane stride exceeds its buffer'', out)"
proof -
  note half = unat_half
  have "unat (ucast t div 2 + of_nat i :: u64) = unat t div 2 + i"
    using i by (rule half_crop_row)
  then show ?thesis using assms(2) by (auto simp: chroma_row_def CheckedOffset_iff half Let_def)
qed

subsection \<open>The whole conversion\<close>

lemma until_error_for_each:
  assumes "\<And>i ys. i \<in> set is \<Longrightarrow> length ys = n \<Longrightarrow> body i ys = Some (Inr (), g i ys) \<and> length (g i ys) = n"
    and "length out = n"
  shows "until_error is body out = map_option (Pair (Inr ())) (for_each is (\<lambda>i ys. Some (g i ys)) out)"
  using assms
proof (induction "is" arbitrary: out)
  case Nil
  then show ?case by simp
next
  case (Cons i "is")
  have "body i out = Some (Inr (), g i out)" "length (g i out) = n" using Cons.prems by simp_all
  then show ?case using Cons by simp
qed

lemma until_error_fails:
  assumes "\<And>i ys. i \<in> set is \<Longrightarrow> length ys = n \<Longrightarrow>
      if G i then \<exists>zs. body i ys = Some (Inr (), zs) \<and> length zs = n
      else body i ys = Some (Inl e, ys)"
    and "length out = n" "\<exists>i \<in> set is. \<not> G i"
  shows "\<exists>zs. until_error is body out = Some (Inl e, zs) \<and> length zs = n"
  using assms
proof (induction "is" arbitrary: out)
  case Nil
  then show ?case by simp
next
  case (Cons i "is")
  show ?case
  proof (cases "G i")
    case True
    then obtain zs where "body i out = Some (Inr (), zs)" "length zs = n"
      using Cons.prems(1) [of i out] Cons.prems(2) by auto
    then show ?thesis using Cons True by simp
  next
    case False
    then have "body i out = Some (Inl e, out)" using Cons.prems(1) [of i out] Cons.prems(2) by simp
    then show ?thesis using Cons.prems(2) by simp
  qed
qed

lemma until_error_blocks:
  assumes "\<And>i ys. i < m \<Longrightarrow> length ys = n \<Longrightarrow> body i ys = Some (Inr (), splice ys (b + k * i) (g i))"
    and "\<And>i. i < m \<Longrightarrow> length (g i) = k" and "b + k * m \<le> n" "length out = n"
  shows "until_error [0..<m] body out = Some (Inr (), splice out b (concat (map g [0..<m])))"
proof -
  have fit: "b + k * i + k \<le> n" if "i < m" for i
    using mult_le_mono2 [of "Suc i" m k] that assms(3) by simp
  have "until_error [0..<m] body out =
      map_option (Pair (Inr ())) (for_each [0..<m] (\<lambda>i ys. Some (splice ys (b + k * i) (g i))) out)"
    using assms fit by (intro until_error_for_each [where n = n]) (auto simp: length_splice)
  also have "for_each [0..<m] (\<lambda>i ys. Some (splice ys (b + k * i) (g i))) out =
      Some (splice out b (concat (map g [0..<m])))"
    using assms by (intro for_each_splice [where k = k]) auto
  finally show ?thesis by simp
qed

text \<open>The arguments whose shape the conversion accepts, and the rows it needs.\<close>

definition nv21_shape :: "u32 \<Rightarrow> u32 \<Rightarrow> u32 \<Rightarrow> u32 \<Rightarrow> bytes option \<Rightarrow> bool" where
  "nv21_shape l t w h output \<longleftrightarrow>
     0 < unat w \<and> even (unat w) \<and> 0 < unat h \<and> even (unat h) \<and> even (unat l) \<and> even (unat t)
     \<and> (case output of None \<Rightarrow> False | Some out \<Rightarrow> length out = unat w * unat h * 3 div 2)
     \<and> unat w * unat h \<le> (2 ^ 64 - 1) div 3"

definition planes_fit :: "YuvPlaneView \<Rightarrow> YuvPlaneView \<Rightarrow> YuvPlaneView \<Rightarrow> u32 \<Rightarrow> u32 \<Rightarrow> u32 \<Rightarrow> u32 \<Rightarrow> bool" where
  "planes_fit y u v l t w h \<longleftrightarrow>
     row_fits y (unat l) (unat t + (unat h - 1)) (unat w)
     \<and> row_fits u (unat l div 2) (unat t div 2 + (unat h div 2 - 1)) (unat w div 2)
     \<and> row_fits v (unat l div 2) (unat t div 2 + (unat h div 2 - 1)) (unat w div 2)"

definition cropped_nv21 ::
  "memory \<Rightarrow> YuvPlaneView \<Rightarrow> YuvPlaneView \<Rightarrow> YuvPlaneView \<Rightarrow> u32 \<Rightarrow> u32 \<Rightarrow> u32 \<Rightarrow> u32 \<Rightarrow> bytes" where
  "cropped_nv21 mem y u v l t w h = nv21_of (unat w) (unat h)
     (\<lambda>j i. plane_byte mem y (unat l + i) (unat t + j))
     (\<lambda>j i. plane_byte mem v (unat l div 2 + i) (unat t div 2 + j))
     (\<lambda>j i. plane_byte mem u (unat l div 2 + i) (unat t div 2 + j))"

lemma shape_guards:
  fixes l t w h :: u32 and n :: u64
  assumes "length out = unat n"
  shows "(w = 0 \<or> h = 0 \<or> w AND 1 \<noteq> 0 \<or> h AND 1 \<noteq> 0 \<or> l AND 1 \<noteq> 0 \<or> t AND 1 \<noteq> 0
      \<or> (ucast w * ucast h :: u64) div ucast w \<noteq> ucast h \<or> SIZE_MAX div 3 < (ucast w * ucast h :: u64)
      \<or> n \<noteq> (ucast w * ucast h) * 3 div 2) \<longleftrightarrow> \<not> nv21_shape l t w h (Some out)"
    and "unat (ucast w * ucast h :: u64) = unat w * unat h"
proof -
  have "unat w * unat h \<le> (2 ^ 32 - 1) * (2 ^ 32 - 1)"
    using unat_u32_less [of w] unat_u32_less [of h] by (intro mult_mono) auto
  then have small: "unat w * unat h < 2 ^ 64" by (rule le_less_trans) simp
  then show px: "unat (ucast w * ucast h :: u64) = unat w * unat h"
    by (subst unat_mult_lem [THEN iffD1]) (simp_all add: unat_u32_u64)
  have parity: "a AND 1 \<noteq> 0 \<longleftrightarrow> odd (unat a)" for a :: u32
  proof -
    have "a AND 1 = 0 \<longleftrightarrow> unat (a AND 1) = 0" by (simp add: unat_eq_0)
    also have "unat (a AND 1) = unat a mod 2" by (simp only: unsigned_and_eq unsigned_1) (simp only: and_one_eq)
    finally show ?thesis by (simp add: odd_iff_mod_2_eq_one)
  qed
  have quotient: "(ucast w * ucast h :: u64) div ucast w = ucast h" if "w \<noteq> 0"
    using that px by (intro word_unat_eq_iff [THEN iffD2]) (simp add: unat_div unat_u32_u64 unat_gt_0 unat_eq_0)
  have bound: "SIZE_MAX div 3 < (ucast w * ucast h :: u64) \<longleftrightarrow> (2 ^ 64 - 1) div 3 < unat w * unat h"
    by (simp add: word_less_nat_alt px unat_div SIZE_MAX_def unsigned_minus_1_eq_mask mask_eq_exp_minus_1)
  have size: "n = ucast w * ucast h * 3 div 2 \<longleftrightarrow> length out = unat w * unat h * 3 div 2"
    if "unat w * unat h \<le> (2 ^ 64 - 1) div 3"
  proof -
    have "unat (ucast w * ucast h * 3 :: u64) = unat w * unat h * 3"
      using that px by (subst unat_mult_lem [THEN iffD1]) simp_all
    then have "unat (ucast w * ucast h * 3 div 2 :: u64) = unat w * unat h * 3 div 2"
      by (simp add: unat_div)
    then show ?thesis
      unfolding assms using word_unat_eq_iff [of n "ucast w * ucast h * 3 div 2"] by presburger
  qed
  show "(w = 0 \<or> h = 0 \<or> w AND 1 \<noteq> 0 \<or> h AND 1 \<noteq> 0 \<or> l AND 1 \<noteq> 0 \<or> t AND 1 \<noteq> 0
      \<or> (ucast w * ucast h :: u64) div ucast w \<noteq> ucast h \<or> SIZE_MAX div 3 < (ucast w * ucast h :: u64)
      \<or> n \<noteq> (ucast w * ucast h) * 3 div 2) \<longleftrightarrow> \<not> nv21_shape l t w h (Some out)"
    unfolding parity bound nv21_shape_def option.case
    using quotient size by (auto simp: unat_gt_0)
qed

definition plane_contract :: "memory \<Rightarrow> YuvPlaneView \<Rightarrow> bool" where
  "plane_contract mem p \<longleftrightarrow> data p = 0 \<or> readable mem p"

lemma luma_rows:
  fixes l t w h :: u32
  assumes "plane_contract mem y" "length out = n" "unat w * unat h \<le> n"
  shows "if row_fits y (unat l) (unat t + (unat h - 1)) (unat w) \<or> h = 0
    then until_error [0..<unat h] (luma_row mem y l t w) out = Some (Inr (), splice out 0
      (raster (unat h) (unat w) (\<lambda>j i. [plane_byte mem y (unat l + i) (unat t + j)])))
    else \<exists>zs. until_error [0..<unat h] (luma_row mem y l t w) out =
      Some (Inl ''Y plane stride exceeds its buffer'', zs) \<and> length zs = n"
proof -
  have fit: "i * unat w + unat w \<le> n" if "i < unat h" for i
    using mult_le_mono1 [of "Suc i" "unat h" "unat w"] that assms(3) by (simp add: mult.commute)
  have ok: "luma_row mem y l t w i ys = Some (Inr (), splice ys (i * unat w)
      (map (\<lambda>c. plane_byte mem y (unat l + c) (unat t + i)) [0..<unat w]))"
    if "i < unat h" "row_fits y (unat l) (unat t + i) (unat w)" "length ys = n" for i ys
    using that fit [of i] assms(1)
    by (intro luma_row_ok [where h = h]) (auto simp: plane_contract_def row_fits_def)
  show ?thesis
  proof (cases "row_fits y (unat l) (unat t + (unat h - 1)) (unat w) \<or> h = 0")
    case True
    then have "row_fits y (unat l) (unat t + i) (unat w)" if "i < unat h" for i
      using that by (auto elim: row_fits_mono)
    then have "until_error [0..<unat h] (luma_row mem y l t w) out = Some (Inr (), splice out 0
        (concat (map (\<lambda>j. map (\<lambda>c. plane_byte mem y (unat l + c) (unat t + j)) [0..<unat w]) [0..<unat h])))"
      using ok assms(2,3)
      by (intro until_error_blocks [where k = "unat w" and n = n]) (auto simp: mult.commute)
    then show ?thesis using True by (simp add: raster_def concat_map_singleton)
  next
    case False
    have "\<exists>zs. until_error [0..<unat h] (luma_row mem y l t w) out =
        Some (Inl ''Y plane stride exceeds its buffer'', zs) \<and> length zs = n"
    proof (rule until_error_fails [where G = "\<lambda>i. row_fits y (unat l) (unat t + i) (unat w)"])
      fix i and ys :: bytes
      assume "i \<in> set [0..<unat h]" "length ys = n"
      then show "if row_fits y (unat l) (unat t + i) (unat w)
          then \<exists>zs. luma_row mem y l t w i ys = Some (Inr (), zs) \<and> length zs = n
          else luma_row mem y l t w i ys = Some (Inl ''Y plane stride exceeds its buffer'', ys)"
        using ok fit luma_row_fails [of i h] by (auto simp: length_splice)
    next
      have "unat h - 1 \<in> set [0..<unat h]" using False by (simp add: unat_gt_0)
      then show "\<exists>i\<in>set [0..<unat h]. \<not> row_fits y (unat l) (unat t + i) (unat w)"
        using False by blast
    qed (rule assms(2))
    then show ?thesis using False by simp
  qed
qed

lemma chroma_rows:
  fixes l t w h :: u32
  assumes contract: "plane_contract mem u" "plane_contract mem v"
    and even: "even (unat w)" "0 < unat h div 2"
    and n: "length out = n" "unat p + unat w * (unat h div 2) \<le> n"
  shows "if row_fits u (unat l div 2) (unat t div 2 + (unat h div 2 - 1)) (unat w div 2)
       \<and> row_fits v (unat l div 2) (unat t div 2 + (unat h div 2 - 1)) (unat w div 2)
    then until_error [0..<unat (h div 2)] (chroma_row mem u v l t w p) out = Some (Inr (), splice out (unat p)
      (raster (unat h div 2) (unat w div 2) (\<lambda>j i.
        [plane_byte mem v (unat l div 2 + i) (unat t div 2 + j),
         plane_byte mem u (unat l div 2 + i) (unat t div 2 + j)])))
    else \<exists>zs. until_error [0..<unat (h div 2)] (chroma_row mem u v l t w p) out =
      Some (Inl ''UV plane stride exceeds its buffer'', zs) \<and> length zs = n"
proof -
  let ?fits = "\<lambda>i. row_fits u (unat l div 2) (unat t div 2 + i) (unat w div 2)
    \<and> row_fits v (unat l div 2) (unat t div 2 + i) (unat w div 2)"
  let ?row = "\<lambda>j. concat (map (\<lambda>c. [plane_byte mem v (unat l div 2 + c) (unat t div 2 + j),
                       plane_byte mem u (unat l div 2 + c) (unat t div 2 + j)]) [0..<unat w div 2])"
  have h2: "unat (h div 2) = unat h div 2" by (simp add: unat_div)
  have len: "length (?row j) = unat w" for j
    using even(1) by (subst length_blocks [where k = 2]) simp_all
  have fit: "unat p + i * unat w + unat w \<le> n" if "i < unat h div 2" for i
    using mult_le_mono1 [of "Suc i" "unat h div 2" "unat w"] that n(2) by (simp add: mult.commute)
  have ok: "chroma_row mem u v l t w p i ys = Some (Inr (), splice ys (unat p + i * unat w) (?row i))"
    if "i < unat h div 2" "?fits i" "length ys = n" for i ys
    using that fit [of i] contract even(1)
    by (intro chroma_row_ok [where h = h]) (auto simp: plane_contract_def row_fits_def h2)
  show ?thesis
  proof (cases "?fits (unat h div 2 - 1)")
    case True
    then have "?fits i" if "i < unat h div 2" for i
      using that by (auto elim!: row_fits_mono)
    then have "until_error [0..<unat (h div 2)] (chroma_row mem u v l t w p) out =
        Some (Inr (), splice out (unat p) (concat (map ?row [0..<unat (h div 2)])))"
      using ok n len unfolding h2
      by (intro until_error_blocks [where k = "unat w" and n = n]) (auto simp: mult.commute)
    then show ?thesis using True by (simp add: raster_def h2)
  next
    case False
    have "\<exists>zs. until_error [0..<unat (h div 2)] (chroma_row mem u v l t w p) out =
        Some (Inl ''UV plane stride exceeds its buffer'', zs) \<and> length zs = n"
    proof (rule until_error_fails [where G = ?fits])
      fix i and ys :: bytes
      assume i: "i \<in> set [0..<unat (h div 2)]" "length ys = n"
      then have "i < unat h div 2" by (simp add: h2)
      then show "if ?fits i then \<exists>zs. chroma_row mem u v l t w p i ys = Some (Inr (), zs) \<and> length zs = n
          else chroma_row mem u v l t w p i ys = Some (Inl ''UV plane stride exceeds its buffer'', ys)"
        using ok [of i ys] i(2) fit [of i] chroma_row_fails [of i h u l t w v] h2 len by (auto simp: length_splice)
    next
      have "unat h div 2 - 1 \<in> set [0..<unat (h div 2)]" using even(2) by (simp add: h2)
      then show "\<exists>i\<in>set [0..<unat (h div 2)]. \<not> ?fits i" using False by blast
    qed (rule n(1))
    then show ?thesis using False by auto
  qed
qed

lemma Convert_result:
  assumes contract: "plane_contract mem y" "plane_contract mem u" "plane_contract mem v"
    and size: "\<And>out. output = Some out \<Longrightarrow> length out = unat n"
  shows "if nv21_shape l t w h output \<and> planes_fit y u v l t w h
    then ConvertYuv420ToNv21 mem y u v l t w h output n = Some (Inr (), Some (cropped_nv21 mem y u v l t w h))
    else \<exists>e out'. ConvertYuv420ToNv21 mem y u v l t w h output n = Some (Inl e, out')
      \<and> map_option length out' = map_option length output"
proof (cases "output")
  case None
  then show ?thesis by (simp add: ConvertYuv420ToNv21_def nv21_shape_def)
next
  case (Some out)
  note len = size [OF Some]
  note guards = shape_guards(1) [OF len, of w h l t] shape_guards(2) [OF len, of w h]
  show ?thesis
  proof (cases "nv21_shape l t w h (Some out)")
    case False
    then show ?thesis
      using guards(1) unfolding ConvertYuv420ToNv21_def Some option.case Let_def by auto
  next
    case True
    note s = True [unfolded nv21_shape_def option.case]
    let ?p = "ucast w * ucast h :: u64"
    let ?A = "raster (unat h) (unat w) (\<lambda>j i. [plane_byte mem y (unat l + i) (unat t + j)])"
    let ?B = "raster (unat h div 2) (unat w div 2) (\<lambda>j i.
        [plane_byte mem v (unat l div 2 + i) (unat t div 2 + j),
         plane_byte mem u (unat l div 2 + i) (unat t div 2 + j)])"
    have area: "length out = unat w * unat h + 2 * ((unat w div 2) * (unat h div 2))"
      using s half_area [of "unat w" "unat h"] by simp
    have strip: "unat ?p + unat w * (unat h div 2) \<le> length out" and h0: "0 < unat h div 2" "h \<noteq> 0"
      using s area guards(2) by (auto elim!: evenE)
    have la: "length ?A = unat w * unat h" by (simp add: length_raster [where k = 1])
    have lb: "length ?B = 2 * ((unat w div 2) * (unat h div 2))" by (simp add: length_raster [where k = 2])
    have run: "ConvertYuv420ToNv21 mem y u v l t w h output n = do {
        (r, out) \<leftarrow> until_error [0..<unat h] (luma_row mem y l t w) out;
        (case r of Inl e \<Rightarrow> Some (Inl e, Some out) | Inr _ \<Rightarrow> do {
          (r, out) \<leftarrow> until_error [0..<unat (h div 2)] (chroma_row mem u v l t w ?p) out;
          Some (r, Some out) }) }"
      using guards(1) True unfolding ConvertYuv420ToNv21_def Some option.case Let_def by simp
    note luma = luma_rows [OF contract(1) refl, of w h out l t]
    show ?thesis
    proof (cases "row_fits y (unat l) (unat t + (unat h - 1)) (unat w)")
      case False
      then show ?thesis using luma area h0 True unfolding Some planes_fit_def run [unfolded Some] by auto
    next
      case fit: True
      let ?out = "splice out 0 ?A"
      have lo: "length ?out = length out" using la area by (simp add: length_splice)
      have first: "until_error [0..<unat h] (luma_row mem y l t w) out = Some (Inr (), ?out)"
        using luma fit area by simp
      note chroma = chroma_rows [OF contract(2,3) _ h0(1) lo strip, of l t]
      show ?thesis
      proof (cases "row_fits u (unat l div 2) (unat t div 2 + (unat h div 2 - 1)) (unat w div 2)
          \<and> row_fits v (unat l div 2) (unat t div 2 + (unat h div 2 - 1)) (unat w div 2)")
        case False
        then show ?thesis using chroma s True unfolding Some planes_fit_def run [unfolded Some] first by auto
      next
        case both: True
        have "splice ?out (unat ?p) ?B = ?A @ ?B"
          using splice_front_back [of ?A ?B out] la lb area guards(2) by simp
        then have "ConvertYuv420ToNv21 mem y u v l t w h output n =
            Some (Inr (), Some (cropped_nv21 mem y u v l t w h))"
          using chroma s both unfolding run first cropped_nv21_def nv21_of_def by simp
        then show ?thesis using fit both True unfolding Some planes_fit_def by simp
      qed
    qed
  qed
qed

text \<open>\<open>CheckedOffset\<close>, which computes in words that wrap around and guards every step, accepts a
  row exactly when its last sample lies below the plane's limit in unbounded arithmetic (and the
  plane is usable), and then returns the offset of the first sample: no overflow slips through.\<close>

theorem CheckedOffset_exact:
  "CheckedOffset p x y samples =
    (if row_fits p (unat x) (unat y) (unat samples)
     then Some (of_nat (row_start p (unat x) (unat y))) else None)"
  by (rule CheckedOffset_iff)

text \<open>C9. Whatever the strides, positions, crop and size, the conversion reads only bytes below the
  limits of the planes and writes only inside the output; it succeeds exactly when the shape is
  valid and the last row of each plane fits, and otherwise reports an error and keeps the
  length of the output.\<close>

theorem ConvertYuv420ToNv21_safe:
  assumes "plane_contract mem y" "plane_contract mem u" "plane_contract mem v"
    and "length out = unat n"
  shows "\<exists>r out'. ConvertYuv420ToNv21 mem y u v l t w h (Some out) n = Some (r, Some out')
    \<and> length out' = length out
    \<and> (r = Inr () \<longleftrightarrow> nv21_shape l t w h (Some out) \<and> planes_fit y u v l t w h)"
proof -
  have "length (cropped_nv21 mem y u v l t w h) = length out" if "nv21_shape l t w h (Some out)"
    using that by (simp add: cropped_nv21_def length_nv21_of nv21_shape_def)
  then show ?thesis
    using Convert_result [OF assms(1-3), of "Some out" n l t w h] assms(4)
    by (auto split: if_splits)
qed

text \<open>C4. On success, with the fast copy of whole VU rows or without it, the pixel at every position of
  the output consists of the luma byte at that position of the crop and of the V and U bytes at
  half the coordinates.\<close>

theorem ConvertYuv420ToNv21_pixels:
  assumes "plane_contract mem y" "plane_contract mem u" "plane_contract mem v"
    and "length out = unat n" "nv21_shape l t w h (Some out)" "planes_fit y u v l t w h"
    and "i < unat w" "j < unat h"
  shows "\<exists>out'. ConvertYuv420ToNv21 mem y u v l t w h (Some out) n = Some (Inr (), Some out')
    \<and> nv21_pixel out' (int (unat w)) (int (unat h)) (int i, int j) =
      (plane_byte mem y (unat l + i) (unat t + j),
       plane_byte mem v ((unat l + i) div 2) ((unat t + j) div 2),
       plane_byte mem u ((unat l + i) div 2) ((unat t + j) div 2))"
proof -
  note s = assms(5) [unfolded nv21_shape_def]
  have half: "(unat l + i) div 2 = unat l div 2 + i div 2" "(unat t + j) div 2 = unat t div 2 + j div 2"
    using s by (auto elim!: evenE)
  have "nv21_pixel (cropped_nv21 mem y u v l t w h) (int (unat w)) (int (unat h)) (int i, int j) =
      (plane_byte mem y (unat l + i) (unat t + j),
       plane_byte mem v ((unat l + i) div 2) ((unat t + j) div 2),
       plane_byte mem u ((unat l + i) div 2) ((unat t + j) div 2))"
    unfolding cropped_nv21_def half using s assms(7,8) by (intro nv21_pixel_of) simp_all
  then show ?thesis
    using Convert_result [OF assms(1-3), of "Some out" n l t w h] assms(4-6) by auto
qed

text \<open>A memory with a luma plane of four bytes and VU pairs that both chroma planes share.\<close>

definition shared_memory :: memory where
  "shared_memory a = (if 16 \<le> a \<and> a < 24 then Some (ucast a) else None)"

definition shared_plane :: "u64 \<Rightarrow> u64 \<Rightarrow> u64 \<Rightarrow> YuvPlaneView" where
  "shared_plane address bound step =
     \<lparr>data = address, limit = bound, position = 0, row_stride = 2, pixel_stride = step\<rparr>"

lemma shared_contract:
  "plane_contract shared_memory (shared_plane 16 4 1)"
  "plane_contract shared_memory (shared_plane 20 2 2)"
  "plane_contract shared_memory (shared_plane 21 2 2)"
proof -
  have "i < 4 \<longleftrightarrow> i = 0 \<or> i = 1 \<or> i = 2 \<or> i = 3" "i < 2 \<longleftrightarrow> i = 0 \<or> i = 1" for i :: nat by auto
  then show "plane_contract shared_memory (shared_plane 16 4 1)"
    "plane_contract shared_memory (shared_plane 20 2 2)" "plane_contract shared_memory (shared_plane 21 2 2)"
    by (simp_all add: plane_contract_def readable_def shared_plane_def shared_memory_def)
qed

lemma ConvertYuv420ToNv21_safe_witness:
  "\<exists>r out'. ConvertYuv420ToNv21 shared_memory (shared_plane 16 4 1) (shared_plane 21 2 2)
      (shared_plane 20 2 2) 0 0 2 2 (Some [0, 0, 0, 0, 0, 0]) 6 = Some (r, Some out')"
  using ConvertYuv420ToNv21_safe [OF shared_contract(1,3,2), of "[0, 0, 0, 0, 0, 0]" 6 0 0 2 2] by auto

lemma ConvertYuv420ToNv21_pixels_witness:
  "\<exists>out'. ConvertYuv420ToNv21 shared_memory (shared_plane 16 4 1) (shared_plane 21 2 2)
      (shared_plane 20 2 2) 0 0 2 2 (Some [0, 0, 0, 0, 0, 0]) 6 = Some (Inr (), Some out')
    \<and> nv21_pixel out' 2 2 (1, 1) = (19, 20, 21)"
proof -
  have "nv21_shape 0 0 2 2 (Some [0, 0, 0, 0, 0, 0])" by (simp add: nv21_shape_def)
  moreover have "planes_fit (shared_plane 16 4 1) (shared_plane 21 2 2) (shared_plane 20 2 2) 0 0 2 2"
    by (simp add: planes_fit_def row_fits_def row_start_def shared_plane_def)
  ultimately show ?thesis
    using ConvertYuv420ToNv21_pixels [OF shared_contract(1,3,2), of "[0, 0, 0, 0, 0, 0]" 6 0 0 2 2 1 1]
    by (simp add: plane_byte_def shared_memory_def shared_plane_def row_start_def del: nv21_pixel.simps)
qed

subsection \<open>The JNI entry point\<close>

text \<open>
  A direct \<open>ByteBuffer\<close> as the JNI functions \<open>GetDirectBufferAddress\<close> and \<open>GetDirectBufferCapacity\<close>
  report it, with the four \<open>jint\<close> arguments that come with it.
\<close>

record JavaPlane =
  address :: u64
  capacity :: int
  java_limit :: int
  java_position :: int
  java_row_stride :: int
  java_pixel_stride :: int

definition size_of_jint :: "int \<Rightarrow> u64" where "size_of_jint i = word_of_int i"

definition Plane :: "JavaPlane \<Rightarrow> YuvPlaneView" where
  "Plane b = (let
       lim = (if java_limit b < 0 then 0 else size_of_jint (java_limit b));
       plane = \<lparr>data = address b, limit = lim,
         position = (if java_position b < 0 then lim else size_of_jint (java_position b)),
         row_stride = (if java_row_stride b \<le> 0 then 0 else size_of_jint (java_row_stride b)),
         pixel_stride = (if java_pixel_stride b \<le> 0 then 0 else size_of_jint (java_pixel_stride b))\<rparr>
     in if capacity b < 0 \<or> size_of_jint (capacity b) < limit plane then plane\<lparr>data := 0\<rparr> else plane)"

text \<open>
  \<open>out\<close> is the Java array (\<open>None\<close> the null reference), \<open>pinned\<close> whether \<open>GetPrimitiveArrayCritical\<close>
  returned its elements. The result is the \<open>jboolean\<close> and the array behind the call.
\<close>

definition nativeConvert ::
  "memory \<Rightarrow> bool \<Rightarrow> JavaPlane \<Rightarrow> JavaPlane \<Rightarrow> JavaPlane \<Rightarrow> int \<Rightarrow> int \<Rightarrow> int \<Rightarrow> int \<Rightarrow> bytes option
     \<Rightarrow> (bool \<times> bytes option) option" where
  "nativeConvert mem pinned y_buffer u_buffer v_buffer crop_left crop_top w h out =
     (if out = None \<or> crop_left < 0 \<or> crop_top < 0 \<or> w \<le> 0 \<or> h \<le> 0 then Some (False, out)
      else let y = Plane y_buffer; u = Plane u_buffer; v = Plane v_buffer in
      if data y = 0 \<or> data u = 0 \<or> data v = 0 then Some (False, out)
      else if \<not> pinned then Some (False, out)
      else do {
        (converted, out) \<leftarrow> ConvertYuv420ToNv21 mem y u v (word_of_int crop_left) (word_of_int crop_top)
          (word_of_int w) (word_of_int h) out (of_nat (length (the out)));
        Some (converted = Inr (), out) })"

text \<open>What the JVM promises: the bytes of a direct buffer can be read up to its capacity.\<close>

definition direct_buffer :: "memory \<Rightarrow> JavaPlane \<Rightarrow> bool" where
  "direct_buffer mem b \<longleftrightarrow> capacity b < 2 ^ 63 \<and>
     (address b = 0 \<or> (\<forall>i. int i < capacity b \<longrightarrow> mem (address b + of_nat i) \<noteq> None))"

lemma unat_size_of_jint: "0 \<le> i \<Longrightarrow> i < 2 ^ 63 \<Longrightarrow> int (unat (size_of_jint i)) = i"
  by (simp add: size_of_jint_def unsigned_of_int take_bit_int_eq_self)

lemma Plane_contract:
  assumes "direct_buffer mem b"
  shows "plane_contract mem (Plane b)"
proof (cases "address b = 0 \<or> capacity b < 0 \<or>
    size_of_jint (capacity b) < (if java_limit b < 0 then 0 else size_of_jint (java_limit b))")
  case True
  then show ?thesis by (auto simp: Plane_def plane_contract_def Let_def)
next
  case False
  let ?l = "if java_limit b < 0 then 0 else size_of_jint (java_limit b)"
  have "int (unat ?l) \<le> int (unat (size_of_jint (capacity b)))"
    using False unfolding of_nat_le_iff word_le_nat_alt [symmetric] by (simp add: not_less)
  also have "\<dots> = capacity b"
    using False assms by (intro unat_size_of_jint) (auto simp: direct_buffer_def)
  finally have "int i < capacity b" if "i < unat ?l" for i using that by linarith
  then show ?thesis
    using assms False by (auto simp: Plane_def plane_contract_def Let_def readable_def direct_buffer_def)
qed

text \<open>The entry point called from Java is memory safe for every 32-bit argument: with buffers that
  are as large as the JVM says, \<open>nativeConvert\<close> always returns, keeps the length of the array, and answers
  true exactly when all three buffers have addresses, the array could be pinned, the crop and
  size are valid for the array and the last row of each plane fits.\<close>

theorem nativeConvert_safe:
  assumes "direct_buffer mem yb" "direct_buffer mem ub" "direct_buffer mem vb"
    and "length arr < 2 ^ 31"
  shows "\<exists>ok arr'. nativeConvert mem pinned yb ub vb l t w h (Some arr) = Some (ok, Some arr')
    \<and> length arr' = length arr
    \<and> (ok \<longleftrightarrow> 0 \<le> l \<and> 0 \<le> t \<and> 0 < w \<and> 0 < h \<and> pinned
        \<and> nv21_shape (word_of_int l) (word_of_int t) (word_of_int w) (word_of_int h) (Some arr)
        \<and> planes_fit (Plane yb) (Plane ub) (Plane vb) (word_of_int l) (word_of_int t)
            (word_of_int w) (word_of_int h))"
proof -
  have arr: "length arr = unat (of_nat (length arr) :: u64)"
    using assms(4) by (simp add: unat_of_nat)
  note contract = assms(1-3) [THEN Plane_contract]
  have null: "\<not> planes_fit (Plane yb) (Plane ub) (Plane vb) l t w h"
    if "data (Plane yb) = 0 \<or> data (Plane ub) = 0 \<or> data (Plane vb) = 0" for l t w h
    using that by (auto simp: planes_fit_def row_fits_def)
  have len: "length (cropped_nv21 mem y u v l t w h) = length arr" if "nv21_shape l t w h (Some arr)"
    for y u v l t w h
    using that by (simp add: cropped_nv21_def length_nv21_of nv21_shape_def)
  show ?thesis
    using Convert_result [OF contract, of "Some arr" "of_nat (length arr)" "word_of_int l" "word_of_int t"
        "word_of_int w" "word_of_int h"] arr len null
    unfolding nativeConvert_def Let_def by (auto split: if_splits)
qed

lemma nativeConvert_safe_witness:
  "\<exists>ok arr'. nativeConvert shared_memory True
      \<lparr>address = 16, capacity = 4, java_limit = 4, java_position = -1, java_row_stride = 2, java_pixel_stride = 1\<rparr>
      \<lparr>address = 0, capacity = -1, java_limit = 2, java_position = 0, java_row_stride = 2, java_pixel_stride = 2\<rparr>
      \<lparr>address = 0, capacity = -1, java_limit = 2, java_position = 0, java_row_stride = 2, java_pixel_stride = 2\<rparr>
      0 0 2 2 (Some [0, 0, 0, 0, 0, 0]) = Some (ok, Some arr') \<and> length arr' = 6"
proof -
  have "int i < 4 \<longleftrightarrow> i = 0 \<or> i = 1 \<or> i = 2 \<or> i = 3" for i by auto
  then have "direct_buffer shared_memory
    \<lparr>address = 16, capacity = 4, java_limit = 4, java_position = -1, java_row_stride = 2, java_pixel_stride = 1\<rparr>"
    by (simp add: direct_buffer_def shared_memory_def)
  moreover have "direct_buffer shared_memory
    \<lparr>address = 0, capacity = -1, java_limit = 2, java_position = 0, java_row_stride = 2, java_pixel_stride = 2\<rparr>"
    by (simp add: direct_buffer_def)
  ultimately show ?thesis
    using nativeConvert_safe [of shared_memory _ _ _ "[0, 0, 0, 0, 0, 0]" True 0 0 2 2] by fastforce
qed

end
