(* ===== verification/V4l2_Sink.thy ===== *)
theory V4l2_Sink
  imports Text_Format
begin

section \<open>The V4L2 output device\<close>

text \<open>
  \<open>v4l2_sink.cpp\<close>. The kernel is an argument: a record of the answers it gives to \<open>open\<close> and to the
  three requests, each a function of what the code sends. A system call that is repeated on
  \<open>EINTR\<close> takes its answers from a list; \<open>None\<close> means that the list ends while the call is still
  being repeated. \<open>strerror\<close> is an argument too. The state keeps, besides the member \<open>fd_\<close>, the list of
  the descriptors of the device that are open, so that a leak is visible.
\<close>

definition EINTR :: int where "EINTR = 4"
definition EAGAIN :: int where "EAGAIN = 11"
definition ENOTTY :: int where "ENOTTY = 25"
definition ETIMEDOUT :: int where "ETIMEDOUT = 110"

definition V4L2_CAP_VIDEO_OUTPUT :: u32 where "V4L2_CAP_VIDEO_OUTPUT = 0x2"
definition V4L2_CAP_READWRITE :: u32 where "V4L2_CAP_READWRITE = 0x01000000"
definition V4L2_CAP_DEVICE_CAPS :: u32 where "V4L2_CAP_DEVICE_CAPS = 0x80000000"
definition V4L2_PIX_FMT_MJPEG :: u32 where "V4L2_PIX_FMT_MJPEG = 0x47504a4d"
definition V4L2_BUF_TYPE_VIDEO_OUTPUT :: u32 where "V4L2_BUF_TYPE_VIDEO_OUTPUT = 2"
definition V4L2_FIELD_NONE :: u32 where "V4L2_FIELD_NONE = 1"

record V4l2Format =
  fmt_type :: u32
  fmt_field :: u32
  fmt_width :: u32
  fmt_height :: u32
  pixelformat :: u32
  sizeimage :: u32

record V4l2StreamParm =
  parm_type :: u32
  numerator :: u32
  denominator :: u32

text \<open>The return value, \<open>errno\<close>, and the argument structure behind the call.\<close>

type_synonym 'a reply = "int \<times> int \<times> 'a"

record kernel =
  k_open :: "string \<Rightarrow> int \<times> int"
  k_querycap :: "(u32 \<times> u32) reply list"
  k_s_fmt :: "V4l2Format \<Rightarrow> V4l2Format reply list"
  k_s_parm :: "V4l2StreamParm \<Rightarrow> unit reply list"
  k_strerror :: "int \<Rightarrow> string"

record V4l2Sink =
  fd :: int
  open_descriptors :: "int list"

definition V4l2Sink_new :: V4l2Sink where
  "V4l2Sink_new = \<lparr>fd = -1, open_descriptors = []\<rparr>"

fun Ioctl :: "'a reply list \<Rightarrow> 'a reply option" where
  "Ioctl [] = None"
| "Ioctl ((result, errno, argument) # replies) =
     (if result < 0 \<and> errno = EINTR then Ioctl replies else Some (result, errno, argument))"

definition V4l2Sink_Close :: "V4l2Sink \<Rightarrow> V4l2Sink" where
  "V4l2Sink_Close sink =
     (if 0 \<le> fd sink then sink\<lparr>fd := -1, open_descriptors := remove1 (fd sink) (open_descriptors sink)\<rparr>
      else sink)"

definition effective_capabilities :: "u32 \<times> u32 \<Rightarrow> u32" where
  "effective_capabilities capability =
     (if fst capability AND V4L2_CAP_DEVICE_CAPS \<noteq> 0 then snd capability else fst capability)"

definition requested_format :: "int \<Rightarrow> int \<Rightarrow> u64 \<Rightarrow> V4l2Format" where
  "requested_format width height max_frame_bytes =
     \<lparr>fmt_type = V4L2_BUF_TYPE_VIDEO_OUTPUT, fmt_field = V4L2_FIELD_NONE,
      fmt_width = word_of_int width, fmt_height = word_of_int height,
      pixelformat = V4L2_PIX_FMT_MJPEG,
      sizeimage = ucast (min max_frame_bytes 0xffffffff)\<rparr>"

definition requested_parameters :: "int \<Rightarrow> V4l2StreamParm" where
  "requested_parameters fps = \<lparr>parm_type = V4L2_BUF_TYPE_VIDEO_OUTPUT, numerator = 1, denominator = word_of_int fps\<rparr>"

definition V4l2Sink_Open ::
  "kernel \<Rightarrow> string \<Rightarrow> int \<Rightarrow> int \<Rightarrow> int \<Rightarrow> u64 \<Rightarrow> V4l2Sink \<Rightarrow> (unit outcome \<times> V4l2Sink) option" where
  "V4l2Sink_Open k device width height fps max_frame_bytes sink =
     (let sink = V4l2Sink_Close sink; (descriptor, errno) = k_open k device;
          sink = sink\<lparr>fd := descriptor\<rparr>
      in if fd sink < 0 then
        Some (Inl (''cannot open '' @ device @ '': '' @ k_strerror k errno), sink)
      else let sink = sink\<lparr>open_descriptors := descriptor # open_descriptors sink\<rparr> in do {
        (result, errno, capability) \<leftarrow> Ioctl (k_querycap k);
        if result \<noteq> 0 then
          Some (Inl (''VIDIOC_QUERYCAP failed: '' @ k_strerror k errno), V4l2Sink_Close sink)
        else let capabilities = effective_capabilities capability in
        if capabilities AND V4L2_CAP_VIDEO_OUTPUT = 0 \<or> capabilities AND V4L2_CAP_READWRITE = 0 then
          Some (Inl (device @ '' is not a writable V4L2 video-output device''), V4l2Sink_Close sink)
        else do {
          (result, errno, format) \<leftarrow> Ioctl (k_s_fmt k (requested_format width height max_frame_bytes));
          if result \<noteq> 0 then
            Some (Inl (''VIDIOC_S_FMT(MJPEG) failed: '' @ k_strerror k errno), V4l2Sink_Close sink)
          else if pixelformat format \<noteq> V4L2_PIX_FMT_MJPEG
              \<or> sint (fmt_width format) \<noteq> width \<or> sint (fmt_height format) \<noteq> height then
            Some (Inl ''V4L2 driver rejected the requested MJPEG geometry'', V4l2Sink_Close sink)
          else do {
            (result, errno, _) \<leftarrow> Ioctl (k_s_parm k (requested_parameters fps));
            if result \<noteq> 0 \<and> errno \<noteq> ENOTTY then
              Some (Inl (''VIDIOC_S_PARM failed: '' @ k_strerror k errno), V4l2Sink_Close sink)
            else Some (Inr (), sink) } } })"

subsection \<open>Writing a frame\<close>

text \<open>What the kernel answers, in the order of the calls: a \<open>write\<close> of the whole frame (return value
  and \<open>errno\<close>), or a \<open>poll\<close> (return value, \<open>errno\<close> and whether \<open>POLLOUT\<close> is set).\<close>

datatype device_event = Wrote int int | Polled int int bool

text \<open>\<open>write_loop\<close> is the \<open>for\<close> loop of \<open>Write\<close> for a frame of \<open>n\<close> bytes, \<open>poll_loop\<close> its \<open>do\<close> loop; both
  give the outcome and the events not yet used.\<close>

fun write_loop :: "(int \<Rightarrow> string) \<Rightarrow> nat \<Rightarrow> device_event list \<Rightarrow> (unit outcome \<times> device_event list) option"
and poll_loop :: "(int \<Rightarrow> string) \<Rightarrow> nat \<Rightarrow> int \<Rightarrow> device_event list \<Rightarrow> (unit outcome \<times> device_event list) option"
where
  "write_loop strerror n (Wrote count errno # events) =
     (if count = int n then Some (Inr (), events)
      else if 0 \<le> count then
        Some (Inl ''V4L2 driver accepted only part of one MJPEG frame'', events)
      else if errno = EINTR then write_loop strerror n events
      else if errno = EAGAIN then poll_loop strerror n errno events
      else Some (Inl (''V4L2 frame write failed: '' @ strerror errno), events))"
| "write_loop strerror n _ = None"
| "poll_loop strerror n last_errno (Polled ready errno writable # events) =
     (if ready < 0 \<and> errno = EINTR then poll_loop strerror n errno events
      else if 0 < ready \<and> writable then write_loop strerror n events
      else let final_errno = (if ready = 0 then ETIMEDOUT else if ready < 0 then errno else last_errno)
        in Some (Inl (''V4L2 frame write failed: '' @ strerror final_errno), events))"
| "poll_loop strerror n last_errno _ = None"

definition V4l2Sink_Write ::
  "(int \<Rightarrow> string) \<Rightarrow> bytes \<Rightarrow> V4l2Sink \<Rightarrow> device_event list \<Rightarrow> (unit outcome \<times> device_event list) option" where
  "V4l2Sink_Write strerror jpeg sink events =
     (if fd sink < 0 then Some (Inl ''V4L2 sink is not open'', events)
      else write_loop strerror (length jpeg) events)"

subsection \<open>No descriptor is lost\<close>

text \<open>The sink holds the only open descriptor of the device, or none is open.\<close>

definition sink_ok :: "V4l2Sink \<Rightarrow> bool" where
  "sink_ok sink \<longleftrightarrow> open_descriptors sink = (if 0 \<le> fd sink then [fd sink] else [])"

lemma Close_closes [simp]:
  "sink_ok sink \<Longrightarrow> open_descriptors (V4l2Sink_Close sink) = [] \<and> fd (V4l2Sink_Close sink) < 0"
  by (auto simp: sink_ok_def V4l2Sink_Close_def)

lemma Close_ok: "sink_ok sink \<Longrightarrow> sink_ok (V4l2Sink_Close sink)"
  by (auto simp: sink_ok_def V4l2Sink_Close_def)

lemma new_ok: "sink_ok V4l2Sink_new"
  by (simp add: sink_ok_def V4l2Sink_new_def)

lemma Open_outcome:
  assumes "sink_ok sink" "V4l2Sink_Open k device width height fps limit sink = Some (r, sink')"
  shows "sink_ok sink' \<and>
    (case r of
       Inl e \<Rightarrow> fd sink' < 0
     | Inr _ \<Rightarrow> 0 \<le> fd sink' \<and> fd sink' = fst (k_open k device) \<and>
         (\<exists>e c. Ioctl (k_querycap k) = Some (0, e, c) \<and>
            effective_capabilities c AND V4L2_CAP_VIDEO_OUTPUT \<noteq> 0 \<and>
            effective_capabilities c AND V4L2_CAP_READWRITE \<noteq> 0) \<and>
         (\<exists>e f. Ioctl (k_s_fmt k (requested_format width height limit)) = Some (0, e, f) \<and>
            pixelformat f = V4L2_PIX_FMT_MJPEG \<and> sint (fmt_width f) = width \<and> sint (fmt_height f) = height))"
proof -
  note closed = Close_closes [OF assms(1)]
  show ?thesis
    using assms(2) closed
    by (auto simp: V4l2Sink_Open_def Let_def sink_ok_def V4l2Sink_Close_def bind_eq_Some_conv
        split: prod.splits if_splits)
qed

text \<open>C38. Whatever the kernel answers, \<open>Open\<close> leaks no descriptor: a failed call leaves none open and a
  successful one exactly the new one, and success means that the device is a writable video
  output and that the driver accepted MJPEG at exactly the requested size.\<close>

theorem V4l2Sink_Open_sound:
  assumes "sink_ok sink" "V4l2Sink_Open k device width height fps limit sink = Some (r, sink')"
  shows "sink_ok sink' \<and>
    (case r of
       Inl e \<Rightarrow> fd sink' < 0
     | Inr _ \<Rightarrow> 0 \<le> fd sink' \<and> fd sink' = fst (k_open k device) \<and>
         (\<exists>e c. Ioctl (k_querycap k) = Some (0, e, c) \<and>
            effective_capabilities c AND V4L2_CAP_VIDEO_OUTPUT \<noteq> 0 \<and>
            effective_capabilities c AND V4L2_CAP_READWRITE \<noteq> 0) \<and>
         (\<exists>e f. Ioctl (k_s_fmt k (requested_format width height limit)) = Some (0, e, f) \<and>
            pixelformat f = V4L2_PIX_FMT_MJPEG \<and> sint (fmt_width f) = width \<and> sint (fmt_height f) = height))"
  using assms by (rule Open_outcome)

definition loopback_kernel :: kernel where
  "loopback_kernel = \<lparr>k_open = (\<lambda>_. (7, 0)),
     k_querycap = [(-1, 4, (0, 0)), (0, 0, (0x81000002, 0x01000002))],
     k_s_fmt = (\<lambda>f. [(0, 0, f)]), k_s_parm = (\<lambda>_. [(-1, 25, ())]), k_strerror = (\<lambda>_. ''error'')\<rparr>"

lemma loopback_opens:
  "V4l2Sink_Open loopback_kernel ''/dev/video0'' 1280 720 30 0x1000000 V4l2Sink_new =
    Some (Inr (), \<lparr>fd = 7, open_descriptors = [7]\<rparr>)"
  by code_simp

lemma V4l2Sink_Open_sound_witness:
  "sink_ok \<lparr>fd = 7, open_descriptors = [7]\<rparr>"
  using V4l2Sink_Open_sound [OF new_ok loopback_opens] by simp

subsection \<open>A frame is written whole\<close>

text \<open>The answers after which the loop asks again: interrupted calls, and a full device that becomes
  writable.\<close>

inductive asked_again :: "device_event list \<Rightarrow> bool" and polled_again :: "device_event list \<Rightarrow> bool" where
  "asked_again []"
| "count < 0 \<Longrightarrow> asked_again events \<Longrightarrow> asked_again (Wrote count EINTR # events)"
| "count < 0 \<Longrightarrow> polled_again events \<Longrightarrow> asked_again (Wrote count EAGAIN # events)"
| "ready < 0 \<Longrightarrow> polled_again events \<Longrightarrow> polled_again (Polled ready EINTR writable # events)"
| "0 < ready \<Longrightarrow> asked_again events \<Longrightarrow> polled_again (Polled ready errno True # events)"

inductive_cases asked_againE [elim]: "asked_again (Wrote count errno # events)"
inductive_cases polled_againE [elim]: "polled_again (Polled ready errno writable # events)"
inductive_simps asked_again_simps [simp]: "asked_again []" "asked_again (Wrote count errno # events)"
  "asked_again (Polled ready errno writable # events)"
inductive_simps polled_again_simps [simp]: "polled_again []" "polled_again (Wrote count errno # events)"
  "polled_again (Polled ready errno writable # events)"

lemma asked_again_prefix:
  "(\<exists>pre e. Wrote c e0 # events = pre @ Wrote (int n) e # rest \<and> asked_again pre) \<longleftrightarrow>
     c = int n \<and> events = rest \<or>
     c < 0 \<and> e0 = EINTR \<and> (\<exists>pre e. events = pre @ Wrote (int n) e # rest \<and> asked_again pre) \<or>
     c < 0 \<and> e0 = EAGAIN \<and> (\<exists>pre e. events = pre @ Wrote (int n) e # rest \<and> polled_again pre)"
  by (auto simp: Cons_eq_append_conv)

lemma polled_again_prefix:
  "(\<exists>pre e. Polled c e0 b # events = pre @ Wrote (int n) e # rest \<and> polled_again pre) \<longleftrightarrow>
     c < 0 \<and> e0 = EINTR \<and> (\<exists>pre e. events = pre @ Wrote (int n) e # rest \<and> polled_again pre) \<or>
     0 < c \<and> b \<and> (\<exists>pre e. events = pre @ Wrote (int n) e # rest \<and> asked_again pre)"
  by (auto simp: Cons_eq_append_conv)

lemma write_loop_success:
  "write_loop strerror n events = Some (Inr (), rest) \<longleftrightarrow>
     (\<exists>pre errno. events = pre @ Wrote (int n) errno # rest \<and> asked_again pre)"
  "poll_loop strerror n last_errno events = Some (Inr (), rest) \<longleftrightarrow>
     (\<exists>pre errno. events = pre @ Wrote (int n) errno # rest \<and> polled_again pre)"
proof (induction strerror n events and strerror n last_errno events rule: write_loop_poll_loop.induct)
  case (1 strerror n count errno events)
  then show ?case
    unfolding asked_again_prefix by (auto simp: EINTR_def EAGAIN_def)
next
  case (3 strerror n last_errno ready errno writable events)
  then show ?case
    unfolding polled_again_prefix by (auto simp: Let_def)
qed (auto simp: Cons_eq_append_conv)

lemma open_descriptor_writes: "0 \<le> fd sink \<Longrightarrow>
    V4l2Sink_Write strerror jpeg sink events = write_loop strerror (length jpeg) events"
  by (simp add: V4l2Sink_Write_def)

text \<open>C39. \<open>Write\<close> reports success exactly when the device is open and the kernel took the whole frame in a
  single \<open>write\<close>, after nothing but interrupted calls and waits for a full device: no frame is ever
  delivered in pieces or reported written when only a part was.\<close>

theorem V4l2Sink_Write_whole_frame:
  "V4l2Sink_Write strerror jpeg sink events = Some (Inr (), rest) \<longleftrightarrow>
     0 \<le> fd sink \<and>
     (\<exists>retries errno. events = retries @ Wrote (int (length jpeg)) errno # rest \<and> asked_again retries)"
  by (auto simp: V4l2Sink_Write_def write_loop_success)

subsection \<open>The sink as the engine sees it\<close>

text \<open>
  What the engine relies on: a device that is opened, written and closed, where a write on a closed device fails
  and closing is what keeps the descriptors balanced.
\<close>

locale frame_sink =
  fixes is_open :: "'s \<Rightarrow> bool" and balanced :: "'s \<Rightarrow> bool"
    and close_sink :: "'s \<Rightarrow> 's" and write_frame :: "'s \<Rightarrow> bytes \<Rightarrow> 'e \<Rightarrow> bool"
  assumes close_balanced: "balanced s \<Longrightarrow> balanced (close_sink s)"
    and close_closed: "\<not> is_open (close_sink s)"
    and write_needs_open: "write_frame s frame events \<Longrightarrow> is_open s"
begin

lemma closed_never_writes: "\<not> write_frame (close_sink s) frame events"
  using close_closed write_needs_open by blast

lemma close_twice: "balanced s \<Longrightarrow> balanced (close_sink (close_sink s))"
  by (intro close_balanced)

end

interpretation v4l2: frame_sink "\<lambda>s. 0 \<le> fd s" sink_ok V4l2Sink_Close
  "\<lambda>s frame (strerror, events). \<exists>rest. V4l2Sink_Write strerror frame s events = Some (Inr (), rest)"
  by unfold_locales
    (auto simp: sink_ok_def V4l2Sink_Close_def V4l2Sink_Write_def split: if_splits)

end
