(* ===== verification/Engine.thy ===== *)
theory Engine
  imports Config_Command Json_Escape Jpeg_Transform Nv21_Transform V4l2_Sink
begin

section \<open>The engine\<close>

text \<open>
  \<open>engine.cpp\<close>: the state of the \<open>Engine\<close>, its handlers, and the bodies of the writer thread's loop. The time is
  an argument in nanoseconds of the steady clock (\<open>now\<close>), a thread that cannot be created is the
  text of its exception. A handler that holds the mutex from its first to its last line is one
  function; one that takes it twice is two, and the interleavings are the subject of
  \<open>Engine_Steps\<close>. The source thread's call of FFmpeg is modelled in \<open>Ffmpeg_Source\<close>.
\<close>

definition kMaxFrameBytes :: nat where "kMaxFrameBytes = 16 * 1024 * 1024"
definition kInternalJpegQuality :: int where "kInternalJpegQuality = 90"

datatype SourceFormat = kJpeg | kNv21

record SourceFrame =
  payload :: bytes
  frame_kind :: SourceFormat
  frame_width :: int
  frame_height :: int
  presentation_time_ns :: int
  arrival_time_ns :: int

record RuntimeStatus =
  running :: bool
  source_connected :: bool
  sink_open :: bool
  frames_received :: u64
  frames_written :: u64
  frames_dropped :: u64
  source_width :: int
  source_height :: int
  source_label :: string
  frame_format :: string
  status_error :: string
  last_frame_time :: int

definition RuntimeStatus_default :: RuntimeStatus where
  "RuntimeStatus_default =
     \<lparr>running = False, source_connected = False, sink_open = False, frames_received = 0,
      frames_written = 0, frames_dropped = 0, source_width = 0, source_height = 0,
      source_label = ''none'', frame_format = ''none'', status_error = '''', last_frame_time = 0\<rparr>"

record Engine =
  eng_config :: Config
  status :: RuntimeStatus
  latest_frame :: "SourceFrame option"
  latest_generation :: u64
  stop_requested :: bool
  source_thread :: bool
  writer_thread :: bool
  sink :: V4l2Sink

definition Engine_new :: Engine where
  "Engine_new = \<lparr>eng_config = Config_default, status = RuntimeStatus_default, latest_frame = None,
     latest_generation = 0, stop_requested = False, source_thread = False, writer_thread = False,
     sink = V4l2Sink_new\<rparr>"

subsection \<open>Starting and stopping\<close>

text \<open>\<open>Stop\<close> behind the two joins: both threads have left their loops.\<close>

definition Engine_Stop :: "Engine \<Rightarrow> Engine" where
  "Engine_Stop e = e\<lparr>
     stop_requested := True, source_thread := False, writer_thread := False,
     status := (status e)\<lparr>running := False, source_connected := False, sink_open := False\<rparr>,
     latest_frame := None,
     sink := V4l2Sink_Close (sink e)\<rparr>"

definition label_of_url :: "string \<Rightarrow> string" where
  "label_of_url url =
     (if url = ''push://local'' then ''LOCAL_SAF''
      else if url = ''push://placeholder'' then ''GLOBAL_PLACEHOLDER''
      else case ParseStreamSourceUrl url (Some StreamSourceSpec_default) of
        Inr source \<Rightarrow> spec_label source
      | Inl _ \<Rightarrow> ''UNKNOWN'')"

definition placeholder_frame :: "Config \<Rightarrow> int \<Rightarrow> SourceFrame" where
  "placeholder_frame config now =
     (let pixels = nat (cfg_width config) * nat (cfg_height config)
      in \<lparr>payload = replicate pixels 16 @ replicate (pixels * 3 div 2 - pixels) 128,
          frame_kind = kNv21, frame_width = cfg_width config, frame_height = cfg_height config,
          presentation_time_ns = now, arrival_time_ns = now\<rparr>)"

text \<open>
  \<open>Start\<close>, with the exceptions of the two thread constructors, if any. When the second one throws, the writer
  is running: \<open>writer_runs\<close> is what it does until it is joined.
\<close>

definition Engine_Start ::
  "kernel \<Rightarrow> int \<Rightarrow> string option \<Rightarrow> (string \<times> (Engine \<Rightarrow> Engine)) option \<Rightarrow> Config \<Rightarrow> Engine
     \<Rightarrow> (unit outcome \<times> Engine) option" where
  "Engine_Start k now writer_exception source_exception config e =
     (case Validate config of
        Inl message \<Rightarrow> Some (Inl message, e)
      | Inr _ \<Rightarrow> let e = Engine_Stop e in do {
          (r, s) \<leftarrow> V4l2Sink_Open k (cfg_video_device config) (cfg_width config) (cfg_height config)
            (cfg_fps config) (of_nat kMaxFrameBytes) (sink e);
          let e = e\<lparr>sink := s\<rparr>;
          (case r of
             Inl message \<Rightarrow> Some (Inl message, e)
           | Inr _ \<Rightarrow> let e = e\<lparr>
                 eng_config := config,
                 status := RuntimeStatus_default\<lparr>
                   running := True, source_connected := False, sink_open := True,
                   source_label := label_of_url (cfg_url config), last_frame_time := now\<rparr>,
                 latest_frame := Some (placeholder_frame config now),
                 latest_generation := 1,
                 stop_requested := False\<rparr>
               in case writer_exception of
                 Some what \<Rightarrow> Some (Inl (''unable to create worker thread: '' @ what), Engine_Stop e)
               | None \<Rightarrow> let e = e\<lparr>writer_thread := True\<rparr> in
                 if cfg_url config \<noteq> ''push://local'' \<and> cfg_url config \<noteq> ''push://placeholder'' then
                   (case source_exception of
                      Some (what, writer_runs) \<Rightarrow>
                        Some (Inl (''unable to create worker thread: '' @ what), Engine_Stop (writer_runs e))
                    | None \<Rightarrow> Some (Inr (), e\<lparr>source_thread := True\<rparr>))
                 else Some (Inr (), e)) })"

text \<open>\<open>WaitForFirstFrameWritten\<close>: when the wait may end before its deadline, and what is returned.\<close>

definition first_frame_known :: "Engine \<Rightarrow> bool" where
  "first_frame_known e \<longleftrightarrow> frames_written (status e) > 0 \<or> \<not> running (status e) \<or> \<not> sink_open (status e)"

definition WaitForFirstFrameWritten :: "Engine \<Rightarrow> unit outcome" where
  "WaitForFirstFrameWritten e =
     (if frames_written (status e) > 0 then Inr ()
      else Inl (if status_error (status e) = []
                then ''V4L2 placeholder did not produce its first frame in time''
                else status_error (status e)))"

subsection \<open>Frames coming in\<close>

definition PublishFrame :: "int \<Rightarrow> SourceFrame \<Rightarrow> Engine \<Rightarrow> Engine" where
  "PublishFrame now frame e =
     (if length (payload frame) < 4 \<or> kMaxFrameBytes < length (payload frame) then
        e\<lparr>status := (status e)\<lparr>frames_dropped := frames_dropped (status e) + 1,
             status_error := ''received frame is empty or exceeds safety limit''\<rparr>\<rparr>
      else e\<lparr>latest_frame := Some frame, latest_generation := latest_generation e + 1,
             status := (status e)\<lparr>frames_received := frames_received (status e) + 1,
               source_connected := True, last_frame_time := now\<rparr>\<rparr>)"

text \<open>
  \<open>PushFrame\<close> and \<open>PushNv21Frame\<close> take the mutex for the first check and again in \<open>PublishFrame\<close>:
  \<open>producer_active\<close> is the check, \<open>push_frame\<close> and \<open>push_nv21_frame\<close> what follows up to \<open>PublishFrame\<close>.
\<close>

definition producer_active :: "Engine \<Rightarrow> unit outcome" where
  "producer_active e =
     (if \<not> running (status e) \<or> cfg_url (eng_config e) \<noteq> ''push://local''
      then Inl ''local frame producer is not active'' else Inr ())"

definition push_frame :: "int \<Rightarrow> bytes \<Rightarrow> SourceFrame outcome" where
  "push_frame now jpeg =
     (if length jpeg < 4 \<or> kMaxFrameBytes < length jpeg
      then Inl ''local JPEG frame is empty or too large''
      else Inr \<lparr>payload = jpeg, frame_kind = kJpeg, frame_width = 0, frame_height = 0,
             presentation_time_ns = now, arrival_time_ns = now\<rparr>)"

definition PushFrame :: "int \<Rightarrow> bytes \<Rightarrow> Engine \<Rightarrow> unit outcome \<times> Engine" where
  "PushFrame now jpeg e =
     (case bind_ok (producer_active e) (\<lambda>_. push_frame now jpeg) of
        Inl message \<Rightarrow> (Inl message, e)
      | Inr frame \<Rightarrow> (Inr (), PublishFrame now frame e))"

definition push_nv21_frame :: "int \<Rightarrow> bytes \<Rightarrow> int \<Rightarrow> int \<Rightarrow> int \<Rightarrow> SourceFrame outcome" where
  "push_nv21_frame now nv21 w h time_ns =
     (let pixels = (if 0 < w \<and> 0 < h then nat w * nat h else 0)
      in if w \<le> 0 \<or> h \<le> 0 \<or> w AND 1 \<noteq> 0 \<or> h AND 1 \<noteq> 0 \<or> 3840 * 2160 < pixels
            \<or> length nv21 \<noteq> pixels * 3 div 2 \<or> kMaxFrameBytes < length nv21
         then Inl ''local NV21 frame metadata or payload is invalid''
         else Inr \<lparr>payload = nv21, frame_kind = kNv21, frame_width = w, frame_height = h,
                presentation_time_ns = time_ns, arrival_time_ns = now\<rparr>)"

definition PushNv21Frame :: "int \<Rightarrow> bytes \<Rightarrow> int \<Rightarrow> int \<Rightarrow> int \<Rightarrow> Engine \<Rightarrow> unit outcome \<times> Engine" where
  "PushNv21Frame now nv21 w h time_ns e =
     (case bind_ok (producer_active e) (\<lambda>_. push_nv21_frame now nv21 w h time_ns) of
        Inl message \<Rightarrow> (Inl message, e)
      | Inr frame \<Rightarrow> (Inr (), PublishFrame now frame e))"

subsection \<open>Reporting\<close>

definition json_bool :: "bool \<Rightarrow> string" where
  "json_bool b = (if b then ''true'' else ''false'')"

definition frame_age_ms :: "int \<Rightarrow> RuntimeStatus \<Rightarrow> int" where
  "frame_age_ms now s = (if last_frame_time s \<noteq> 0 then (now - last_frame_time s) div 1000000 else -1)"

definition StatusJson :: "int \<Rightarrow> Engine \<Rightarrow> string" where
  "StatusJson now e = (let s = status e in
     ''{\"running\":'' @ json_bool (running s)
     @ '',\"source\":\"'' @ JsonEscape (source_label s) @ ''\"''
     @ '',\"connected\":'' @ json_bool (source_connected s)
     @ '',\"camera_ready\":'' @ json_bool (sink_open s)
     @ '',\"replacement_scope\":\"global-front-back\"''
     @ '',\"replacement_verification\":\"pixel5-legacy-provider-takeover\"''
     @ '',\"camera_ids\":[\"0\",\"1\"]''
     @ '',\"transport\":\"ffmpeg-to-v4l2-to-global-provider\"''
     @ '',\"frame_format\":\"'' @ JsonEscape (frame_format s) @ ''\"''
     @ '',\"received\":'' @ to_string (uint (frames_received s))
     @ '',\"written\":'' @ to_string (uint (frames_written s))
     @ '',\"dropped\":'' @ to_string (uint (frames_dropped s))
     @ '',\"source_size\":\"'' @ to_string (source_width s) @ ''x'' @ to_string (source_height s) @ ''\"''
     @ '',\"age_ms\":'' @ to_string (frame_age_ms now s)
     @ '',\"error\":\"'' @ JsonEscape (status_error s) @ ''\"}'')"

end
