(* ===== verification/Writer.thy ===== *)
theory Writer
  imports Engine
begin

section \<open>The writer thread\<close>

text \<open>
  The loop of \<open>Engine::WriterLoop\<close> (\<open>engine.cpp\<close>), cut where it releases the mutex: \<open>writer_take\<close> picks
  the newest frame, \<open>convert_frame\<close> turns it into JPEG outside the mutex, \<open>writer_convert\<close> records
  the outcome, and \<open>writer_deliver\<close> hands the current JPEG to the device and sets the time of the
  next write. The two waits are the condition \<open>next_write w \<le> now\<close> under which \<open>writer_take\<close> runs.
\<close>

record Writer =
  consumed_generation :: u64
  output_jpeg :: bytes
  next_write :: int
  taken_frame :: "SourceFrame option"
  taken_generation :: u64

definition frame_interval :: "Config \<Rightarrow> int" where
  "frame_interval config = 1000000000 div cfg_fps config"

definition Writer_new :: "int \<Rightarrow> Writer" where
  "Writer_new now = \<lparr>consumed_generation = 0, output_jpeg = [], next_write = now,
     taken_frame = None, taken_generation = 0\<rparr>"

definition writer_take :: "Engine \<Rightarrow> Writer \<Rightarrow> Engine \<times> Writer" where
  "writer_take e w =
     (let generation = latest_generation e;
          w' = w\<lparr>taken_frame := latest_frame e, taken_generation := generation\<rparr>
      in if consumed_generation w + 1 < generation then
           (e\<lparr>status := (status e)\<lparr>frames_dropped :=
              frames_dropped (status e) + (generation - consumed_generation w - 1)\<rparr>\<rparr>, w')
         else (e, w'))"

definition options_of :: "Config \<Rightarrow> TransformOptions" where
  "options_of config =
     \<lparr>width = cfg_width config, height = cfg_height config, rotation = cfg_rotation config,
      mirror = cfg_mirror config, jpeg_quality = kInternalJpegQuality\<rparr>"

text \<open>The last conversion, of the transformed NV21 picture; \<open>dims\<close> is the source size to report.\<close>

definition encode_nv21 ::
  "encoder \<Rightarrow> Config \<Rightarrow> bytes \<Rightarrow> int \<times> int \<Rightarrow> (bytes \<times> int \<times> int) outcome option" where
  "encode_nv21 encode config nv21 dims = do {
     c \<leftarrow> Nv21ToJpeg encode nv21 (cfg_width config) (cfg_height config) kInternalJpegQuality (Some []);
     Some (case outcome_of c of
       Inl message \<Rightarrow> Inl message
     | Inr _ \<Rightarrow> Inr (case contents c of Some jpeg \<Rightarrow> jpeg | None \<Rightarrow> [], dims)) }"

definition passes_through :: "Config \<Rightarrow> (nat \<times> nat) outcome \<Rightarrow> bool" where
  "passes_through config r =
     (case r of
        Inl _ \<Rightarrow> False
      | Inr (w, h) \<Rightarrow> int w = cfg_width config \<and> int h = cfg_height config
          \<and> cfg_rotation config = 0 \<and> \<not> cfg_mirror config)"

definition convert_frame ::
  "decoder \<Rightarrow> string option \<Rightarrow> encoder \<Rightarrow> Config \<Rightarrow> SourceFrame
     \<Rightarrow> (bytes \<times> int \<times> int) outcome option" where
  "convert_frame decode reason encode config frame =
     (case frame_kind frame of
        kJpeg \<Rightarrow> do {
          r \<leftarrow> ReadJpegDimensions (payload frame);
          if passes_through config r then
            Some (Inr (payload frame, cfg_width config, cfg_height config))
          else do {
            c \<leftarrow> TransformJpegToNv21 decode reason (payload frame) (options_of config) (Some []);
            (case outcome_of c of
               Inl message \<Rightarrow> Some (Inl message)
             | Inr _ \<Rightarrow> encode_nv21 encode config (the (contents c))
                 (case source_size c of Some dims \<Rightarrow> dims | None \<Rightarrow> (0, 0))) } }
      | kNv21 \<Rightarrow> do {
          c \<leftarrow> TransformNv21 (payload frame) (frame_width frame) (frame_height frame)
                 (options_of config) (Some []);
          (case outcome_of c of
             Inl message \<Rightarrow> Some (Inl message)
           | Inr _ \<Rightarrow> encode_nv21 encode config (the (contents c))
               (frame_width frame, frame_height frame)) })"

definition writer_convert ::
  "decoder \<Rightarrow> string option \<Rightarrow> encoder \<Rightarrow> Engine \<Rightarrow> Writer \<Rightarrow> (Engine \<times> Writer) option" where
  "writer_convert decode reason encode e w =
     (case taken_frame w of
        None \<Rightarrow> Some (e, w)
      | Some frame \<Rightarrow>
        if taken_generation w = consumed_generation w then Some (e, w)
        else do {
          r \<leftarrow> convert_frame decode reason encode (eng_config e) frame;
          Some (case r of
            Inr (jpeg, w', h') \<Rightarrow>
              (e\<lparr>status := (status e)\<lparr>source_width := w', source_height := h',
                   frame_format := ''mjpeg'', status_error := []\<rparr>\<rparr>,
               w\<lparr>output_jpeg := jpeg, consumed_generation := taken_generation w\<rparr>)
          | Inl message \<Rightarrow>
              (e\<lparr>status := (status e)\<lparr>status_error := message,
                   frames_dropped := frames_dropped (status e) + 1\<rparr>\<rparr>,
               w\<lparr>output_jpeg := [], consumed_generation := taken_generation w\<rparr>)) })"

text \<open>The rest of the loop body; \<open>now\<close> is read before the write, \<open>events\<close> are the kernel's answers.\<close>

definition writer_deliver ::
  "(int \<Rightarrow> string) \<Rightarrow> int \<Rightarrow> device_event list \<Rightarrow> Engine \<Rightarrow> Writer
     \<Rightarrow> (Engine \<times> Writer \<times> device_event list) option" where
  "writer_deliver strerror now events e w =
     (let interval = frame_interval (eng_config e) in
      if output_jpeg w = [] then Some (e, w\<lparr>next_write := now + interval\<rparr>, events)
      else do {
        (r, events) \<leftarrow> V4l2Sink_Write strerror (output_jpeg w) (sink e) events;
        Some (case r of
          Inl message \<Rightarrow>
            (e\<lparr>status := (status e)\<lparr>sink_open := False, status_error := message\<rparr>\<rparr>,
             w\<lparr>next_write := now + interval\<rparr>, events)
        | Inr _ \<Rightarrow> let next = next_write w + interval in
            (e\<lparr>status := (status e)\<lparr>sink_open := True, frames_written := frames_written (status e) + 1\<rparr>\<rparr>,
             w\<lparr>next_write := if next < now - interval then now + interval else next\<rparr>, events)) })"

subsection \<open>The conversion of one frame\<close>

lemma Nv21ToJpeg_encodes:
  assumes "even w" "even h" "0 < w" "0 < h" "w * h \<le> 3840 * 2160" "int (length nv21) = w * h * 3 div 2"
    and "1 \<le> q" "q \<le> 100"
  shows "Nv21ToJpeg encode nv21 w h q (Some old) =
    (case encode w h (raster (nat h) (nat w) (\<lambda>y x. pixel_rgb (nv21_pixel nv21 w h (int x, int y)))) q of
       (chunks, True) \<Rightarrow> finished (concat chunks) None
     | (chunks, False) \<Rightarrow> refused ''NV21 JPEG encode failed'' (Some []) None)"
  using assms unfolding Nv21ToJpeg_equation by simp

text \<open>A configuration whose output a frame can be converted to, as every valid one.\<close>

definition output_config :: "Config \<Rightarrow> bool" where
  "output_config c \<longleftrightarrow> cfg_width c = 1280 \<and> cfg_height c = 720 \<and> cfg_fps c = 30
     \<and> right_angle (cfg_rotation c)"

lemma valid_output_config: "valid_config c \<Longrightarrow> output_config c"
  by (auto simp: valid_config_def output_config_def right_angle_def)

text \<open>What the writer may hand to the device: the frame it received, with a header that states the
  output size, or what the encoder produced for a complete picture of the output size.\<close>

definition device_picture :: "encoder \<Rightarrow> Config \<Rightarrow> SourceFrame \<Rightarrow> bytes \<Rightarrow> bool" where
  "device_picture encode c frame jpeg \<longleftrightarrow>
     (jpeg = payload frame \<and> frame_kind frame = kJpeg
        \<and> ReadJpegDimensions jpeg = Some (Inr (nat (cfg_width c), nat (cfg_height c))))
     \<or> (\<exists>px chunks. length px = nat (3 * (cfg_width c * cfg_height c))
        \<and> encode (cfg_width c) (cfg_height c) px kInternalJpegQuality = (chunks, True)
        \<and> jpeg = concat chunks)"

lemma encode_nv21_result:
  assumes "output_config c" "int (length nv21) = cfg_width c * cfg_height c * 3 div 2"
  shows "\<exists>r. encode_nv21 encode c nv21 dims = Some r \<and>
    (case r of
       Inl e \<Rightarrow> True
     | Inr (jpeg, dims') \<Rightarrow> dims' = dims \<and> (\<exists>px chunks.
         length px = nat (3 * (cfg_width c * cfg_height c))
         \<and> encode (cfg_width c) (cfg_height c) px kInternalJpegQuality = (chunks, True)
         \<and> jpeg = concat chunks))"
proof -
  have c: "cfg_width c = 1280" "cfg_height c = 720" using assms(1) by (simp_all add: output_config_def)
  let ?px = "raster 720 1280 (\<lambda>y x. pixel_rgb (nv21_pixel nv21 1280 720 (int x, int y)))"
  have len: "length ?px = nat (3 * (1280 * 720))"
    unfolding length_raster [where k = 3, OF length_pixel_rgb] by simp
  have j: "Nv21ToJpeg encode nv21 1280 720 kInternalJpegQuality (Some []) =
    (case encode 1280 720 ?px kInternalJpegQuality of
       (chunks, True) \<Rightarrow> finished (concat chunks) None
     | (chunks, False) \<Rightarrow> refused ''NV21 JPEG encode failed'' (Some []) None)"
    using assms(2) c Nv21ToJpeg_encodes [of 1280 720 nv21 kInternalJpegQuality encode "[]"]
    by (simp add: kInternalJpegQuality_def)
  obtain chunks ok where e: "encode 1280 720 ?px kInternalJpegQuality = (chunks, ok)" by fastforce
  show ?thesis
  proof (cases ok)
    case True
    then have "encode_nv21 encode c nv21 dims = Some (Inr (concat chunks, dims))"
      unfolding encode_nv21_def c j e by simp
    then show ?thesis using len e True c by auto
  next
    case False
    then have "encode_nv21 encode c nv21 dims = Some (Inl ''NV21 JPEG encode failed'')"
      unfolding encode_nv21_def c j e by simp
    then show ?thesis by simp
  qed
qed

lemma convert_frame_result:
  assumes "decoder_ok decode" "output_config c"
  shows "\<exists>r. convert_frame decode reason encode c frame = Some r \<and>
    (case r of Inl e \<Rightarrow> True | Inr (jpeg, dims) \<Rightarrow> device_picture encode c frame jpeg)"
proof (cases "frame_kind frame")
  case kJpeg
  obtain r where r: "ReadJpegDimensions (payload frame) = Some r" using ReadJpegDimensions_result by blast
  show ?thesis
  proof (cases "passes_through c r")
    case True
    then have "ReadJpegDimensions (payload frame) = Some (Inr (nat (cfg_width c), nat (cfg_height c)))"
      using r by (auto simp: passes_through_def nat_int split: sum.splits)
    then show ?thesis using True r kJpeg by (simp add: convert_frame_def device_picture_def)
  next
    case False
    obtain t where t: "TransformJpegToNv21 decode reason (payload frame) (options_of c) (Some []) = Some t"
      "outcome_of t = Inr () \<Longrightarrow> int (length (the (contents t))) = cfg_width c * cfg_height c * 3 div 2"
      using TransformJpegToNv21_total [OF assms(1), of reason "payload frame" "options_of c" "Some []"]
      by (elim exE conjE) (auto simp: options_of_def split: sum.splits)
    show ?thesis
    proof (cases "outcome_of t")
      case (Inl e)
      then show ?thesis using False r t(1) kJpeg by (simp add: convert_frame_def)
    next
      case (Inr u)
      then have "convert_frame decode reason encode c frame =
          encode_nv21 encode c (the (contents t)) (case source_size t of Some dims \<Rightarrow> dims | None \<Rightarrow> (0, 0))"
        using False r t(1) kJpeg by (simp add: convert_frame_def)
      then show ?thesis
        using encode_nv21_result [OF assms(2) t(2), of encode] Inr
        by (fastforce simp: device_picture_def split: sum.splits)
    qed
  qed
next
  case kNv21
  have "\<exists>t. TransformNv21 (payload frame) (frame_width frame) (frame_height frame) (options_of c) (Some []) = Some t
      \<and> (outcome_of t = Inr () \<longrightarrow> int (length (the (contents t))) = cfg_width c * cfg_height c * 3 div 2)"
    using TransformNv21_outcome [of "Some []" "payload frame" "frame_width frame" "frame_height frame" "options_of c"]
    by (auto simp: options_of_def split: if_splits)
  then obtain t where t: "TransformNv21 (payload frame) (frame_width frame) (frame_height frame) (options_of c) (Some []) = Some t"
    "outcome_of t = Inr () \<Longrightarrow> int (length (the (contents t))) = cfg_width c * cfg_height c * 3 div 2"
    by blast
  show ?thesis
  proof (cases "outcome_of t")
    case (Inl e)
    then show ?thesis using t(1) kNv21 by (simp add: convert_frame_def)
  next
    case (Inr u)
    then have "convert_frame decode reason encode c frame =
        encode_nv21 encode c (the (contents t)) (frame_width frame, frame_height frame)"
      using t(1) kNv21 by (simp add: convert_frame_def)
    then show ?thesis
      using encode_nv21_result [OF assms(2) t(2), of encode] Inr
      by (fastforce simp: device_picture_def split: sum.splits)
  qed
qed

subsection \<open>The placeholder\<close>

lemma raster_const: "raster h w (\<lambda>_ _. replicate k a) = replicate (k * (w * h)) a"
proof (rule replicate_eqI)
  show "length (raster h w (\<lambda>_ _. replicate k a)) = k * (w * h)" by (rule length_raster) simp
  show "\<And>b. b \<in> set (raster h w (\<lambda>_ _. replicate k a)) \<Longrightarrow> b = a" by (auto simp: raster_def split: if_splits)
qed

text \<open>A picture whose luma bytes are equal and whose chroma bytes are equal.\<close>

definition flat_nv21 :: "nat \<Rightarrow> nat \<Rightarrow> byte \<Rightarrow> byte \<Rightarrow> bytes" where
  "flat_nv21 w h a b = replicate (w * h) a @ replicate (w * h * 3 div 2 - w * h) b"

lemma flat_nv21_of:
  assumes "even w" "even h"
  shows "nv21_of w h (\<lambda>_ _. a) (\<lambda>_ _. b) (\<lambda>_ _. b) = flat_nv21 w h a b"
proof -
  have "raster h w (\<lambda>_ _. [a]) = replicate (w * h) a" using raster_const [of h w 1 a] by simp
  moreover have "raster (h div 2) (w div 2) (\<lambda>_ _. [b, b]) = replicate (w * h * 3 div 2 - w * h) b"
    using raster_const [of "h div 2" "w div 2" 2 b] half_area [OF assms] by (simp add: numeral_2_eq_2)
  ultimately show ?thesis by (simp add: nv21_of_def flat_nv21_def)
qed

lemma nth_flat_nv21:
  "i < w * h \<Longrightarrow> flat_nv21 w h a b ! i = a"
  "w * h \<le> i \<Longrightarrow> i < w * h * 3 div 2 \<Longrightarrow> flat_nv21 w h a b ! i = b"
  by (simp_all add: flat_nv21_def nth_append)

lemma TransformNv21_flat:
  assumes "0 < w" "even w" "0 < h" "even h" "w * h \<le> 3840 * 2160"
    and "width options = int w" "height options = int h" "right_angle (rotation options)"
  shows "TransformNv21 (flat_nv21 w h a b) (int w) (int h) options (Some old) = finished (flat_nv21 w h a b) None"
proof -
  have len: "length (flat_nv21 w h a b) = w * h * 3 div 2" by (simp add: flat_nv21_def)
  have "int (w * h) \<le> int (3840 * 2160)" using assms(5) by (simp only: of_nat_le_iff)
  then have args: "nv21_arguments (flat_nv21 w h a b) (int w) (int h) options"
    using assms len by (simp add: nv21_arguments_def zdiv_int)
  show ?thesis
  proof (cases "copies_input (int w) (int h) options")
    case True
    then show ?thesis using args by (intro TransformNv21_copy)
  next
    case False
    have "luma_index (int w) (int h) options y x < w * h" for y x
      using luma_index_less [of "int w" "int h" options y x] assms(1,3) by simp
    moreover have "chroma_index (int w) (int h) options y x + 1 < w * h * 3 div 2" for y x
      using chroma_index_less [of "int w" "int h" options y x] assms(1-4) by simp
    moreover have "w * h \<le> chroma_index (int w) (int h) options y x" for y x
      by (simp add: chroma_index_def Let_def)
    ultimately show ?thesis
      using TransformNv21_runs [OF args False, of old] assms(2,4,6,7)
      by (simp add: nth_flat_nv21 flat_nv21_of le_Suc_eq Suc_lessD less_imp_le)
  qed
qed

lemma flat_pixel:
  assumes "even w" "even h" "x < w" "y < h"
  shows "nv21_pixel (flat_nv21 w h a b) (int w) (int h) (int x, int y) = (a, b, b)"
  using nv21_pixel_of [OF assms, of "\<lambda>_ _. a" "\<lambda>_ _. b" "\<lambda>_ _. b"] assms(1,2) by (simp add: flat_nv21_of)

lemma black_pixel: "pixel_rgb (16, 128, 128) = [0, 0, 0]"
  by (simp add: nv21_rgb_def ClampByte_def clamp_def)

lemma convert_placeholder:
  assumes "output_config c"
  shows "convert_frame decode reason encode c (placeholder_frame c now) =
    (case encode 1280 720 (replicate (3 * (1280 * 720)) 0) 90 of
       (chunks, True) \<Rightarrow> Some (Inr (concat chunks, 1280, 720))
     | (chunks, False) \<Rightarrow> Some (Inl ''NV21 JPEG encode failed''))"
proof -
  have c: "cfg_width c = int 1280" "cfg_height c = int 720" "right_angle (cfg_rotation c)"
    using assms by (simp_all add: output_config_def)
  let ?flat = "flat_nv21 1280 720 16 128"
  have p: "payload (placeholder_frame c now) = ?flat" "frame_kind (placeholder_frame c now) = kNv21"
    "frame_width (placeholder_frame c now) = int 1280" "frame_height (placeholder_frame c now) = int 720"
    by (simp_all add: placeholder_frame_def Let_def flat_nv21_def c)
  have t: "TransformNv21 ?flat (int 1280) (int 720) (options_of c) (Some []) = finished ?flat None"
    by (rule TransformNv21_flat) (simp_all add: options_of_def c)
  have len: "length ?flat = 1280 * 720 * 3 div 2" by (simp add: flat_nv21_def)
  have "even (1280 :: nat)" "even (720 :: nat)" "replicate 3 (0 :: byte) = [0, 0, 0]"
    by (simp_all add: numeral_3_eq_3)
  then have "raster 720 1280 (\<lambda>y x. pixel_rgb (nv21_pixel ?flat (int 1280) (int 720) (int x, int y))) =
      raster 720 1280 (\<lambda>_ _. replicate 3 0)"
    using black_pixel by (intro raster_cong) (simp only: flat_pixel)
  also have "\<dots> = replicate (3 * (1280 * 720)) 0" by (rule raster_const)
  finally have px: "raster 720 1280 (\<lambda>y x. pixel_rgb (nv21_pixel ?flat 1280 720 (int x, int y))) =
      replicate (3 * (1280 * 720)) 0" by simp
  have j: "Nv21ToJpeg encode ?flat 1280 720 90 (Some []) =
    (case encode 1280 720 (replicate (3 * (1280 * 720)) 0) 90 of
       (chunks, True) \<Rightarrow> finished (concat chunks) None
     | (chunks, False) \<Rightarrow> refused ''NV21 JPEG encode failed'' (Some []) None)"
    using Nv21ToJpeg_encodes [of 1280 720 ?flat 90 encode "[]"] len unfolding px [symmetric] by simp
  obtain chunks ok where e: "encode 1280 720 (replicate (3 * (1280 * 720)) 0) 90 = (chunks, ok)" by fastforce
  show ?thesis
    unfolding convert_frame_def p encode_nv21_def SourceFormat.case c t e
    using j unfolding e by (cases ok) (simp_all add: kInternalJpegQuality_def)
qed

text \<open>C37. Whatever frame a producer delivers, its conversion for the device stays inside every buffer and
  ends in an error or in a picture fit for the device: the received JPEG itself, only when its
  header states the output size and nothing is to be turned, or what the encoder wrote for a
  complete picture of the output size.\<close>

theorem convert_frame_sound:
  assumes "decoder_ok decode" "output_config c"
  shows "\<exists>r. convert_frame decode reason encode c frame = Some r \<and>
    (case r of Inl e \<Rightarrow> True | Inr (jpeg, dims) \<Rightarrow> device_picture encode c frame jpeg)"
  using assms by (rule convert_frame_result)

lemma convert_frame_sound_witness:
  "\<exists>r. convert_frame (\<lambda>_. None) None (\<lambda>w h px q. ([[1], [2]], True)) Config_default
      (placeholder_frame Config_default 5) = Some r"
proof -
  have "decoder_ok (\<lambda>_. None)" "output_config Config_default"
    by (simp_all add: decoder_ok_def output_config_def Config_default_def right_angle_def)
  from convert_frame_sound [OF this] show ?thesis by blast
qed

text \<open>The frame that \<open>Start\<close> publishes before any source delivers (luma 16, chroma 128) reaches the encoder,
  for every rotation and mirror setting, as a picture of 1280 times 720 black pixels.\<close>

theorem placeholder_is_black:
  assumes "output_config c"
  shows "convert_frame decode reason encode c (placeholder_frame c now) =
    (case encode 1280 720 (replicate (3 * (1280 * 720)) 0) 90 of
       (chunks, True) \<Rightarrow> Some (Inr (concat chunks, 1280, 720))
     | (chunks, False) \<Rightarrow> Some (Inl ''NV21 JPEG encode failed''))"
  using assms by (rule convert_placeholder)

lemma placeholder_is_black_witness:
  "convert_frame (\<lambda>_. None) None (\<lambda>w h px q. ([[0xff, 0xd8], [1]], hd px = 0))
      (Config_default\<lparr>cfg_rotation := 90, cfg_mirror := True\<rparr>)
      (placeholder_frame (Config_default\<lparr>cfg_rotation := 90, cfg_mirror := True\<rparr>) 5) =
    Some (Inr ([0xff, 0xd8, 1], 1280, 720))"
proof -
  have "output_config (Config_default\<lparr>cfg_rotation := 90, cfg_mirror := True\<rparr>)"
    by (simp add: output_config_def Config_default_def right_angle_def)
  moreover have "hd (replicate (3 * (1280 * 720)) (0 :: byte)) = 0" by (rule hd_replicate) simp
  ultimately show ?thesis by (simp add: placeholder_is_black del: replicate.simps)
qed

end
