(* ===== verification/Engine_Steps.thy ===== *)
theory Engine_Steps
  imports Writer
begin

section \<open>The engine's threads together\<close>

text \<open>
  The control thread (\<open>Start\<close>, \<open>Stop\<close>), the writer thread, the source thread and any number of pushing
  clients share the \<open>Engine\<close>. A step is one stretch of one thread between two releases of the
  mutex, in any order the guards allow. Beside the engine the state has the locals of the writer,
  the pushes that have passed their check and not yet published, the clock, and counters that
  no code reads (they are set to zero where \<open>Start\<close> resets the status) to say what became of each frame.
\<close>

datatype writer_phase = Absent | Starting | Waiting | Taken | Converted

record Counts =
  published :: nat  \<comment> \<open>frames accepted by \<open>PublishFrame\<close>\<close>
  rejected :: nat   \<comment> \<open>frames it refused\<close>
  taken :: nat      \<comment> \<open>generations the writer picked up\<close>
  skipped :: nat    \<comment> \<open>generations it passed over\<close>
  failed :: nat     \<comment> \<open>conversions that failed\<close>
  delivered :: nat  \<comment> \<open>whole frames the device accepted\<close>
  seen :: nat       \<comment> \<open>the newest generation picked up\<close>
  started_at :: int

definition Counts_zero :: "int \<Rightarrow> Counts" where
  "Counts_zero now = \<lparr>published = 0, rejected = 0, taken = 0, skipped = 0, failed = 0,
     delivered = 0, seen = 0, started_at = now\<rparr>"

record System =
  engine :: Engine
  writer :: Writer
  phase :: writer_phase
  source_alive :: bool
  in_flight :: "SourceFrame list"
  clock :: int
  started :: bool
  counts :: Counts

definition System_new :: "int \<Rightarrow> System" where
  "System_new now = \<lparr>engine = Engine_new, writer = Writer_new now, phase = Absent,
     source_alive = False, in_flight = [], clock = now, started = False, counts = Counts_zero now\<rparr>"

subsection \<open>The stretches\<close>

definition accepts :: "SourceFrame \<Rightarrow> bool" where
  "accepts frame \<longleftrightarrow> 4 \<le> length (payload frame) \<and> length (payload frame) \<le> kMaxFrameBytes"

definition publish_step :: "SourceFrame \<Rightarrow> System \<Rightarrow> System" where
  "publish_step frame s = s\<lparr>engine := PublishFrame (clock s) frame (engine s),
     counts := (if accepts frame then (counts s)\<lparr>published := published (counts s) + 1\<rparr>
                else (counts s)\<lparr>rejected := rejected (counts s) + 1\<rparr>)\<rparr>"

definition take_step :: "System \<Rightarrow> System" where
  "take_step s = (let (e, w) = writer_take (engine s) (writer s); n = published (counts s) + 1 in
     s\<lparr>engine := e, writer := w, phase := Taken,
       counts := (if n = seen (counts s) then counts s
                  else (counts s)\<lparr>seen := n, taken := taken (counts s) + 1,
                         skipped := skipped (counts s) + (n - seen (counts s) - 1)\<rparr>)\<rparr>)"

definition convert_step ::
  "decoder \<Rightarrow> string option \<Rightarrow> encoder \<Rightarrow> System \<Rightarrow> System option" where
  "convert_step decode reason encode s = do {
     (e, w) \<leftarrow> writer_convert decode reason encode (engine s) (writer s);
     Some (s\<lparr>engine := e, writer := w, phase := Converted,
       counts := (case taken_frame (writer s) of
           None \<Rightarrow> counts s
         | Some frame \<Rightarrow>
             if taken_generation (writer s) \<noteq> consumed_generation (writer s)
                \<and> (\<exists>m. convert_frame decode reason encode (eng_config (engine s)) frame = Some (Inl m))
             then (counts s)\<lparr>failed := failed (counts s) + 1\<rparr> else counts s)\<rparr>) }"

definition deliver_step ::
  "(int \<Rightarrow> string) \<Rightarrow> device_event list \<Rightarrow> System \<Rightarrow> System option" where
  "deliver_step strerror events s = do {
     (e, w, rest) \<leftarrow> writer_deliver strerror (clock s) events (engine s) (writer s);
     Some (s\<lparr>engine := e, writer := w, phase := Waiting,
       counts := (if output_jpeg (writer s) \<noteq> []
            \<and> V4l2Sink_Write strerror (output_jpeg (writer s)) (sink (engine s)) events = Some (Inr (), rest)
          then (counts s)\<lparr>delivered := delivered (counts s) + 1\<rparr> else counts s)\<rparr>) }"

definition start_step :: "Engine \<Rightarrow> System \<Rightarrow> System" where
  "start_step e s = s\<lparr>engine := e, phase := Starting, source_alive := source_thread e,
     started := True, counts := Counts_zero (clock s)\<rparr>"

text \<open>
  A \<open>Start\<close> that fails behind the joins: the status is new only when the device was opened. When only the
  source thread cannot be created, the writer already runs (\<open>source_not_created\<close>) until \<open>Start\<close> stops it again.
\<close>

definition failed_start_step :: "bool \<Rightarrow> Engine \<Rightarrow> System \<Rightarrow> System" where
  "failed_start_step opened e s = s\<lparr>engine := e, started := started s \<or> opened,
     counts := (if opened then Counts_zero (clock s) else counts s)\<rparr>"

inductive engine_step ::
  "decoder \<Rightarrow> string option \<Rightarrow> encoder \<Rightarrow> (int \<Rightarrow> string) \<Rightarrow> System \<Rightarrow> System \<Rightarrow> bool"
  for decode reason encode strerror where
  time_passes: "clock s \<le> t \<Longrightarrow> engine_step decode reason encode strerror s (s\<lparr>clock := t\<rparr>)"
| start_succeeds: "phase s = Absent \<Longrightarrow> \<not> source_alive s \<Longrightarrow>
    Engine_Start k (clock s) writer_exception source_exception config (engine s) = Some (Inr (), e) \<Longrightarrow>
    engine_step decode reason encode strerror s (start_step e s)"
| start_fails: "phase s = Absent \<Longrightarrow> \<not> source_alive s \<Longrightarrow> Validate config = Inr () \<Longrightarrow>
    Engine_Start k (clock s) writer_exception None config (engine s) = Some (Inl message, e) \<Longrightarrow>
    opened = (\<exists>sk. V4l2Sink_Open k (cfg_video_device config) (cfg_width config) (cfg_height config)
      (cfg_fps config) (of_nat kMaxFrameBytes) (sink (Engine_Stop (engine s))) = Some (Inr (), sk)) \<Longrightarrow>
    engine_step decode reason encode strerror s (failed_start_step opened e s)"
| source_not_created: "phase s = Absent \<Longrightarrow> \<not> source_alive s \<Longrightarrow>
    Engine_Start k (clock s) None None config (engine s) = Some (Inr (), e) \<Longrightarrow> source_thread e \<Longrightarrow>
    engine_step decode reason encode strerror s (start_step (e\<lparr>source_thread := False\<rparr>) s)"
| stop_requested: "engine_step decode reason encode strerror s
    (s\<lparr>engine := (engine s)\<lparr>stop_requested := True\<rparr>\<rparr>)"
| stop_finishes: "phase s = Absent \<Longrightarrow> \<not> source_alive s \<Longrightarrow>
    engine_step decode reason encode strerror s (s\<lparr>engine := Engine_Stop (engine s)\<rparr>)"
| writer_begins: "phase s = Starting \<Longrightarrow>
    engine_step decode reason encode strerror s (s\<lparr>writer := Writer_new (clock s), phase := Waiting\<rparr>)"
| writer_takes: "phase s = Waiting \<Longrightarrow> \<not> stop_requested (engine s) \<Longrightarrow>
    next_write (writer s) \<le> clock s \<Longrightarrow> engine_step decode reason encode strerror s (take_step s)"
| writer_converts: "phase s = Taken \<Longrightarrow> convert_step decode reason encode s = Some s' \<Longrightarrow>
    engine_step decode reason encode strerror s s'"
| writer_delivers: "phase s = Converted \<Longrightarrow> deliver_step strerror events s = Some s' \<Longrightarrow>
    engine_step decode reason encode strerror s s'"
| writer_leaves: "phase s = Waiting \<Longrightarrow> stop_requested (engine s) \<Longrightarrow>
    engine_step decode reason encode strerror s (s\<lparr>phase := Absent\<rparr>)"
| push_checked: "producer_active (engine s) = Inr () \<Longrightarrow>
    push_frame now jpeg = Inr frame \<or> push_nv21_frame now nv21 w h time_ns = Inr frame \<Longrightarrow>
    engine_step decode reason encode strerror s (s\<lparr>in_flight := frame # in_flight s\<rparr>)"
| push_published: "in_flight s = before @ frame # behind \<Longrightarrow>
    engine_step decode reason encode strerror s
      (publish_step frame (s\<lparr>in_flight := before @ behind\<rparr>))"
| source_delivers: "source_alive s \<Longrightarrow> frame_kind frame = kJpeg \<Longrightarrow>
    engine_step decode reason encode strerror s (publish_step frame s)"
| source_reports: "source_alive s \<Longrightarrow>
    engine_step decode reason encode strerror s (s\<lparr>engine := (engine s)\<lparr>status :=
      (status (engine s))\<lparr>source_connected := is_connected, status_error := message\<rparr>\<rparr>\<rparr>)"
| source_leaves: "source_alive s \<Longrightarrow>
    engine_step decode reason encode strerror s (s\<lparr>source_alive := False\<rparr>)"

inductive reachable ::
  "decoder \<Rightarrow> string option \<Rightarrow> encoder \<Rightarrow> (int \<Rightarrow> string) \<Rightarrow> System \<Rightarrow> bool"
  for decode reason encode strerror where
  initial: "reachable decode reason encode strerror (System_new now)"
| after_step: "reachable decode reason encode strerror s \<Longrightarrow>
    engine_step decode reason encode strerror s s' \<Longrightarrow> reachable decode reason encode strerror s'"

subsection \<open>What \<open>Start\<close> leaves behind\<close>

lemma Engine_Start_success:
  assumes "Engine_Start k now wx sx config e = Some (Inr (), e')" "sink_ok (sink e)"
  shows "valid_config config \<and> eng_config e' = config \<and> latest_generation e' = 1
    \<and> latest_frame e' = Some (placeholder_frame config now) \<and> \<not> stop_requested e'
    \<and> running (status e') \<and> frames_received (status e') = 0 \<and> frames_written (status e') = 0
    \<and> frames_dropped (status e') = 0 \<and> writer_thread e' \<and> sink_ok (sink e') \<and> 0 \<le> fd (sink e')
    \<and> (source_thread e' \<longleftrightarrow> cfg_url config \<noteq> ''push://local'' \<and> cfg_url config \<noteq> ''push://placeholder'')"
proof -
  have v: "Validate config = Inr ()" using assms(1) by (auto simp: Engine_Start_def split: sum.splits)
  have ok: "sink_ok (sink (Engine_Stop e))" using assms(2) by (simp add: Engine_Stop_def Close_ok)
  obtain r sk where o: "V4l2Sink_Open k (cfg_video_device config) (cfg_width config) (cfg_height config)
      (cfg_fps config) (of_nat kMaxFrameBytes) (sink (Engine_Stop e)) = Some (r, sk)"
    using assms(1) v by (auto simp: Engine_Start_def Let_def bind_eq_Some_conv)
  note s = Open_outcome [OF ok o]
  show ?thesis
    using assms(1) v o s Validate_valid [of config]
    by (cases r; cases wx; cases sx)
      (auto simp: Engine_Start_def Let_def Engine_Stop_def RuntimeStatus_default_def split: if_splits)
qed

lemma Engine_Start_failure:
  assumes "Engine_Start k now wx None config e = Some (Inl message, e')" "sink_ok (sink e)"
    "Validate config = Inr ()"
  shows "sink_ok (sink e') \<and> \<not> running (status e') \<and> latest_frame e' = None \<and> stop_requested e' \<and>
    (if \<exists>sk. V4l2Sink_Open k (cfg_video_device config) (cfg_width config) (cfg_height config)
      (cfg_fps config) (of_nat kMaxFrameBytes) (sink (Engine_Stop e)) = Some (Inr (), sk)
     then latest_generation e' = 1 \<and> frames_received (status e') = 0 \<and> frames_written (status e') = 0
       \<and> frames_dropped (status e') = 0
     else latest_generation e' = latest_generation e \<and> frames_received (status e') = frames_received (status e)
       \<and> frames_written (status e') = frames_written (status e)
       \<and> frames_dropped (status e') = frames_dropped (status e))"
proof -
  have ok: "sink_ok (sink (Engine_Stop e))" using assms(2) by (simp add: Engine_Stop_def Close_ok)
  obtain r sk where o: "V4l2Sink_Open k (cfg_video_device config) (cfg_width config) (cfg_height config)
      (cfg_fps config) (of_nat kMaxFrameBytes) (sink (Engine_Stop e)) = Some (r, sk)"
    using assms(1,3) by (auto simp: Engine_Start_def Let_def bind_eq_Some_conv)
  note s = Open_outcome [OF ok o]
  show ?thesis
    using assms(1,3) o s
    by (cases r; cases wx)
      (auto simp: Engine_Start_def Let_def Engine_Stop_def RuntimeStatus_default_def Close_ok split: if_splits)
qed

subsection \<open>Invariants\<close>

text \<open>The counters of the status agree with what happened.\<close>

definition counting :: "System \<Rightarrow> bool" where
  "counting s \<longleftrightarrow> (let st = status (engine s); c = counts s in
     frames_received st = of_nat (published c)
     \<and> frames_dropped st = of_nat (skipped c + failed c + rejected c)
     \<and> frames_written st = of_nat (delivered c))"

text \<open>The writer's view of the generations.\<close>

definition viewing :: "System \<Rightarrow> bool" where
  "viewing s \<longleftrightarrow> (let c = counts s; w = writer s in
     latest_generation (engine s) = of_nat (published c + (if started s then 1 else 0))
     \<and> seen c = taken c + skipped c \<and> seen c \<le> published c + 1
     \<and> (phase s \<noteq> Absent \<longrightarrow> started s)
     \<and> (phase s = Starting \<longrightarrow> seen c = 0)
     \<and> (phase s \<in> {Waiting, Converted} \<longrightarrow> consumed_generation w = of_nat (seen c))
     \<and> (phase s = Taken \<longrightarrow> taken_generation w = of_nat (seen c) \<and> taken_frame w \<noteq> None))"

definition owning :: "System \<Rightarrow> bool" where
  "owning s \<longleftrightarrow> sink_ok (sink (engine s))
     \<and> (phase s \<noteq> Absent \<longrightarrow> output_config (eng_config (engine s)) \<and> latest_frame (engine s) \<noteq> None)
     \<and> (source_alive s \<longrightarrow> started s) \<and> (in_flight s \<noteq> [] \<longrightarrow> started s)
     \<and> (running (status (engine s)) \<longrightarrow> started s)"

text \<open>When a device paced exactly would accept the next frame.\<close>

definition due :: "Counts \<Rightarrow> int \<Rightarrow> int" where
  "due c i = started_at c + int (delivered c) * i"

lemma due_simps [simp]:
  "due (c\<lparr>published := n\<rparr>) i = due c i" "due (c\<lparr>rejected := n\<rparr>) i = due c i"
  "due (c\<lparr>taken := n\<rparr>) i = due c i" "due (c\<lparr>skipped := n\<rparr>) i = due c i"
  "due (c\<lparr>failed := n\<rparr>) i = due c i" "due (c\<lparr>seen := n\<rparr>) i = due c i"
  "due (c\<lparr>delivered := delivered c + 1\<rparr>) i = due c i + i"
  "due (c\<lparr>delivered := Suc (delivered c)\<rparr>) i = due c i + i"
  "delivered c = 0 \<Longrightarrow> due c i = started_at c" "due (Counts_zero now) i = now"
  by (simp_all add: due_def algebra_simps Counts_zero_def)

definition pacing :: "System \<Rightarrow> bool" where
  "pacing s \<longleftrightarrow> (let c = counts s; i = frame_interval (eng_config (engine s)) in
     started_at c \<le> clock s
     \<and> (phase s \<in> {Waiting, Taken, Converted} \<longrightarrow> due c i \<le> next_write (writer s))
     \<and> (phase s \<in> {Taken, Converted} \<longrightarrow> next_write (writer s) \<le> clock s)
     \<and> (phase s = Starting \<longrightarrow> delivered c = 0)
     \<and> (phase s \<noteq> Absent \<longrightarrow> 0 < i \<and> due c i - i \<le> clock s))"

text \<open>Fewer publications than the generation counter can hold.\<close>

definition countable_session :: "System \<Rightarrow> bool" where
  "countable_session s \<longleftrightarrow> published (counts s) + 2 < 2 ^ 64"

lemma counting_new: "counting (System_new now)"
  by (simp add: counting_def System_new_def Engine_new_def RuntimeStatus_default_def Counts_zero_def)

lemma owning_new: "owning (System_new now)"
  by (simp add: owning_def System_new_def Engine_new_def RuntimeStatus_default_def new_ok)

lemma pacing_new: "pacing (System_new now)"
  by (simp add: pacing_def System_new_def Counts_zero_def)

lemma viewing_new: "viewing (System_new now)"
  by (simp add: viewing_def System_new_def Counts_zero_def Engine_new_def)

named_theorems stretch_defs

lemmas [stretch_defs] = counting_def viewing_def owning_def pacing_def Let_def

lemma PublishFrame_cases:
  "PublishFrame now frame e =
    (if accepts frame
     then e\<lparr>latest_frame := Some frame, latest_generation := latest_generation e + 1,
            status := (status e)\<lparr>frames_received := frames_received (status e) + 1,
              source_connected := True, last_frame_time := now\<rparr>\<rparr>
     else e\<lparr>status := (status e)\<lparr>frames_dropped := frames_dropped (status e) + 1,
             status_error := ''received frame is empty or exceeds safety limit''\<rparr>\<rparr>)"
  by (auto simp: PublishFrame_def accepts_def)

lemma publish_counting: "counting s \<Longrightarrow> counting (publish_step f s)"
  by (auto simp: stretch_defs publish_step_def PublishFrame_cases)

lemma publish_viewing: "viewing s \<Longrightarrow> viewing (publish_step f s)"
  by (auto simp: stretch_defs publish_step_def PublishFrame_cases)

lemma publish_owning: "owning s \<Longrightarrow> owning (publish_step f s)"
  by (auto simp: stretch_defs publish_step_def PublishFrame_cases)

lemma publish_pacing: "pacing s \<Longrightarrow> pacing (publish_step f s)"
  by (auto simp: stretch_defs publish_step_def PublishFrame_cases)

text \<open>Taking a frame: the words of the generations compare as the numbers they stand for.\<close>

lemma take_counting:
  assumes "counting s" "viewing s" "phase s = Waiting" "countable_session s"
  shows "counting (take_step s)"
proof -
  let ?c = "counts s"
  have st: "started s" "seen ?c \<le> published ?c + 1" "consumed_generation (writer s) = of_nat (seen ?c)"
    using assms(2,3) by (auto simp: viewing_def Let_def)
  then have g: "latest_generation (engine s) = of_nat (published ?c + 1)"
    using assms(2) by (simp add: viewing_def Let_def)
  have small: "published ?c + 2 < 2 ^ 64" using assms(4) by (simp add: countable_session_def)
  have "consumed_generation (writer s) + 1 = (of_nat (seen ?c + 1) :: u64)" by (simp add: st)
  then have cmp: "consumed_generation (writer s) + 1 < latest_generation (engine s) \<longleftrightarrow>
      seen ?c + 1 < published ?c + 1"
    unfolding g using small st(2) by (simp add: word_less_nat_alt unat_of_nat del: of_nat_add of_nat_Suc)
  have gap: "latest_generation (engine s) - consumed_generation (writer s) - 1 =
      (of_nat (published ?c + 1 - seen ?c - 1) :: u64)" if "seen ?c + 1 < published ?c + 1"
    using that unfolding g st(3) by (simp add: of_nat_diff)
  show ?thesis
  proof (cases "seen ?c + 1 < published ?c + 1")
    case True
    then show ?thesis
      using assms(1) cmp gap by (simp add: take_step_def writer_take_def counting_def Let_def)
  next
    case False
    then show ?thesis
      using assms(1) cmp by (auto simp: take_step_def writer_take_def counting_def Let_def)
  qed
qed

lemma take_viewing:
  assumes "viewing s" "owning s" "phase s = Waiting"
  shows "viewing (take_step s)"
proof -
  let ?c = "counts s"
  have v: "started s" "seen ?c = taken ?c + skipped ?c" "seen ?c \<le> published ?c + 1"
    "latest_generation (engine s) = of_nat (published ?c + 1)"
    using assms(1,3) by (simp_all add: viewing_def Let_def)
  have f: "latest_frame (engine s) \<noteq> None" using assms(2,3) by (simp add: owning_def)
  obtain e w where t: "writer_take (engine s) (writer s) = (e, w)" by fastforce
  then have w: "latest_generation e = of_nat (published ?c + 1)" "taken_frame w \<noteq> None"
    "taken_generation w = of_nat (published ?c + 1)"
    using v(4) f by (auto simp: writer_take_def Let_def split: if_splits)
  show ?thesis
  proof (cases "published ?c + 1 = seen ?c")
    case True
    then have "taken_generation w = of_nat (seen ?c)" using w(3) by (simp only:)
    moreover have "latest_generation e = of_nat (published ?c + 1)" by (rule w(1))
    ultimately show ?thesis
      using v(1-3) w(2) True unfolding take_step_def t by (simp add: viewing_def Let_def del: of_nat_add)
  next
    case False
    then show ?thesis using v w unfolding take_step_def t by (simp add: viewing_def Let_def)
  qed
qed

lemma take_owning: "owning s \<Longrightarrow> phase s = Waiting \<Longrightarrow> owning (take_step s)"
  by (auto simp: stretch_defs take_step_def writer_take_def)

lemma take_pacing: "pacing s \<Longrightarrow> phase s = Waiting \<Longrightarrow> next_write (writer s) \<le> clock s \<Longrightarrow> pacing (take_step s)"
  by (auto simp: stretch_defs take_step_def writer_take_def)

lemma writer_convert_cases:
  assumes "writer_convert decode reason encode e w = Some (e', w')"
  obtains
    (idle) "taken_frame w = None \<or> taken_generation w = consumed_generation w" "e' = e" "w' = w"
  | (good) frame jpeg dw dh where "taken_frame w = Some frame" "taken_generation w \<noteq> consumed_generation w"
      "convert_frame decode reason encode (eng_config e) frame = Some (Inr (jpeg, dw, dh))"
      "e' = e\<lparr>status := (status e)\<lparr>source_width := dw, source_height := dh,
         frame_format := ''mjpeg'', status_error := []\<rparr>\<rparr>"
      "w' = w\<lparr>output_jpeg := jpeg, consumed_generation := taken_generation w\<rparr>"
  | (bad) frame message where "taken_frame w = Some frame" "taken_generation w \<noteq> consumed_generation w"
      "convert_frame decode reason encode (eng_config e) frame = Some (Inl message)"
      "e' = e\<lparr>status := (status e)\<lparr>status_error := message, frames_dropped := frames_dropped (status e) + 1\<rparr>\<rparr>"
      "w' = w\<lparr>output_jpeg := [], consumed_generation := taken_generation w\<rparr>"
proof (cases "taken_frame w = None \<or> taken_generation w = consumed_generation w")
  case True
  then show ?thesis using assms by (intro idle) (auto simp: writer_convert_def split: option.splits)
next
  case False
  then obtain frame where f: "taken_frame w = Some frame" "taken_generation w \<noteq> consumed_generation w"
    by auto
  then obtain r where r: "convert_frame decode reason encode (eng_config e) frame = Some r"
    using assms by (auto simp: writer_convert_def bind_eq_Some_conv)
  show ?thesis
  proof (cases r)
    case (Inl message)
    then show ?thesis using assms f r by (intro bad) (auto simp: writer_convert_def)
  next
    case (Inr p)
    then obtain jpeg dw dh where "r = Inr (jpeg, dw, dh)" by (cases p) auto
    then show ?thesis using assms f r by (intro good) (auto simp: writer_convert_def)
  qed
qed

lemma convert_invariants:
  assumes "convert_step decode reason encode s = Some s'" "phase s = Taken"
  shows "(counting s \<longrightarrow> counting s') \<and> (viewing s \<longrightarrow> viewing s') \<and> (owning s \<longrightarrow> owning s')
    \<and> (pacing s \<longrightarrow> pacing s')"
proof -
  obtain e w where c: "writer_convert decode reason encode (engine s) (writer s) = Some (e, w)"
    and s': "s' = s\<lparr>engine := e, writer := w, phase := Converted,
       counts := (case taken_frame (writer s) of
           None \<Rightarrow> counts s
         | Some frame \<Rightarrow>
             if taken_generation (writer s) \<noteq> consumed_generation (writer s)
                \<and> (\<exists>m. convert_frame decode reason encode (eng_config (engine s)) frame = Some (Inl m))
             then (counts s)\<lparr>failed := failed (counts s) + 1\<rparr> else counts s)\<rparr>"
    using assms(1) by (auto simp: convert_step_def bind_eq_Some_conv)
  from c show ?thesis
  proof (cases rule: writer_convert_cases)
    case idle
    then have "s' = s\<lparr>phase := Converted\<rparr>" unfolding s' by (auto split: option.split)
    then show ?thesis using assms(2) idle by (auto simp: stretch_defs)
  next
    case (good frame jpeg dw dh)
    then show ?thesis using assms(2) unfolding s' by (simp add: stretch_defs)
  next
    case (bad frame message)
    then show ?thesis using assms(2) unfolding s' by (simp add: stretch_defs)
  qed
qed

lemma writer_deliver_cases:
  assumes "writer_deliver strerror now events e w = Some (e', w', rest)"
  obtains
    (empty) "output_jpeg w = []" "e' = e" "w' = w\<lparr>next_write := now + frame_interval (eng_config e)\<rparr>"
  | (failed) message where "output_jpeg w \<noteq> []"
      "V4l2Sink_Write strerror (output_jpeg w) (sink e) events = Some (Inl message, rest)"
      "e' = e\<lparr>status := (status e)\<lparr>sink_open := False, status_error := message\<rparr>\<rparr>"
      "w' = w\<lparr>next_write := now + frame_interval (eng_config e)\<rparr>"
  | (written) "output_jpeg w \<noteq> []"
      "V4l2Sink_Write strerror (output_jpeg w) (sink e) events = Some (Inr (), rest)"
      "e' = e\<lparr>status := (status e)\<lparr>sink_open := True, frames_written := frames_written (status e) + 1\<rparr>\<rparr>"
      "w' = w\<lparr>next_write := next_write w'\<rparr>"
      "next_write w + frame_interval (eng_config e) \<le> next_write w' \<or>
       next_write w' = now + frame_interval (eng_config e)"
proof (cases "output_jpeg w = []")
  case True
  then show ?thesis using assms by (intro empty) (auto simp: writer_deliver_def Let_def)
next
  case False
  then obtain r where r: "V4l2Sink_Write strerror (output_jpeg w) (sink e) events = Some (r, rest)"
    using assms by (cases "V4l2Sink_Write strerror (output_jpeg w) (sink e) events")
      (auto simp: writer_deliver_def Let_def split: sum.splits)
  show ?thesis
  proof (cases r)
    case (Inl message)
    then show ?thesis using assms False r by (intro failed) (auto simp: writer_deliver_def Let_def)
  next
    case (Inr u)
    then show ?thesis using assms False r by (intro written) (auto simp: writer_deliver_def Let_def)
  qed
qed

lemma deliver_invariants:
  assumes "deliver_step strerror events s = Some s'" "phase s = Converted"
  shows "(counting s \<longrightarrow> counting s') \<and> (viewing s \<longrightarrow> viewing s') \<and> (owning s \<longrightarrow> owning s')
    \<and> (owning s \<and> pacing s \<longrightarrow> pacing s')"
proof -
  obtain e w rest where c: "writer_deliver strerror (clock s) events (engine s) (writer s) = Some (e, w, rest)"
    and s': "s' = s\<lparr>engine := e, writer := w, phase := Waiting,
       counts := (if output_jpeg (writer s) \<noteq> []
            \<and> V4l2Sink_Write strerror (output_jpeg (writer s)) (sink (engine s)) events = Some (Inr (), rest)
          then (counts s)\<lparr>delivered := delivered (counts s) + 1\<rparr> else counts s)\<rparr>"
    using assms(1) by (auto simp: deliver_step_def bind_eq_Some_conv)
  have i: "owning s \<Longrightarrow> frame_interval (eng_config (engine s)) = 33333333"
    using assms(2) by (simp add: owning_def frame_interval_def output_config_def)
  from c show ?thesis
  proof (cases rule: writer_deliver_cases)
    case empty
    then show ?thesis using assms(2) i unfolding s' by (auto simp: stretch_defs)
  next
    case (failed message)
    then show ?thesis using assms(2) i unfolding s' by (auto simp: stretch_defs)
  next
    case written
    have w: "consumed_generation w = consumed_generation (writer s)" by (subst written(4)) simp
    have e: "eng_config e = eng_config (engine s)" using written(3) by simp
    have "counting s \<longrightarrow> counting s'" "viewing s \<longrightarrow> viewing s'" "owning s \<longrightarrow> owning s'"
      using assms(2) written(1-3) w unfolding s' by (simp_all add: stretch_defs)
    moreover have "owning s \<and> pacing s \<longrightarrow> pacing s'"
      using assms(2) i written(1-3,5) e unfolding s' by (auto simp: pacing_def Let_def)
    ultimately show ?thesis by blast
  qed
qed

definition engine_inv :: "System \<Rightarrow> bool" where
  "engine_inv s \<longleftrightarrow> viewing s \<and> owning s \<and> pacing s \<and> (countable_session s \<longrightarrow> counting s)"

lemma countable_publish: "countable_session (publish_step f s) \<Longrightarrow> countable_session s"
  by (auto simp: countable_session_def publish_step_def split: if_splits)

text \<open>Parts of the state that an invariant does not read.\<close>

lemma frame_simps:
  "viewing (s\<lparr>clock := t\<rparr>) = viewing s" "counting (s\<lparr>clock := t\<rparr>) = counting s"
  "owning (s\<lparr>clock := t\<rparr>) = owning s" "countable_session (s\<lparr>clock := t\<rparr>) = countable_session s"
  "viewing (s\<lparr>in_flight := fs\<rparr>) = viewing s" "counting (s\<lparr>in_flight := fs\<rparr>) = counting s"
  "pacing (s\<lparr>in_flight := fs\<rparr>) = pacing s" "countable_session (s\<lparr>in_flight := fs\<rparr>) = countable_session s"
  "viewing (s\<lparr>source_alive := b\<rparr>) = viewing s" "counting (s\<lparr>source_alive := b\<rparr>) = counting s"
  "pacing (s\<lparr>source_alive := b\<rparr>) = pacing s" "countable_session (s\<lparr>source_alive := b\<rparr>) = countable_session s"
  by (simp_all add: viewing_def counting_def owning_def pacing_def countable_session_def)

lemma engine_frame_simps:
  assumes "latest_generation e = latest_generation (engine s)" "eng_config e = eng_config (engine s)"
    "frames_received (status e) = frames_received (status (engine s))"
    "frames_dropped (status e) = frames_dropped (status (engine s))"
    "frames_written (status e) = frames_written (status (engine s))"
  shows "viewing (s\<lparr>engine := e\<rparr>) = viewing s" "counting (s\<lparr>engine := e\<rparr>) = counting s"
    "pacing (s\<lparr>engine := e\<rparr>) = pacing s" "countable_session (s\<lparr>engine := e\<rparr>) = countable_session s"
  using assms by (simp_all add: viewing_def counting_def pacing_def countable_session_def Let_def)

lemma clock_pacing: "pacing s \<Longrightarrow> clock s \<le> t \<Longrightarrow> pacing (s\<lparr>clock := t\<rparr>)"
  by (auto simp: pacing_def Let_def)

lemma start_inv:
  assumes "Engine_Start k (clock s) wx sx config (engine s) = Some (Inr (), e)" "engine_inv s"
    "phase s = Absent"
  shows "engine_inv (start_step e s)"
proof -
  have "sink_ok (sink (engine s))" using assms(2) by (simp add: engine_inv_def owning_def)
  from Engine_Start_success [OF assms(1) this] show ?thesis
    using valid_output_config [of config]
    by (simp add: engine_inv_def stretch_defs start_step_def Counts_zero_def frame_interval_def output_config_def)
qed

lemma failed_start_inv:
  assumes "Engine_Start k (clock s) wx None config (engine s) = Some (Inl message, e)" "engine_inv s"
    "phase s = Absent" "\<not> source_alive s" "Validate config = Inr ()"
    "opened = (\<exists>sk. V4l2Sink_Open k (cfg_video_device config) (cfg_width config) (cfg_height config)
      (cfg_fps config) (of_nat kMaxFrameBytes) (sink (Engine_Stop (engine s))) = Some (Inr (), sk))"
  shows "engine_inv (failed_start_step opened e s)"
proof -
  have ok: "sink_ok (sink (engine s))" using assms(2) by (simp add: engine_inv_def owning_def)
  note f = Engine_Start_failure [OF assms(1) ok assms(5), folded assms(6)]
  show ?thesis
  proof (cases opened)
    case True
    then show ?thesis
      using f assms(3,4) by (simp add: engine_inv_def stretch_defs failed_start_step_def Counts_zero_def)
  next
    case False
    then show ?thesis
      using f assms(2-4)
      by (auto simp: engine_inv_def stretch_defs failed_start_step_def countable_session_def)
  qed
qed

lemma publish_inv: "engine_inv s \<Longrightarrow> engine_inv (publish_step f s)"
  using publish_counting publish_viewing publish_owning publish_pacing countable_publish
  unfolding engine_inv_def by blast

lemma engine_step_inv:
  assumes "engine_step decode reason encode strerror s s'" "engine_inv s"
  shows "engine_inv s'"
  using assms
proof (induction rule: engine_step.induct)
  case (time_passes s t)
  then show ?case
    using clock_pacing [of s t] by (simp add: engine_inv_def frame_simps)
next
  case (start_succeeds s k wx sx config e)
  then show ?case by (intro start_inv)
next
  case (start_fails s config k wx message e opened)
  then show ?case by (intro failed_start_inv)
next
  case (source_not_created s k config e)
  then have "engine_inv (start_step e s)" by (intro start_inv)
  moreover have "viewing (start_step (e\<lparr>source_thread := False\<rparr>) s) = viewing (start_step e s)"
    "counting (start_step (e\<lparr>source_thread := False\<rparr>) s) = counting (start_step e s)"
    "pacing (start_step (e\<lparr>source_thread := False\<rparr>) s) = pacing (start_step e s)"
    "countable_session (start_step (e\<lparr>source_thread := False\<rparr>) s) = countable_session (start_step e s)"
    "owning (start_step e s) \<Longrightarrow> owning (start_step (e\<lparr>source_thread := False\<rparr>) s)"
    by (simp_all add: stretch_defs start_step_def countable_session_def)
  ultimately show ?case by (simp add: engine_inv_def)
next
  case (stop_requested s)
  have "owning (s\<lparr>engine := (engine s)\<lparr>stop_requested := True\<rparr>\<rparr>) = owning s" by (simp add: owning_def)
  then show ?case using stop_requested by (simp add: engine_inv_def engine_frame_simps)
next
  case (stop_finishes s)
  have "owning s \<Longrightarrow> owning (s\<lparr>engine := Engine_Stop (engine s)\<rparr>)"
    using stop_finishes(1,2) by (simp add: owning_def Engine_Stop_def Close_ok)
  then show ?case using stop_finishes(3) by (simp add: engine_inv_def engine_frame_simps Engine_Stop_def)
next
  case (writer_begins s)
  let ?s = "s\<lparr>writer := Writer_new (clock s), phase := Waiting\<rparr>"
  have "viewing s \<Longrightarrow> viewing ?s" "owning s \<Longrightarrow> owning ?s" "counting ?s = counting s"
    "countable_session ?s = countable_session s"
    using writer_begins(1) by (auto simp: viewing_def owning_def counting_def countable_session_def Writer_new_def Let_def)
  moreover have "pacing s \<Longrightarrow> pacing ?s"
    using writer_begins(1) by (simp add: pacing_def Writer_new_def Let_def)
  ultimately show ?case using writer_begins(2) by (simp add: engine_inv_def)
next
  case (writer_takes s)
  moreover have "countable_session (take_step s) \<Longrightarrow> countable_session s"
    by (auto simp: take_step_def countable_session_def Let_def split: prod.splits if_splits)
  ultimately show ?case
    by (auto simp: engine_inv_def take_viewing take_owning take_pacing take_counting)
next
  case (writer_converts s s')
  have "published (counts s') = published (counts s)"
    using writer_converts(2) by (auto simp: convert_step_def bind_eq_Some_conv split: option.split)
  then show ?case
    using writer_converts convert_invariants [OF writer_converts(2,1)]
    by (auto simp: engine_inv_def countable_session_def)
next
  case (writer_delivers s events s')
  have "published (counts s') = published (counts s)"
    using writer_delivers(2) by (auto simp: deliver_step_def bind_eq_Some_conv)
  then show ?case
    using writer_delivers deliver_invariants [OF writer_delivers(2,1)]
    by (auto simp: engine_inv_def countable_session_def)
next
  case (writer_leaves s)
  let ?s = "s\<lparr>phase := Absent\<rparr>"
  have "viewing s \<Longrightarrow> viewing ?s" "owning s \<Longrightarrow> owning ?s" "counting ?s = counting s"
    "countable_session ?s = countable_session s" "pacing s \<Longrightarrow> pacing ?s"
    by (simp_all add: viewing_def owning_def counting_def countable_session_def pacing_def Let_def)
  then show ?case using writer_leaves(3) by (simp add: engine_inv_def)
next
  case (push_checked s now jpeg frame nv21 w h time_ns)
  have "running (status (engine s))" using push_checked(1) by (auto simp: producer_active_def split: if_splits)
  then have "owning s \<Longrightarrow> owning (s\<lparr>in_flight := frame # in_flight s\<rparr>)" by (simp add: owning_def)
  then show ?case using push_checked(3) by (simp add: engine_inv_def frame_simps)
next
  case (push_published s before frame behind)
  have "owning s \<Longrightarrow> owning (s\<lparr>in_flight := before @ behind\<rparr>)"
    using push_published(1) by (simp add: owning_def)
  then have "engine_inv (s\<lparr>in_flight := before @ behind\<rparr>)"
    using push_published(2) by (simp add: engine_inv_def frame_simps)
  then show ?case by (rule publish_inv)
next
  case (source_delivers s frame)
  then show ?case by (intro publish_inv)
next
  case (source_reports s message is_connected)
  let ?e = "(engine s)\<lparr>status := (status (engine s))\<lparr>source_connected := is_connected, status_error := message\<rparr>\<rparr>"
  have "owning s \<Longrightarrow> owning (s\<lparr>engine := ?e\<rparr>)" by (simp add: owning_def)
  then show ?case using source_reports(2) by (simp add: engine_inv_def engine_frame_simps)
next
  case (source_leaves s)
  have "owning s \<Longrightarrow> owning (s\<lparr>source_alive := False\<rparr>)" by (simp add: owning_def)
  then show ?case using source_leaves(2) by (simp add: engine_inv_def frame_simps)
qed

lemma reachable_inv: "reachable decode reason encode strerror s \<Longrightarrow> engine_inv s"
proof (induction rule: reachable.induct)
  case (initial now)
  show ?case
    using counting_new owning_new pacing_new viewing_new by (simp add: engine_inv_def)
next
  case (after_step s s')
  then show ?case by (blast intro: engine_step_inv)
qed

text \<open>Three steps of the writer: it takes, converts and delivers.\<close>

lemma writer_round:
  assumes reach: "reachable decode reason encode strerror s" and fresh: "countable_session s" "seen (counts s) \<le> published (counts s)"
    and ready: "phase s = Waiting" "\<not> stop_requested (engine s)" "next_write (writer s) \<le> clock s"
    and frame: "latest_frame (engine s) = Some f"
      "convert_frame decode reason encode (eng_config (engine s)) f = Some (Inr (jpeg, w, h))" "jpeg \<noteq> []"
    and device: "0 \<le> fd (sink (engine s))"
  shows "\<exists>s'. (engine_step decode reason encode strerror)\<^sup>*\<^sup>* s s' \<and> phase s' = Waiting
    \<and> output_jpeg (writer s') = jpeg \<and> delivered (counts s') = delivered (counts s) + 1
    \<and> seen (counts s') = published (counts s) + 1"
proof -
  have inv: "viewing s" "owning s" using reachable_inv [OF reach] by (simp_all add: engine_inv_def)
  have gen: "consumed_generation (writer s) = of_nat (seen (counts s))"
    "latest_generation (engine s) = of_nat (published (counts s) + 1)"
    using inv(1) ready(1) by (auto simp: viewing_def Let_def)
  have new: "latest_generation (engine s) \<noteq> consumed_generation (writer s)"
  proof
    assume "latest_generation (engine s) = consumed_generation (writer s)"
    then have "unat (of_nat (published (counts s) + 1) :: u64) = unat (of_nat (seen (counts s)) :: u64)"
      unfolding gen by simp
    then show False
      using fresh by (simp add: unat_of_nat countable_session_def del: of_nat_add of_nat_Suc)
  qed
  define s1 where "s1 = take_step s"
  obtain e1 w1 where t: "writer_take (engine s) (writer s) = (e1, w1)" by fastforce
  then have t1: "taken_frame w1 = Some f" "taken_generation w1 \<noteq> consumed_generation w1"
    "eng_config e1 = eng_config (engine s)" "sink e1 = sink (engine s)"
    using frame(1) new by (auto simp: writer_take_def Let_def split: if_splits)
  have s1: "engine s1 = e1" "writer s1 = w1" "phase s1 = Taken" "seen (counts s1) = published (counts s) + 1"
    "delivered (counts s1) = delivered (counts s)"
    using fresh(2) t by (auto simp: s1_def take_step_def Let_def)
  have step1: "engine_step decode reason encode strerror s s1"
    unfolding s1_def using ready by (rule engine_step.writer_takes)
  obtain s2 where c: "convert_step decode reason encode s1 = Some s2"
    "phase s2 = Converted" "output_jpeg (writer s2) = jpeg" "sink (engine s2) = sink (engine s)"
    "counts s2 = counts s1"
    using frame(2) t1 s1 by (simp add: convert_step_def writer_convert_def)
  have step2: "engine_step decode reason encode strerror s1 s2"
    using s1(3) c(1) by (rule engine_step.writer_converts)
  have wr: "V4l2Sink_Write strerror jpeg (sink (engine s)) [Wrote (int (length jpeg)) 0] = Some (Inr (), [])"
    using device by (simp add: V4l2Sink_Write_def)
  obtain s3 where d: "deliver_step strerror [Wrote (int (length jpeg)) 0] s2 = Some s3"
    "phase s3 = Waiting" "output_jpeg (writer s3) = jpeg" "delivered (counts s3) = delivered (counts s2) + 1"
    "seen (counts s3) = seen (counts s2)"
    using wr frame(3) c by (simp add: deliver_step_def writer_deliver_def Let_def)
  have step3: "engine_step decode reason encode strerror s2 s3"
    using c(2) d(1) by (rule engine_step.writer_delivers)
  have "(engine_step decode reason encode strerror)\<^sup>*\<^sup>* s s3"
    using step1 step2 step3 by (meson converse_rtranclp_into_rtranclp rtranclp.rtrancl_refl)
  then show ?thesis using d c(5) s1 by (intro exI [of _ s3]) simp
qed

subsection \<open>Properties of every interleaving\<close>

text \<open>C1. In every reachable state, however producers, writer, source and control thread interleave, the
  published counters are exact: received frames are the accepted publications, every generation
  the writer has passed was either taken or counted as dropped, dropped is exactly the skipped,
  unconvertible and refused frames, and written is the number of frames the device took whole.\<close>

theorem engine_accounting:
  assumes "reachable decode reason encode strerror s" "countable_session s"
  shows "frames_received (status (engine s)) = of_nat (published (counts s))
    \<and> frames_dropped (status (engine s)) =
        of_nat (skipped (counts s) + failed (counts s) + rejected (counts s))
    \<and> frames_written (status (engine s)) = of_nat (delivered (counts s))
    \<and> taken (counts s) + skipped (counts s) = seen (counts s)
    \<and> seen (counts s) \<le> published (counts s) + 1"
  using reachable_inv [OF assms(1)] assms(2)
  by (simp add: engine_inv_def counting_def viewing_def Let_def)

text \<open>C16. The device is never flooded: while the writer thread exists, the n-th accepted frame of a session
  comes at the earliest n - 1 frame intervals of a thirtieth of a second behind the start.\<close>

theorem engine_rate_limited:
  assumes "reachable decode reason encode strerror s" "phase s \<noteq> Absent"
  shows "(int (delivered (counts s)) - 1) * 33333333 \<le> clock s - started_at (counts s)"
proof -
  have "owning s" "pacing s" using reachable_inv [OF assms(1)] by (simp_all add: engine_inv_def)
  then have "due (counts s) 33333333 - 33333333 \<le> clock s"
    using assms(2) by (simp add: owning_def pacing_def frame_interval_def output_config_def Let_def)
  then show ?thesis by (simp add: due_def algebra_simps)
qed

text \<open>C15. At most one descriptor of the device is ever open and the engine holds it, through failed
  starts, thread failures and stops; and a writer never runs without a frame to show or with an
  output size other than the fixed one.\<close>

theorem engine_resources:
  assumes "reachable decode reason encode strerror s"
  shows "open_descriptors (sink (engine s)) = (if 0 \<le> fd (sink (engine s)) then [fd (sink (engine s))] else [])
    \<and> (phase s = Absent \<or> output_config (eng_config (engine s)) \<and> latest_frame (engine s) \<noteq> None)"
  using reachable_inv [OF assms] by (auto simp: engine_inv_def owning_def sink_ok_def)


subsection \<open>A run\<close>

definition local_config :: Config where
  "local_config = Config_default\<lparr>cfg_url := ''push://local''\<rparr>"

lemma local_config_valid: "Validate local_config = Inr ()"
  unfolding Validate_valid
  by (auto simp: valid_config_def local_config_def Config_default_def is_control_def code_def)

lemma local_output_config: "output_config local_config"
  using local_config_valid Validate_valid valid_output_config by blast

definition local_engine :: Engine where
  "local_engine = \<lparr>eng_config = local_config,
     status = RuntimeStatus_default\<lparr>running := True, sink_open := True, source_label := ''LOCAL_SAF'',
       last_frame_time := 0\<rparr>,
     latest_frame = Some (placeholder_frame local_config 0), latest_generation = 1,
     stop_requested = False, source_thread = False, writer_thread = True,
     sink = \<lparr>fd = 7, open_descriptors = [7]\<rparr>\<rparr>"

lemma loopback_device:
  "V4l2Sink_Open loopback_kernel device 1280 720 30 bound V4l2Sink_new =
    Some (Inr (), \<lparr>fd = 7, open_descriptors = [7]\<rparr>)"
  by (simp add: V4l2Sink_Open_def loopback_kernel_def V4l2Sink_new_def V4l2Sink_Close_def EINTR_def
      ENOTTY_def effective_capabilities_def V4L2_CAP_DEVICE_CAPS_def V4L2_CAP_VIDEO_OUTPUT_def
      V4L2_CAP_READWRITE_def requested_format_def)

lemma local_start:
  "Engine_Start loopback_kernel 0 None None local_config Engine_new = Some (Inr (), local_engine)"
proof -
  have c: "cfg_width local_config = 1280" "cfg_height local_config = 720" "cfg_fps local_config = 30"
    "cfg_url local_config = ''push://local''"
    by (simp_all add: local_config_def Config_default_def)
  have s: "sink (Engine_Stop Engine_new) = V4l2Sink_new"
    by (simp add: Engine_Stop_def Engine_new_def V4l2Sink_new_def V4l2Sink_Close_def)
  show ?thesis
    unfolding Engine_Start_def local_config_valid sum.case Let_def s c loopback_device bind.bind_lunit prod.case
    by (simp add: local_engine_def label_of_url_def RuntimeStatus_default_def Engine_Stop_def)
qed

definition local_system :: System where
  "local_system = (start_step local_engine (System_new 0))\<lparr>writer := Writer_new 0, phase := Waiting\<rparr>"

lemma local_reachable: "reachable decode reason encode strerror local_system"
proof -
  let ?s = "start_step local_engine (System_new 0)"
  have "engine_step decode reason encode strerror (System_new 0) ?s"
    using local_start by (intro engine_step.start_succeeds) (simp_all add: System_new_def)
  then have "reachable decode reason encode strerror ?s"
    by (rule reachable.after_step [OF reachable.initial])
  moreover have "engine_step decode reason encode strerror ?s (?s\<lparr>writer := Writer_new (clock ?s), phase := Waiting\<rparr>)"
    by (rule engine_step.writer_begins) (simp add: start_step_def)
  ultimately show ?thesis
    unfolding local_system_def by (auto intro: reachable.after_step simp: start_step_def System_new_def)
qed

lemma local_system_simps:
  "phase local_system = Waiting" "engine local_system = local_engine" "writer local_system = Writer_new 0"
  "clock local_system = 0" "counts local_system = Counts_zero 0" "in_flight local_system = []"
  "source_alive local_system = False"
  by (simp_all add: local_system_def start_step_def System_new_def local_engine_def)

lemma local_countable: "countable_session local_system"
  by (simp add: countable_session_def local_system_simps Counts_zero_def)

lemma engine_accounting_witness:
  "frames_received (status (engine local_system)) = of_nat (published (counts local_system))"
  using engine_accounting [OF local_reachable local_countable] by blast

lemma engine_rate_limited_witness: "(int (delivered (counts local_system)) - 1) * 33333333 \<le> 0"
  using engine_rate_limited [OF local_reachable] by (simp add: local_system_simps Counts_zero_def)

lemma engine_resources_witness: "open_descriptors (sink (engine local_system)) = [7]"
  using engine_resources [OF local_reachable] by (simp add: local_system_simps local_engine_def)


text \<open>The check and the publication of a pushed frame are two critical sections: there is an interleaving
  in which a frame is published behind \<open>Stop\<close>, and the engine then reports a connected source
  and holds a frame although it is not running.\<close>

theorem push_races_with_stop:
  "\<exists>s. reachable decode reason encode strerror s \<and> phase s = Absent \<and> \<not> running (status (engine s))
    \<and> source_connected (status (engine s)) \<and> latest_frame (engine s) \<noteq> None
    \<and> fd (sink (engine s)) < 0"
proof -
  let ?step = "engine_step decode reason encode strerror"
  let ?frame = "\<lparr>payload = [1, 2, 3, 4], frame_kind = kJpeg, frame_width = 0, frame_height = 0,
    presentation_time_ns = 0, arrival_time_ns = 0\<rparr>"
  define s1 where "s1 = local_system\<lparr>in_flight := [?frame]\<rparr>"
  define s2 where "s2 = s1\<lparr>engine := (engine s1)\<lparr>stop_requested := True\<rparr>\<rparr>"
  define s3 where "s3 = s2\<lparr>phase := Absent\<rparr>"
  define s4 where "s4 = s3\<lparr>engine := Engine_Stop (engine s3)\<rparr>"
  define s5 where "s5 = publish_step ?frame (s4\<lparr>in_flight := [] @ []\<rparr>)"
  have r1: "reachable decode reason encode strerror s1"
  proof (rule reachable.after_step [OF local_reachable])
    show "?step local_system s1"
      using engine_step.push_checked [of local_system 0 "[1, 2, 3, 4]" ?frame "[]" 0 0 0 decode reason encode strerror]
      by (simp add: s1_def local_system_simps local_engine_def producer_active_def local_config_def
          push_frame_def kMaxFrameBytes_def RuntimeStatus_default_def)
  qed
  have r2: "reachable decode reason encode strerror s2"
    unfolding s2_def by (rule reachable.after_step [OF r1 engine_step.stop_requested])
  have r3: "reachable decode reason encode strerror s3"
    unfolding s3_def by (rule reachable.after_step [OF r2 engine_step.writer_leaves])
      (simp_all add: s2_def s1_def local_system_simps)
  have r4: "reachable decode reason encode strerror s4"
    unfolding s4_def by (rule reachable.after_step [OF r3 engine_step.stop_finishes])
      (simp_all add: s3_def s2_def s1_def local_system_simps)
  have "reachable decode reason encode strerror s5"
    unfolding s5_def by (rule reachable.after_step [OF r4 engine_step.push_published])
      (simp add: s4_def s3_def s2_def s1_def)
  moreover have "phase s5 = Absent \<and> \<not> running (status (engine s5)) \<and> source_connected (status (engine s5))
    \<and> latest_frame (engine s5) \<noteq> None \<and> fd (sink (engine s5)) < 0"
  proof -
    have e4: "engine s4 = Engine_Stop (local_engine\<lparr>stop_requested := True\<rparr>)" "phase s4 = Absent"
      by (simp_all add: s4_def s3_def s2_def s1_def local_system_simps)
    have e5: "engine s5 = PublishFrame (clock s4) ?frame (engine s4)" "phase s5 = Absent"
      by (simp_all add: s5_def publish_step_def e4(2))
    have acc: "accepts ?frame" by (simp add: accepts_def kMaxFrameBytes_def)
    show ?thesis
      unfolding e5 PublishFrame_cases if_P [OF acc] e4
      by (simp add: Engine_Stop_def V4l2Sink_Close_def local_engine_def)
  qed
  ultimately show ?thesis by blast
qed

end
