(* ===== verification/Engine_Shutdown.thy ===== *)
theory Engine_Shutdown
  imports Engine_Steps
begin

section \<open>Stopping a session\<close>

text \<open>
  \<open>Stop\<close> joins the threads, so it returns only if they leave their loops. The writer's phases are ordered by
  the steps it still needs to leave once a stop is requested.
\<close>

subsection \<open>The order of the phases\<close>

fun steps_left :: "writer_phase \<Rightarrow> nat" where
  "steps_left Absent = 0"
| "steps_left Waiting = 1"
| "steps_left Starting = 2"
| "steps_left Converted = 3"
| "steps_left Taken = 4"

lemma steps_left_inject [simp]: "steps_left p = steps_left q \<longleftrightarrow> p = q"
  by (cases p; cases q) simp_all

instantiation writer_phase :: linorder
begin

definition less_eq_writer_phase :: "writer_phase \<Rightarrow> writer_phase \<Rightarrow> bool" where
  "p \<le> q \<longleftrightarrow> steps_left p \<le> steps_left q"

definition less_writer_phase :: "writer_phase \<Rightarrow> writer_phase \<Rightarrow> bool" where
  "p < q \<longleftrightarrow> steps_left p < steps_left q"

instance
  by standard (auto simp: less_eq_writer_phase_def less_writer_phase_def simp flip: steps_left_inject)

end

instance writer_phase :: wellorder
proof
  fix P :: "writer_phase \<Rightarrow> bool" and p
  assume step: "\<And>p. (\<And>q. q < p \<Longrightarrow> P q) \<Longrightarrow> P p"
  show "P p"
    by (induction p rule: measure_induct_rule [of steps_left]) (auto intro: step simp: less_writer_phase_def)
qed

lemma phase_order [simp]:
  "\<not> p < Absent" "Absent < p \<longleftrightarrow> p \<noteq> Absent" "Waiting < Starting" "Converted < Taken" "Waiting < Converted"
  by (cases p; simp add: less_writer_phase_def)+

subsection \<open>Steps while a stop is requested\<close>

text \<open>A stop request stands until the next start, and the writer can only come closer to its end.\<close>

lemma convert_step_phase:
  "convert_step decode reason encode s = Some s' \<Longrightarrow>
    phase s' = Converted \<and> stop_requested (engine s') = stop_requested (engine s) \<and> source_alive s' = source_alive s"
  using writer_convert_cases by (fastforce simp: convert_step_def bind_eq_Some_conv)

lemma deliver_step_phase:
  "deliver_step strerror events s = Some s' \<Longrightarrow>
    phase s' = Waiting \<and> stop_requested (engine s') = stop_requested (engine s) \<and> source_alive s' = source_alive s"
  using writer_deliver_cases by (fastforce simp: deliver_step_def bind_eq_Some_conv)

lemma step_while_stopping:
  assumes "engine_step decode reason encode strerror s s'" "stop_requested (engine s)" "phase s \<noteq> Absent"
  shows "stop_requested (engine s') \<and> phase s' \<le> phase s"
  using assms
  by (induction rule: engine_step.induct)
    (auto simp: publish_step_def PublishFrame_cases order_less_imp_le dest: convert_step_phase deliver_step_phase)

subsection \<open>The writer is never stuck\<close>

lemma write_can_end: "frame \<noteq> [] \<Longrightarrow> \<exists>events r. V4l2Sink_Write strerror frame sk events = Some (r, [])"
proof (cases "0 \<le> fd sk")
  case True
  moreover assume "frame \<noteq> []"
  ultimately
  have "V4l2Sink_Write strerror frame sk [Wrote (int (length frame)) 0] = Some (Inr (), [])"
    by (simp add: V4l2Sink_Write_def)
  then show ?thesis by blast
next
  case False
  then have "\<exists>r. V4l2Sink_Write strerror frame sk [] = Some (r, [])"
    by (auto simp: V4l2Sink_Write_def)
  then show ?thesis by blast
qed

lemma convert_step_defined:
  assumes "decoder_ok decode" "output_config (eng_config (engine s))"
  shows "\<exists>s'. convert_step decode reason encode s = Some s'"
proof (cases "taken_frame (writer s)")
  case None
  then show ?thesis by (simp add: convert_step_def writer_convert_def)
next
  case (Some f)
  obtain r where "convert_frame decode reason encode (eng_config (engine s)) f = Some r"
    using convert_frame_result [OF assms] by blast
  then show ?thesis using Some by (cases r) (auto simp: convert_step_def writer_convert_def)
qed

lemma deliver_step_defined: "\<exists>events s'. deliver_step strerror events s = Some s'"
proof (cases "output_jpeg (writer s) = []")
  case True
  then show ?thesis by (simp add: deliver_step_def writer_deliver_def Let_def)
next
  case False
  obtain events r where "V4l2Sink_Write strerror (output_jpeg (writer s)) (sink (engine s)) events = Some (r, [])"
    using write_can_end [OF False] by blast
  then have "\<exists>s'. deliver_step strerror events s = Some s'"
    using False by (cases r; simp add: deliver_step_def writer_deliver_def Let_def)
  then show ?thesis by blast
qed

text \<open>In every phase the writer has a step, and behind a stop request one that brings it closer to its end.\<close>

lemma stopping_writer_step:
  assumes "reachable decode reason encode strerror s" "decoder_ok decode"
    and "stop_requested (engine s)" "phase s \<noteq> Absent"
  shows "\<exists>s'. engine_step decode reason encode strerror s s' \<and> phase s' < phase s \<and> source_alive s' = source_alive s"
proof (cases "phase s")
  case Absent
  then show ?thesis using assms(4) by simp
next
  case Starting
  then show ?thesis
    by (intro exI [of _ "s\<lparr>writer := Writer_new (clock s), phase := Waiting\<rparr>"]) (simp add: writer_begins)
next
  case Waiting
  then show ?thesis using assms(3)
    by (intro exI [of _ "s\<lparr>phase := Absent\<rparr>"]) (simp add: writer_leaves)
next
  case Taken
  have "output_config (eng_config (engine s))"
    using reachable_inv [OF assms(1)] assms(4) by (simp add: engine_inv_def owning_def)
  from convert_step_defined [OF assms(2) this] obtain s' where
    "convert_step decode reason encode s = Some s'" by blast
  then show ?thesis using Taken convert_step_phase [of decode reason encode s s'] by (auto intro: writer_converts)
next
  case Converted
  obtain events s' where "deliver_step strerror events s = Some s'" using deliver_step_defined by blast
  then show ?thesis using Converted deliver_step_phase [of strerror events s s'] by (auto intro: writer_delivers)
qed

lemma reachable_steps:
  "(engine_step decode reason encode strerror)\<^sup>*\<^sup>* s s' \<Longrightarrow> reachable decode reason encode strerror s \<Longrightarrow>
    reachable decode reason encode strerror s'"
  by (induction rule: rtranclp_induct) (auto intro: reachable.after_step)

lemma stopping_writer_leaves:
  assumes "reachable decode reason encode strerror s" "decoder_ok decode" "stop_requested (engine s)"
  shows "\<exists>s'. (engine_step decode reason encode strerror)\<^sup>*\<^sup>* s s' \<and> phase s' = Absent
    \<and> stop_requested (engine s') \<and> source_alive s' = source_alive s"
  using assms
proof (induction "phase s" arbitrary: s rule: less_induct)
  case less
  show ?case
  proof (cases "phase s = Absent")
    case True
    then show ?thesis using less.prems(3) by blast
  next
    case False
    obtain s1 where s1: "engine_step decode reason encode strerror s s1" "phase s1 < phase s"
      "source_alive s1 = source_alive s"
      using stopping_writer_step [OF less.prems(1,2,3) False] by blast
    then have "stop_requested (engine s1)" using step_while_stopping less.prems(3) False by blast
    from less.hyps [OF s1(2) reachable.after_step [OF less.prems(1) s1(1)] less.prems(2) this]
    show ?thesis using s1(1,3) by (auto intro: converse_rtranclp_into_rtranclp)
  qed
qed

subsection \<open>Properties\<close>

text \<open>C23. A stop ends the writer, whatever the other threads do meanwhile: no step of any thread takes the request back or
  brings the writer further from its end, and from every state a step of its own brings it closer; the phases are well
  ordered, so it needs at most four steps, the conversion and the write under way included.\<close>

theorem stopped_writer_descends:
  assumes "reachable decode reason encode strerror s" "decoder_ok decode"
    and "stop_requested (engine s)" "phase s \<noteq> Absent"
  shows "(\<exists>s'. engine_step decode reason encode strerror s s' \<and> phase s' < phase s)
    \<and> (\<forall>s'. engine_step decode reason encode strerror s s' \<longrightarrow> stop_requested (engine s') \<and> phase s' \<le> phase s)
    \<and> steps_left (phase s) \<le> 4"
proof -
  have "steps_left (phase s) \<le> 4" by (cases "phase s") simp_all
  then show ?thesis using stopping_writer_step [OF assms] step_while_stopping assms(3,4) by blast
qed

lemma no_decoder_ok: "decoder_ok (\<lambda>_. None)"
  by (simp add: decoder_ok_def)

lemma stopped_writer_descends_witness:
  "\<exists>s'. engine_step (\<lambda>_. None) None (\<lambda>w h px q. ([], True)) (\<lambda>_. '''')
      (local_system\<lparr>engine := (engine local_system)\<lparr>stop_requested := True\<rparr>\<rparr>) s' \<and> phase s' = Absent"
proof -
  let ?s = "local_system\<lparr>engine := (engine local_system)\<lparr>stop_requested := True\<rparr>\<rparr>"
  let ?step = "engine_step (\<lambda>_. None) None (\<lambda>w h px q. ([], True)) (\<lambda>_. '''')"
  have "reachable (\<lambda>_. None) None (\<lambda>w h px q. ([], True)) (\<lambda>_. '''') ?s"
    using local_reachable engine_step.stop_requested by (rule reachable.after_step)
  then have "(\<exists>s'. ?step ?s s' \<and> phase s' < phase ?s)
      \<and> (\<forall>s'. ?step ?s s' \<longrightarrow> stop_requested (engine s') \<and> phase s' \<le> phase ?s) \<and> steps_left (phase ?s) \<le> 4"
    using no_decoder_ok by (rule stopped_writer_descends) (simp_all add: local_system_simps)
  then obtain s' where "?step ?s s'" "phase s' < Waiting" by (auto simp: local_system_simps)
  then show ?thesis by (cases "phase s'") (auto simp: less_writer_phase_def)
qed

text \<open>\<open>Stop\<close> can always complete: from every reachable state, in the middle of a conversion or a write too, there is a
  run at whose end both threads have left and the engine is stopped with the device closed and no frame kept.\<close>

theorem stop_completes:
  assumes "reachable decode reason encode strerror s" "decoder_ok decode"
  shows "\<exists>s'. (engine_step decode reason encode strerror)\<^sup>*\<^sup>* s s' \<and> phase s' = Absent \<and> \<not> source_alive s'
    \<and> running (status (engine s')) = False \<and> latest_frame (engine s') = None \<and> open_descriptors (sink (engine s')) = []"
proof -
  let ?step = "engine_step decode reason encode strerror"
  let ?s1 = "s\<lparr>engine := (engine s)\<lparr>stop_requested := True\<rparr>\<rparr>"
  have s1: "?step s ?s1" by (rule engine_step.stop_requested)
  then have "reachable decode reason encode strerror ?s1" by (rule reachable.after_step [OF assms(1)])
  from stopping_writer_leaves [OF this assms(2)] obtain s2 where s2: "?step\<^sup>*\<^sup>* ?s1 s2" "phase s2 = Absent"
    by auto
  define s3 where "s3 = s2\<lparr>source_alive := False\<rparr>"
  have "?step\<^sup>*\<^sup>* s2 s3"
  proof (cases "source_alive s2")
    case True
    then show ?thesis unfolding s3_def by (intro r_into_rtranclp source_leaves)
  next
    case False
    then have "s3 = s2" by (simp add: s3_def)
    then show ?thesis by simp
  qed
  moreover have s3: "phase s3 = Absent" "\<not> source_alive s3" using s2(2) by (simp_all add: s3_def)
  moreover have "?step s3 (s3\<lparr>engine := Engine_Stop (engine s3)\<rparr>)" using s3 by (rule stop_finishes)
  ultimately have run: "?step\<^sup>*\<^sup>* s (s3\<lparr>engine := Engine_Stop (engine s3)\<rparr>)"
    using s1 s2(1) by (meson converse_rtranclp_into_rtranclp rtranclp.rtrancl_into_rtrancl rtranclp_trans)
  have "reachable decode reason encode strerror s3"
    using run s1 s2(1) \<open>?step\<^sup>*\<^sup>* s2 s3\<close> assms(1) by (meson converse_rtranclp_into_rtranclp reachable_steps rtranclp_trans)
  then have "sink_ok (sink (engine s3))" using reachable_inv by (auto simp: engine_inv_def owning_def)
  then show ?thesis using run s3
    by (intro exI [of _ "s3\<lparr>engine := Engine_Stop (engine s3)\<rparr>"]) (simp add: Engine_Stop_def Close_closes)
qed

lemma stop_completes_witness:
  "\<exists>s'. (engine_step (\<lambda>_. None) None (\<lambda>w h px q. ([], True)) (\<lambda>_. ''''))\<^sup>*\<^sup>* local_system s'
    \<and> open_descriptors (sink (engine s')) = []"
  using stop_completes [OF local_reachable no_decoder_ok] by blast

end
