(* ===== verification/Writer_Loop.thy ===== *)
theory Writer_Loop
  imports Engine_Shutdown
begin

section \<open>The loop of the writer thread\<close>

text \<open>
  \<open>Engine::WriterLoop\<close> (\<open>engine.cpp\<close>) from its first line to its last, over the three stretches of \<open>Writer\<close>. A
  \<open>writer_round\<close> says how long the waits and the conversion take and what the other threads do to the engine
  whenever the mutex is free; the kernel's answers to the write are \<open>kernel_writes\<close>. A wait with a deadline and a predicate
  returns when the predicate holds or the deadline has passed, so the second wait, whose predicate is the
  stop request, ends a stop or at \<open>next_write\<close> or later.
\<close>

subsection \<open>The code\<close>

type_synonym others = "int \<Rightarrow> Engine \<Rightarrow> Engine"

record writer_round =
  others_in_wait :: others
  wait_time :: nat
  others_in_tick :: others
  late :: nat
  others_converting :: others
  conversion_time :: nat
  others_writing :: others
  kernel_writes :: "device_event list"

text \<open>The second wait: none when the first one lasted to \<open>next_write\<close>.\<close>

definition tick_wait :: "writer_round \<Rightarrow> int \<Rightarrow> Engine \<Rightarrow> Writer \<Rightarrow> bool \<times> int \<times> Engine" where
  "tick_wait r before_tick e w =
     (if before_tick < next_write w then
        let tick = next_write w + int (late r); e = others_in_tick r tick e
        in (stop_requested e, tick, e)
      else (False, before_tick, e))"

fun writer_loop ::
  "decoder \<Rightarrow> string option \<Rightarrow> encoder \<Rightarrow> (int \<Rightarrow> string) \<Rightarrow> writer_round list \<Rightarrow> int \<Rightarrow> Engine \<Rightarrow> Writer
     \<Rightarrow> (Engine \<times> Writer) option" where
  "writer_loop decode reason encode strerror [] now e w = None"
| "writer_loop decode reason encode strerror (r # rounds) now e w =
     (if stop_requested e then Some (e, w)
      else let e = others_in_wait r now e in
      if stop_requested e then Some (e, w)
      else let (stop, tick, e) = tick_wait r (now + int (wait_time r)) e w in
      if stop then Some (e, w)
      else let (e, w) = writer_take e w in do {
        (e, w) \<leftarrow> writer_convert decode reason encode (others_converting r tick e) w;
        let now = tick + int (conversion_time r);
        (e, w, _) \<leftarrow> writer_deliver strerror now (kernel_writes r) (others_writing r now e) w;
        writer_loop decode reason encode strerror rounds now e w })"

definition WriterLoop ::
  "decoder \<Rightarrow> string option \<Rightarrow> encoder \<Rightarrow> (int \<Rightarrow> string) \<Rightarrow> writer_round list \<Rightarrow> int \<Rightarrow> Engine
     \<Rightarrow> (Engine \<times> Writer) option" where
  "WriterLoop decode reason encode strerror rounds now e =
     writer_loop decode reason encode strerror rounds now e (Writer_new now)"

subsection \<open>The loop among the other threads\<close>

text \<open>What the other threads can do: steps that leave the writer where it is.\<close>

definition by_others ::
  "decoder \<Rightarrow> string option \<Rightarrow> encoder \<Rightarrow> (int \<Rightarrow> string) \<Rightarrow> others \<Rightarrow> bool" where
  "by_others decode reason encode strerror f \<longleftrightarrow> (\<forall>s. phase s \<noteq> Absent \<longrightarrow>
     (\<exists>s'. (engine_step decode reason encode strerror)\<^sup>*\<^sup>* s s' \<and> engine s' = f (clock s) (engine s)
        \<and> writer s' = writer s \<and> phase s' = phase s \<and> clock s' = clock s))"

lemma by_othersD:
  assumes "by_others decode reason encode strerror f" "phase s \<noteq> Absent"
  obtains s' where "(engine_step decode reason encode strerror)\<^sup>*\<^sup>* s s'" "engine s' = f (clock s) (engine s)"
    "writer s' = writer s" "phase s' = phase s" "clock s' = clock s"
  using assms unfolding by_others_def by blast

lemma nothing_by_others: "by_others decode reason encode strerror (\<lambda>t e. e)"
  unfolding by_others_def by blast

lemma stop_by_others: "by_others decode reason encode strerror (\<lambda>t e. e\<lparr>stop_requested := True\<rparr>)"
  unfolding by_others_def
proof (intro allI impI)
  fix s :: System
  show "\<exists>s'. (engine_step decode reason encode strerror)\<^sup>*\<^sup>* s s' \<and> engine s' = (engine s)\<lparr>stop_requested := True\<rparr>
      \<and> writer s' = writer s \<and> phase s' = phase s \<and> clock s' = clock s"
    by (intro exI [of _ "s\<lparr>engine := (engine s)\<lparr>stop_requested := True\<rparr>\<rparr>"]) (simp add: r_into_rtranclp stop_requested)
qed

lemma both_by_others:
  assumes "by_others decode reason encode strerror f" "by_others decode reason encode strerror g"
  shows "by_others decode reason encode strerror (\<lambda>t e. g t (f t e))"
  unfolding by_others_def
proof (intro allI impI)
  fix s :: System
  assume "phase s \<noteq> Absent"
  with assms(1) obtain s1 where s1: "(engine_step decode reason encode strerror)\<^sup>*\<^sup>* s s1"
    "engine s1 = f (clock s) (engine s)" "writer s1 = writer s" "phase s1 = phase s" "clock s1 = clock s"
    by (rule by_othersD)
  with \<open>phase s \<noteq> Absent\<close> have "phase s1 \<noteq> Absent" by simp
  with assms(2) obtain s2 where "(engine_step decode reason encode strerror)\<^sup>*\<^sup>* s1 s2"
    "engine s2 = g (clock s1) (engine s1)" "writer s2 = writer s1" "phase s2 = phase s1" "clock s2 = clock s1"
    by (rule by_othersD)
  with s1 show "\<exists>s'. (engine_step decode reason encode strerror)\<^sup>*\<^sup>* s s'
      \<and> engine s' = g (clock s) (f (clock s) (engine s)) \<and> writer s' = writer s \<and> phase s' = phase s \<and> clock s' = clock s"
    by (intro exI [of _ s2]) auto
qed

definition fair_round ::
  "decoder \<Rightarrow> string option \<Rightarrow> encoder \<Rightarrow> (int \<Rightarrow> string) \<Rightarrow> writer_round \<Rightarrow> bool" where
  "fair_round decode reason encode strerror r \<longleftrightarrow>
     list_all (by_others decode reason encode strerror)
       [others_in_wait r, others_in_tick r, others_converting r, others_writing r]"

lemma later_step: "0 \<le> d \<Longrightarrow> engine_step decode reason encode strerror s (s\<lparr>clock := clock s + d\<rparr>)"
  by (rule time_passes) simp

text \<open>The two waits, up to the moment when the newest frame is taken.\<close>

lemma tick_wait_steps:
  assumes "fair_round decode reason encode strerror r" "phase s = Waiting" "clock s \<le> before_tick"
    and "\<not> stop_requested (engine s)" "tick_wait r before_tick (engine s) (writer s) = (stop, tick, e)"
  shows "\<exists>s'. (engine_step decode reason encode strerror)\<^sup>*\<^sup>* s s' \<and> engine s' = e \<and> writer s' = writer s
    \<and> phase s' = Waiting \<and> clock s' = tick \<and> next_write (writer s) \<le> tick \<and> stop = stop_requested e"
proof (cases "before_tick < next_write (writer s)")
  case True
  let ?s = "s\<lparr>clock := next_write (writer s) + int (late r)\<rparr>"
  have "engine_step decode reason encode strerror s ?s" using assms(3) True by (intro time_passes) simp
  moreover obtain s' where "(engine_step decode reason encode strerror)\<^sup>*\<^sup>* ?s s'"
    "engine s' = others_in_tick r (clock ?s) (engine ?s)" "writer s' = writer ?s" "phase s' = phase ?s" "clock s' = clock ?s"
    using assms(1,2) by (auto simp: fair_round_def elim: by_othersD [of _ _ _ _ "others_in_tick r" ?s])
  ultimately show ?thesis using assms(2,5) True
    by (intro exI [of _ s']) (auto simp: tick_wait_def Let_def intro: converse_rtranclp_into_rtranclp)
next
  case False
  let ?s = "s\<lparr>clock := before_tick\<rparr>"
  have "engine_step decode reason encode strerror s ?s" using assms(3) by (rule time_passes)
  then show ?thesis using assms(2,4,5) False by (intro exI [of _ ?s]) (auto simp: tick_wait_def)
qed

text \<open>The rest of a round, from the newest frame to the next wait.\<close>

lemma round_steps:
  assumes "fair_round decode reason encode strerror r" "phase s = Waiting" "\<not> stop_requested (engine s)"
    and "next_write (writer s) \<le> clock s" "writer_take (engine s) (writer s) = (e1, w1)"
    and "writer_convert decode reason encode (others_converting r (clock s) e1) w1 = Some (e2, w2)"
    and "now = clock s + int (conversion_time r)"
    and "writer_deliver strerror now (kernel_writes r) (others_writing r now e2) w2 = Some (e3, w3, rest)"
  shows "\<exists>s'. (engine_step decode reason encode strerror)\<^sup>*\<^sup>* s s' \<and> engine s' = e3 \<and> writer s' = w3
    \<and> phase s' = Waiting \<and> clock s' = now"
proof -
  let ?step = "engine_step decode reason encode strerror"
  have takes: "?step s (take_step s)" using assms(2-4) by (rule writer_takes)
  have s1: "engine (take_step s) = e1" "writer (take_step s) = w1" "phase (take_step s) = Taken"
    "clock (take_step s) = clock s"
    using assms(5) by (simp_all add: take_step_def)
  obtain s2 where s2: "?step\<^sup>*\<^sup>* (take_step s) s2" "engine s2 = others_converting r (clock s) e1" "writer s2 = w1"
    "phase s2 = Taken" "clock s2 = clock s"
    using assms(1) s1 by (auto simp: fair_round_def elim: by_othersD [of _ _ _ _ "others_converting r" "take_step s"])
  obtain s3 where s3: "convert_step decode reason encode s2 = Some s3" "engine s3 = e2" "writer s3 = w2"
    "phase s3 = Converted" "clock s3 = clock s"
    using assms(6) s2 by (simp add: convert_step_def)
  have converts: "?step s2 s3" using s2(4) s3(1) by (rule writer_converts)
  have later: "?step s3 (s3\<lparr>clock := now\<rparr>)" using assms(7) s3(5) by (intro time_passes) simp
  obtain s4 where s4: "?step\<^sup>*\<^sup>* (s3\<lparr>clock := now\<rparr>) s4" "engine s4 = others_writing r now e2" "writer s4 = w2"
    "phase s4 = Converted" "clock s4 = now"
    using assms(1) s3 by (auto simp: fair_round_def elim: by_othersD [of _ _ _ _ "others_writing r" "s3\<lparr>clock := now\<rparr>"])
  obtain s5 where s5: "deliver_step strerror (kernel_writes r) s4 = Some s5" "engine s5 = e3" "writer s5 = w3"
    "phase s5 = Waiting" "clock s5 = now"
    using assms(8) s4 by (simp add: deliver_step_def)
  have "?step s4 s5" using s4(4) s5(1) by (rule writer_delivers)
  then have "?step\<^sup>*\<^sup>* s s5" using takes s2(1) converts later s4(1)
    by (meson converse_rtranclp_into_rtranclp rtranclp.rtrancl_into_rtrancl rtranclp_trans)
  then show ?thesis using s5 by blast
qed

lemma writer_loop_steps:
  assumes "list_all (fair_round decode reason encode strerror) rounds" "phase s = Waiting"
    and "writer_loop decode reason encode strerror rounds (clock s) (engine s) (writer s) = Some (e', w')"
  shows "\<exists>s'. (engine_step decode reason encode strerror)\<^sup>*\<^sup>* s s' \<and> engine s' = e' \<and> writer s' = w'
    \<and> phase s' = Absent \<and> stop_requested e'"
  using assms
proof (induction rounds arbitrary: s)
  case Nil
  then show ?case by simp
next
  case (Cons r rounds)
  let ?steps = "(engine_step decode reason encode strerror)\<^sup>*\<^sup>*"
  have fair: "fair_round decode reason encode strerror r" using Cons.prems(1) by simp
  have leave: "\<exists>s'. ?steps s s' \<and> engine s' = e' \<and> writer s' = w' \<and> phase s' = Absent \<and> stop_requested e'"
    if "?steps s s1" "phase s1 = Waiting" "stop_requested e'" "engine s1 = e'" "writer s1 = w'" for s1
  proof -
    have "engine_step decode reason encode strerror s1 (s1\<lparr>phase := Absent\<rparr>)"
      using that by (intro writer_leaves) simp_all
    then show ?thesis using that by (intro exI [of _ "s1\<lparr>phase := Absent\<rparr>"]) auto
  qed
  show ?case
  proof (cases "stop_requested (engine s)")
    case True
    then show ?thesis using leave [of s] Cons.prems by simp
  next
    case running: False
    obtain s1 where s1: "?steps s s1" "engine s1 = others_in_wait r (clock s) (engine s)" "writer s1 = writer s"
      "phase s1 = Waiting" "clock s1 = clock s"
      using fair Cons.prems(2) by (auto simp: fair_round_def elim: by_othersD [of _ _ _ _ "others_in_wait r" s])
    show ?thesis
    proof (cases "stop_requested (engine s1)")
      case True
      then show ?thesis using leave [of s1] s1 running Cons.prems by (simp add: Let_def)
    next
      case awake: False
      obtain stop tick e2 where wait: "tick_wait r (clock s + int (wait_time r)) (engine s1) (writer s1) = (stop, tick, e2)"
        by (cases "tick_wait r (clock s + int (wait_time r)) (engine s1) (writer s1)") auto
      obtain s2 where s2: "?steps s1 s2" "engine s2 = e2" "writer s2 = writer s" "phase s2 = Waiting" "clock s2 = tick"
        "next_write (writer s2) \<le> clock s2" "stop = stop_requested e2"
        using tick_wait_steps [OF fair s1(4) _ awake wait] s1(3,5) by auto
      note loop = Cons.prems(3)
      show ?thesis
      proof (cases stop)
        case True
        then show ?thesis using leave [of s2] rtranclp_trans [OF s1(1) s2(1)] s1 s2 running awake loop wait
          by (auto simp: Let_def)
      next
        case False
        obtain e3 w3 where take: "writer_take e2 (writer s) = (e3, w3)" by fastforce
        define now where "now = tick + int (conversion_time r)"
        obtain e4 w4 e5 w5 rest where
          body: "writer_convert decode reason encode (others_converting r tick e3) w3 = Some (e4, w4)"
            "writer_deliver strerror now (kernel_writes r) (others_writing r now e4) w4 = Some (e5, w5, rest)"
            "writer_loop decode reason encode strerror rounds now e5 w5 = Some (e', w')"
          using loop running awake wait False take s1(2,3)
          by (auto simp: Let_def now_def bind_eq_Some_conv)
        obtain s3 where s3: "?steps s2 s3" "engine s3 = e5" "writer s3 = w5" "phase s3 = Waiting" "clock s3 = now"
          using round_steps [OF fair s2(4) _ s2(6), of e3 w3 e4 w4 now e5 w5 rest] s2 False take body
          by (auto simp: now_def)
        obtain s' where "?steps s3 s'" "engine s' = e'" "writer s' = w'" "phase s' = Absent" "stop_requested e'"
          using Cons.IH [of s3] Cons.prems(1) s3 body(3) by auto
        moreover from \<open>?steps s3 s'\<close> have "?steps s s'" using s1(1) s2(1) s3(1) by (meson rtranclp_trans)
        ultimately show ?thesis by blast
      qed
    qed
  qed
qed

subsection \<open>A quiet session\<close>

text \<open>A round in which nobody else does anything, nothing is late and the device takes the whole picture.\<close>

definition quiet :: "nat \<Rightarrow> writer_round" where
  "quiet n = \<lparr>others_in_wait = (\<lambda>t e. e), wait_time = 0, others_in_tick = (\<lambda>t e. e), late = 0,
     others_converting = (\<lambda>t e. e), conversion_time = 0, others_writing = (\<lambda>t e. e), kernel_writes = [Wrote (int n) 0]\<rparr>"

definition stopping_round :: writer_round where
  "stopping_round = (quiet 0)\<lparr>others_in_wait := (\<lambda>t e. e\<lparr>stop_requested := True\<rparr>)\<rparr>"

lemma quiet_simps [simp]:
  "others_in_wait (quiet n) = (\<lambda>t e. e)" "wait_time (quiet n) = 0" "others_in_tick (quiet n) = (\<lambda>t e. e)"
  "late (quiet n) = 0" "others_converting (quiet n) = (\<lambda>t e. e)" "conversion_time (quiet n) = 0"
  "others_writing (quiet n) = (\<lambda>t e. e)" "kernel_writes (quiet n) = [Wrote (int n) 0]"
  "others_in_wait stopping_round = (\<lambda>t e. e\<lparr>stop_requested := True\<rparr>)"
  by (simp_all add: quiet_def stopping_round_def)

lemma no_wrap: "(x :: u64) \<noteq> - 1 \<Longrightarrow> \<not> x + 1 < x"
proof -
  assume "x \<noteq> - 1"
  then have "x + 1 \<noteq> 0" by (metis add.right_inverse add_right_cancel add.commute)
  then have "unat (x + 1) = unat x + 1" by (simp add: unatSuc add.commute)
  then show ?thesis by (simp add: word_less_nat_alt)
qed

text \<open>A picture that is current stays on the screen: the same bytes again after each interval.\<close>

lemma quiet_rounds:
  assumes "consumed_generation w = latest_generation e" "output_jpeg w = jpeg" "jpeg \<noteq> []" "now \<le> next_write w"
    and "\<not> stop_requested e" "sink_open (status e)" "0 \<le> fd (sink e)" "0 \<le> frame_interval (eng_config e)"
    and "latest_generation e \<noteq> - 1"
  shows "\<exists>w'. writer_loop decode reason encode strerror (replicate n (quiet (length jpeg)) @ [stopping_round]) now e w =
      Some (e\<lparr>stop_requested := True, status := (status e)\<lparr>frames_written := frames_written (status e) + of_nat n\<rparr>\<rparr>, w')
    \<and> output_jpeg w' = jpeg \<and> next_write w' = next_write w + int n * frame_interval (eng_config e)"
  using assms
proof (induction n arbitrary: now e w)
  case 0
  then show ?case by (intro exI [of _ w]) (simp add: Let_def)
next
  case (Suc n)
  let ?i = "frame_interval (eng_config e)"
  let ?e = "e\<lparr>status := (status e)\<lparr>frames_written := frames_written (status e) + 1\<rparr>\<rparr>"
  define w1 where "w1 = w\<lparr>taken_frame := latest_frame e, taken_generation := latest_generation e,
    next_write := next_write w + ?i\<rparr>"
  have tick: "tick_wait (quiet (length jpeg)) now e w = (False, next_write w, e)"
    using Suc.prems(4,5) by (simp add: tick_wait_def Let_def)
  have take: "writer_take e w = (e, w\<lparr>taken_frame := latest_frame e, taken_generation := latest_generation e\<rparr>)"
    using Suc.prems(1) no_wrap [OF Suc.prems(9)] by (simp add: writer_take_def Let_def)
  have convert: "writer_convert decode reason encode e (w\<lparr>taken_frame := latest_frame e, taken_generation := latest_generation e\<rparr>)
      = Some (e, w\<lparr>taken_frame := latest_frame e, taken_generation := latest_generation e\<rparr>)"
    using Suc.prems(1) by (simp add: writer_convert_def split: option.split)
  have wrote: "V4l2Sink_Write strerror jpeg (sink e) [Wrote (int (length jpeg)) 0] = Some (Inr (), [])"
    using Suc.prems(3,7) by (simp add: V4l2Sink_Write_def)
  have deliver: "writer_deliver strerror (next_write w) [Wrote (int (length jpeg)) 0] e
      (w\<lparr>taken_frame := latest_frame e, taken_generation := latest_generation e\<rparr>) = Some (?e, w1, [])"
    using Suc.prems wrote by (simp add: writer_deliver_def Let_def w1_def)
  have "writer_loop decode reason encode strerror (replicate (Suc n) (quiet (length jpeg)) @ [stopping_round]) now e w =
      writer_loop decode reason encode strerror (replicate n (quiet (length jpeg)) @ [stopping_round]) (next_write w) ?e w1"
    using Suc.prems(5) tick take convert deliver by (simp add: Let_def)
  moreover have "next_write w \<le> next_write w1" using Suc.prems(8) by (simp add: w1_def)
  moreover have "consumed_generation w1 = latest_generation ?e" "output_jpeg w1 = jpeg"
    using Suc.prems(1,2) by (simp_all add: w1_def)
  ultimately show ?case using Suc.IH [of w1 ?e "next_write w"] Suc.prems(3,5-9)
    by (auto simp: w1_def algebra_simps)
qed

subsection \<open>Properties\<close>





end
