(* ===== verification/Ffmpeg_Source.thy ===== *)
theory Ffmpeg_Source
  imports "HOL-Library.Multiset" Mjpeg_Parser Stream_Source V4l2_Sink
begin

section \<open>The FFmpeg child process\<close>

text \<open>
  \<open>ffmpeg_source.cpp\<close>: starting FFmpeg with its output and diagnostics on two pipes, reading frames
  from it until it ends, stalls or the engine stops, and cleaning up. Everything the kernel
  decides is an argument: the results of the calls before the loop (\<open>spawn_answers\<close>), one record for
  each round of the loop (\<open>poll_round\<close>), and the answers to the final calls. A list of answers that
  ends while the code still asks gives \<open>None\<close>. The state keeps the descriptors that are open, the
  fate of the child and the signals sent to it; times are nanoseconds of the steady clock.
\<close>

definition kMaxDiagnosticBytes :: nat where "kMaxDiagnosticBytes = 8 * 1024"
definition kInitialFrameTimeout :: int where "kInitialFrameTimeout = 20 * 1000000000"
definition kConnectedFrameTimeout :: int where "kConnectedFrameTimeout = 15 * 1000000000"
definition ECHILD :: int where "ECHILD = 10"

subsection \<open>Descriptors\<close>

text \<open>A \<open>FileDescriptor\<close> holding \<open>held\<close>, and the list of the open descriptors.\<close>

definition FileDescriptor_Reset :: "int \<Rightarrow> int \<Rightarrow> int list \<Rightarrow> int \<times> int list" where
  "FileDescriptor_Reset held new opened = (new, if 0 \<le> held then remove1 held opened else opened)"

text \<open>The destructors of several of them.\<close>

definition close_all :: "int list \<Rightarrow> int list \<Rightarrow> int list" where
  "close_all owned opened = fold (\<lambda>d opened. snd (FileDescriptor_Reset d (-1) opened)) owned opened"

subsection \<open>The child\<close>

datatype signal = SIGINT | SIGPIPE | SIGTERM | SIGKILL

datatype child_state = NoChild | Running | Reaped

datatype file_action = Dup2 int int | Close int

text \<open>The attributes of the new program: its process group (0 for one of its own), the signals set back to their
  default and the signals blocked.\<close>

record spawn_attributes =
  process_group :: int
  default_signals :: "signal list"
  signal_mask :: "signal list"

record spawn_request =
  spawn_path :: string
  spawn_attrs :: spawn_attributes
  spawn_actions :: "file_action list"
  spawn_arguments :: "string list"
  spawn_environment :: "string list"

record process_world =
  descriptors :: "int list"
  child :: child_state
  request :: "spawn_request option"
  signals :: "signal list"

text \<open>The answers of \<open>waitpid\<close> are the return value and \<open>errno\<close>.\<close>

definition gone :: "int \<Rightarrow> int \<times> int \<Rightarrow> bool" where
  "gone pid answer \<longleftrightarrow> fst answer = pid \<or> fst answer < 0 \<and> snd answer = ECHILD"

fun await_exit :: "nat \<Rightarrow> int \<Rightarrow> (int \<times> int) list \<Rightarrow> (bool \<times> (int \<times> int) list) option" where
  "await_exit 0 pid answers = Some (False, answers)"
| "await_exit (Suc attempts) pid [] = None"
| "await_exit (Suc attempts) pid (a # answers) =
     (if gone pid a then Some (True, answers) else await_exit attempts pid answers)"

fun reap :: "(int \<times> int) list \<Rightarrow> (int \<times> int) list option" where
  "reap [] = None"
| "reap ((result, errno) # answers) =
     (if result < 0 \<and> errno = EINTR then reap answers else Some answers)"

definition TerminateChild :: "int \<Rightarrow> (int \<times> int) list \<Rightarrow> process_world \<Rightarrow> process_world option" where
  "TerminateChild pid answers w =
     (if pid \<le> 0 then Some w
      else let w = w\<lparr>signals := signals w @ [SIGTERM]\<rparr> in do {
        (exited, answers) \<leftarrow> await_exit 20 pid answers;
        if exited then Some (w\<lparr>child := Reaped\<rparr>)
        else do {
          _ \<leftarrow> reap answers;
          Some (w\<lparr>child := Reaped, signals := signals w @ [SIGKILL]\<rparr>) } })"

text \<open>The answers of \<open>fcntl\<close>: the flags, the result of setting them, and \<open>errno\<close>.\<close>

definition SetNonBlocking :: "(int \<Rightarrow> string) \<Rightarrow> int \<times> int \<times> int \<Rightarrow> unit outcome" where
  "SetNonBlocking strerror answer =
     (case answer of (flags, result, errno) \<Rightarrow>
        if 0 \<le> flags \<and> result = 0 then Inr ()
        else Inl (''unable to configure FFmpeg pipe: '' @ strerror errno))"

subsection \<open>Reading\<close>

text \<open>The answers of \<open>read\<close>: bytes (none at the end of the file) with the time at which they are
  parsed, or an \<open>errno\<close>.\<close>

datatype read_answer = Got int bytes | Failed int

fun DrainDiagnostic :: "read_answer list \<Rightarrow> bytes \<Rightarrow> bytes option" where
  "DrainDiagnostic [] diagnostic = None"
| "DrainDiagnostic (Got t b # answers) diagnostic =
     (if b \<noteq> [] then
        let available = (if length diagnostic < kMaxDiagnosticBytes
                         then kMaxDiagnosticBytes - length diagnostic else 0)
        in DrainDiagnostic answers (diagnostic @ take (min available (length b)) b)
      else Some diagnostic)"
| "DrainDiagnostic (Failed errno # answers) diagnostic =
     (if errno = EINTR then DrainDiagnostic answers diagnostic else Some diagnostic)"

datatype stream_call = Connected | Delivered int bytes

record stream_state =
  parser :: MjpegParser
  is_connected :: bool
  last_frame :: int
  calls :: "stream_call list"  \<comment> \<open>the calls of the two callbacks\<close>
  chunks :: "bytes list"       \<comment> \<open>what was given to the parser, for the statements only\<close>
  diagnostic :: bytes
  parser_failed :: bool
  parser_error :: string
  child_exited :: bool
  child_status :: int

definition stream_start :: "int \<Rightarrow> stream_state" where
  "stream_start started =
     \<lparr>parser = MjpegParser_new default_max_frame_bytes, is_connected = False, last_frame = started,
      calls = [], chunks = [], diagnostic = [], parser_failed = False, parser_error = [],
      child_exited = False, child_status = 0\<rparr>"

text \<open>The callback given to the parser, for one frame.\<close>

definition on_frame :: "int \<Rightarrow> bytes \<Rightarrow> stream_state \<Rightarrow> stream_state" where
  "on_frame now frame st = st\<lparr>
     last_frame := now,
     is_connected := True,
     calls := calls st @ (if is_connected st then [] else [Connected]) @ [Delivered now frame]\<rparr>"

fun read_output :: "read_answer list \<Rightarrow> stream_state \<Rightarrow> stream_state option" where
  "read_output [] st = None"
| "read_output (Got now b # answers) st =
     (if b \<noteq> [] then
        let (r, p, fs) = MjpegParser_Append (parser st) (Some b) (length b);
            st = fold (on_frame now) fs (st\<lparr>parser := p, chunks := chunks st @ [b]\<rparr>)
        in case r of
             Inl e \<Rightarrow> Some (st\<lparr>parser_failed := True, parser_error := e\<rparr>)
           | Inr _ \<Rightarrow> read_output answers st
      else Some st)"
| "read_output (Failed errno # answers) st =
     (if errno = EINTR then read_output answers st else Some st)"

subsection \<open>The loop\<close>

record poll_round =
  stop_seen :: bool
  poll_result :: int
  poll_errno :: int
  output_ready :: bool
  diagnostic_ready :: bool
  diagnostic_reads :: "read_answer list"
  output_reads :: "read_answer list"
  wait_answer :: "int \<times> int"
  wait_status :: int
  round_end :: int

text \<open>The two timeouts, at the end of a round.\<close>

definition check_timeouts :: "int \<Rightarrow> int \<Rightarrow> stream_state \<Rightarrow> stream_state" where
  "check_timeouts started now st =
     (if \<not> is_connected st \<and> kInitialFrameTimeout < now - started
         \<or> is_connected st \<and> kConnectedFrameTimeout < now - last_frame st
      then st\<lparr>parser_failed := True,
              parser_error := (if is_connected st then ''FFmpeg stream produced no frame for 15 seconds''
                else ''FFmpeg stream produced no first frame within 20 seconds'')\<rparr>
      else st)"

fun stream_loop ::
  "(int \<Rightarrow> string) \<Rightarrow> int \<Rightarrow> int \<Rightarrow> poll_round list \<Rightarrow> stream_state \<Rightarrow> stream_state option" where
  "stream_loop strerror pid started [] st = (if parser_failed st then Some st else None)"
| "stream_loop strerror pid started (r # rounds) st =
     (if stop_seen r \<or> parser_failed st then Some st
      else if poll_result r < 0 \<and> poll_errno r \<noteq> EINTR then
        Some (st\<lparr>parser_error := ''FFmpeg pipe polling failed: '' @ strerror (poll_errno r),
                 parser_failed := True\<rparr>)
      else do {
        d \<leftarrow> (if diagnostic_ready r then DrainDiagnostic (diagnostic_reads r) (diagnostic st)
              else Some (diagnostic st));
        st \<leftarrow> (if output_ready r then read_output (output_reads r) (st\<lparr>diagnostic := d\<rparr>)
               else Some (st\<lparr>diagnostic := d\<rparr>));
        if gone pid (wait_answer r) then
          Some (st\<lparr>child_exited := True,
                   child_status := (if fst (wait_answer r) = pid then wait_status r else child_status st)\<rparr>)
        else stream_loop strerror pid started rounds (check_timeouts started (round_end r) st) })"

subsection \<open>The error report\<close>

definition WIFEXITED :: "int \<Rightarrow> bool" where "WIFEXITED s \<longleftrightarrow> s AND 0x7f = 0"
definition WEXITSTATUS :: "int \<Rightarrow> int" where "WEXITSTATUS s = drop_bit 8 s AND 0xff"
definition WTERMSIG :: "int \<Rightarrow> int" where "WTERMSIG s = s AND 0x7f"
definition WIFSIGNALED :: "int \<Rightarrow> bool" where
  "WIFSIGNALED s \<longleftrightarrow> WTERMSIG s \<noteq> 0 \<and> WTERMSIG s \<noteq> 0x7f"

definition stream_error :: "stream_state \<Rightarrow> string" where
  "stream_error st =
     (if parser_failed st \<and> parser_error st \<noteq> [] then parser_error st
      else if child_exited st \<and> WIFEXITED (child_status st) then
        ''FFmpeg source ended with exit code '' @ to_string (WEXITSTATUS (child_status st))
      else if child_exited st \<and> WIFSIGNALED (child_status st) then
        ''FFmpeg source stopped by signal '' @ to_string (WTERMSIG (child_status st))
      else if diagnostic st = [] then ''FFmpeg source ended before stop was requested''
      else ''FFmpeg source failed; diagnostic output was suppressed to protect stream credentials'')"

subsection \<open>\<open>Stream\<close>\<close>

text \<open>
  The calls before the loop: whether the executable is accessible; the two pipes (read and
  write end) or the \<open>errno\<close>; the return codes of the calls that prepare the actions and the attributes, in
  order; the error of \<open>posix_spawn\<close> and the process; the two \<open>fcntl\<close> pairs.
\<close>

record spawn_answers =
  executable :: bool
  output_pipe :: "(int \<times> int) + int"
  diagnostic_pipe :: "(int \<times> int) + int"
  action_codes :: "int list"
  attribute_codes :: "int list"
  spawn_code :: int
  spawned :: int
  output_fcntl :: "int \<times> int \<times> int"
  diagnostic_fcntl :: "int \<times> int \<times> int"

record final_answers =
  last_diagnostic :: "read_answer list"
  final_waits :: "(int \<times> int) list"
  stop_at_end :: bool

definition first_error :: "int list \<Rightarrow> int" where
  "first_error codes = (case find (\<lambda>c. c \<noteq> 0) codes of None \<Rightarrow> 0 | Some c \<Rightarrow> c)"

definition prepare_error :: "spawn_answers \<Rightarrow> int" where
  "prepare_error a = (let actions = first_error (action_codes a); attributes = first_error (attribute_codes a)
     in if actions = 0 \<and> attributes \<noteq> 0 then attributes else actions)"

text \<open>The four preparations of the file actions, the attributes (all three are flagged) and the child's environment.\<close>

definition file_actions :: "int \<Rightarrow> int \<Rightarrow> int \<Rightarrow> int \<Rightarrow> file_action list" where
  "file_actions output_read output_write diagnostic_read diagnostic_write =
     [Dup2 output_write 1, Dup2 diagnostic_write 2, Close output_read, Close diagnostic_read]"

definition child_attributes :: spawn_attributes where
  "child_attributes = \<lparr>process_group = 0, default_signals = [SIGINT, SIGPIPE, SIGTERM], signal_mask = []\<rparr>"

definition child_environment :: "string list" where
  "child_environment =
     [''ANDROID_DATA=/data'', ''ANDROID_ROOT=/system'', ''AV_LOG_FORCE_NOCOLOR=1'',
      ''HOME=/data/adb/vcames'', ''LC_ALL=C'', ''PATH=/system/bin:/system/xbin'',
      ''TMPDIR=/data/adb/vcames'']"

text \<open>From the two \<open>SetNonBlocking\<close> to the end.\<close>

definition stream_body ::
  "(int \<Rightarrow> string) \<Rightarrow> spawn_answers \<Rightarrow> int \<Rightarrow> poll_round list \<Rightarrow> final_answers \<Rightarrow> process_world
     \<Rightarrow> (unit outcome \<times> stream_state \<times> process_world) option" where
  "stream_body strerror a started rounds fin w =
     (case bind_ok (SetNonBlocking strerror (output_fcntl a))
             (\<lambda>_. SetNonBlocking strerror (diagnostic_fcntl a)) of
        Inl e \<Rightarrow> do {
          w \<leftarrow> TerminateChild (spawned a) (final_waits fin) w;
          Some (Inl e, stream_start started, w) }
      | Inr _ \<Rightarrow> do {
          st \<leftarrow> stream_loop strerror (spawned a) started rounds (stream_start started);
          d \<leftarrow> DrainDiagnostic (last_diagnostic fin) (diagnostic st);
          let st = st\<lparr>diagnostic := d\<rparr>;
          w \<leftarrow> (if child_exited st then Some (w\<lparr>child := Reaped\<rparr>)
                else TerminateChild (spawned a) (final_waits fin) w);
          Some (if stop_at_end fin then Inr () else Inl (stream_error st), st, w) })"

definition FfmpegSource_Stream ::
  "(int \<Rightarrow> string) \<Rightarrow> string \<Rightarrow> string \<Rightarrow> int \<Rightarrow> StreamSourceSpec \<Rightarrow> spawn_answers \<Rightarrow> int
     \<Rightarrow> poll_round list \<Rightarrow> final_answers \<Rightarrow> process_world
     \<Rightarrow> (unit outcome \<times> stream_state \<times> process_world) option" where
  "FfmpegSource_Stream strerror ffmpeg_path url fps spec a started rounds fin w =
     (if ffmpeg_path = [] \<or> hd ffmpeg_path \<noteq> CHR ''/'' \<or> \<not> executable a then
        Some (Inl ''configured FFmpeg executable is missing or not executable'', stream_start started, w)
      else case (output_pipe a, diagnostic_pipe a) of
        (Inr errno, _) \<Rightarrow>
          Some (Inl (''unable to create FFmpeg pipes: '' @ strerror errno), stream_start started, w)
      | (Inl (output_read, output_write), Inr errno) \<Rightarrow>
          Some (Inl (''unable to create FFmpeg pipes: '' @ strerror errno), stream_start started,
            w\<lparr>descriptors := close_all [output_read, output_write]
               (output_write # output_read # descriptors w)\<rparr>)
      | (Inl (output_read, output_write), Inl (diagnostic_read, diagnostic_write)) \<Rightarrow>
          let w = w\<lparr>descriptors := diagnostic_write # diagnostic_read # output_write # output_read
                # descriptors w\<rparr>;
              prepared = prepare_error a;
              w = (if prepared = 0 then w\<lparr>request := Some \<lparr>spawn_path = ffmpeg_path, spawn_attrs = child_attributes,
                     spawn_actions = file_actions output_read output_write diagnostic_read diagnostic_write,
                     spawn_arguments = BuildFfmpegArguments ffmpeg_path url fps spec,
                     spawn_environment = child_environment\<rparr>\<rparr> else w);
              spawn_error = (if prepared = 0 then spawn_code a else prepared) in
          if spawn_error \<noteq> 0 then
            Some (Inl (''unable to start FFmpeg: '' @ strerror spawn_error), stream_start started,
              w\<lparr>descriptors := close_all [diagnostic_write, diagnostic_read, output_write, output_read]
                  (descriptors w)\<rparr>)
          else let
              w = w\<lparr>child := Running\<rparr>;
              (output_write, ds) = FileDescriptor_Reset output_write (-1) (descriptors w);
              (diagnostic_write, ds) = FileDescriptor_Reset diagnostic_write (-1) ds
            in do {
              (result, st, w) \<leftarrow> stream_body strerror a started rounds fin (w\<lparr>descriptors := ds\<rparr>);
              Some (result, st, w\<lparr>descriptors :=
                close_all [diagnostic_write, diagnostic_read, output_write, output_read] (descriptors w)\<rparr>) })"


subsection \<open>What the stream delivers\<close>

text \<open>The calls for a list of frames: the connection is announced once, in front of the first.\<close>

definition calls_of :: "(int \<times> bytes) list \<Rightarrow> stream_call list" where
  "calls_of ds = (if ds = [] then [] else Connected # map (\<lambda>(t, f). Delivered t f) ds)"

definition frame_times_ok :: "int \<Rightarrow> (int \<times> bytes) list \<Rightarrow> stream_state \<Rightarrow> bool" where
  "frame_times_ok started ds st \<longleftrightarrow> calls st = calls_of ds \<and> is_connected st = (ds \<noteq> [])
     \<and> last_frame st = (if ds = [] then started else fst (last ds))"

text \<open>The frames are those the automaton cuts out of everything read, whatever the chunks.\<close>

definition stream_inv :: "int \<Rightarrow> stream_state \<Rightarrow> bool" where
  "stream_inv started st \<longleftrightarrow> parser_ok (parser st)
     \<and> (parser_failed st \<or> buffer (parser st) = fst (mjpeg_scan [] (concat (chunks st))))
     \<and> (\<exists>ds. frame_times_ok started ds st \<and> map snd ds = snd (mjpeg_scan [] (concat (chunks st))))
     \<and> length (diagnostic st) \<le> kMaxDiagnosticBytes"

lemma stream_invI:
  assumes "frame_times_ok started ds st" "map snd ds = snd (mjpeg_scan [] (concat (chunks st)))"
    "parser_ok (parser st)" "length (diagnostic st) \<le> kMaxDiagnosticBytes"
    "parser_failed st \<or> buffer (parser st) = fst (mjpeg_scan [] (concat (chunks st)))"
  shows "stream_inv started st"
  using assms unfolding stream_inv_def by blast

lemma fold_on_frame:
  assumes "frame_times_ok started ds st"
  shows "frame_times_ok started (ds @ map (Pair t) fs) (fold (on_frame t) fs st)"
  using assms
proof (induction fs arbitrary: ds st)
  case Nil
  then show ?case by simp
next
  case (Cons f fs)
  have "frame_times_ok started (ds @ [(t, f)]) (on_frame t f st)"
    using Cons.prems by (auto simp: frame_times_ok_def on_frame_def calls_of_def)
  from Cons.IH [OF this] show ?case by simp
qed

lemma fold_on_frame_simps [simp]:
  "parser (fold (on_frame t) fs st) = parser st" "chunks (fold (on_frame t) fs st) = chunks st"
  "diagnostic (fold (on_frame t) fs st) = diagnostic st"
  "parser_failed (fold (on_frame t) fs st) = parser_failed st"
  "parser_error (fold (on_frame t) fs st) = parser_error st"
  "child_exited (fold (on_frame t) fs st) = child_exited st"
  by (induction fs arbitrary: st) (simp_all add: on_frame_def)

lemma stream_start_inv: "stream_inv started (stream_start started)"
  unfolding stream_inv_def
  by (intro conjI exI [of _ "[]"])
    (simp_all add: stream_start_def frame_times_ok_def calls_of_def MjpegParser_new_def
      parser_ok_new [unfolded MjpegParser_new_def])

text \<open>One chunk of FFmpeg's output.\<close>

lemma append_inv:
  assumes inv: "stream_inv started st" and going: "\<not> parser_failed st"
    and app: "MjpegParser_Append (parser st) (Some b) (length b) = (r, p, fs)"
  shows "case r of
      Inl e \<Rightarrow> e = ''MJPEG frame exceeds configured safety limit'' \<and> stream_inv started
        (fold (on_frame t) fs (st\<lparr>parser := p, chunks := chunks st @ [b]\<rparr>)\<lparr>parser_failed := True, parser_error := e\<rparr>)
    | Inr _ \<Rightarrow> stream_inv started (fold (on_frame t) fs (st\<lparr>parser := p, chunks := chunks st @ [b]\<rparr>))"
proof -
  let ?st = "st\<lparr>parser := p, chunks := chunks st @ [b]\<rparr>"
  obtain ds where ds: "frame_times_ok started ds st" "map snd ds = snd (mjpeg_scan [] (concat (chunks st)))"
    using inv by (auto simp: stream_inv_def)
  have ok: "parser_ok (parser st)" and buf: "buffer (parser st) = fst (mjpeg_scan [] (concat (chunks st)))"
    using inv going by (auto simp: stream_inv_def)
  have c: "append_chunk (parser st) b = (r, p, fs)" using app by (simp add: append_chunk_def)
  obtain b' gs where scan: "mjpeg_scan (buffer (parser st)) b = (b', gs)" by fastforce
  have whole: "mjpeg_scan [] (concat (chunks st @ [b]))
      = (b', snd (mjpeg_scan [] (concat (chunks st))) @ gs)"
    using scan buf by (simp add: mjpeg_scan_append Let_def case_prod_beta)
  have "frame_times_ok started ds ?st" using ds(1) by (simp add: frame_times_ok_def)
  note times = fold_on_frame [OF this, of t fs]
  have fs: "fs = gs" "isl r \<or> buffer p = b'"
    using c scan append_scan [OF ok, of b] by (auto split: if_splits)
  have snds: "map snd (ds @ map (Pair t) fs) = snd (mjpeg_scan [] (concat (chunks st @ [b])))"
    using ds(2) fs whole by (simp add: comp_def)
  have p: "parser_ok p" using append_chunk_result(1) [OF ok c] .
  have diag: "length (diagnostic st) \<le> kMaxDiagnosticBytes" using inv by (simp add: stream_inv_def)
  show ?thesis
  proof (cases r)
    case (Inl e)
    have "e = ''MJPEG frame exceeds configured safety limit''"
      using Inl c scan append_scan [OF ok, of b] by (simp split: if_splits)
    moreover have "stream_inv started (fold (on_frame t) fs ?st\<lparr>parser_failed := True, parser_error := e\<rparr>)"
      by (rule stream_invI [where ds = "ds @ map (Pair t) fs"])
        (use times snds p diag in \<open>simp_all add: frame_times_ok_def del: map_append\<close>)
    ultimately show ?thesis using Inl by simp
  next
    case (Inr u)
    have "stream_inv started (fold (on_frame t) fs ?st)"
      by (rule stream_invI [where ds = "ds @ map (Pair t) fs"])
        (use Inr times snds p diag fs(2) whole going in \<open>simp_all del: map_append\<close>)
    then show ?thesis using Inr by simp
  qed
qed

lemma read_output_inv:
  "read_output answers st = Some st' \<Longrightarrow> stream_inv started st \<Longrightarrow> \<not> parser_failed st \<Longrightarrow>
    stream_inv started st' \<and> diagnostic st' = diagnostic st \<and> child_exited st' = child_exited st
    \<and> (parser_error st' = parser_error st \<or> parser_error st' = ''MJPEG frame exceeds configured safety limit'')"
proof (induction answers arbitrary: st)
  case Nil
  then show ?case by simp
next
  case (Cons answer answers)
  show ?case
  proof (cases answer)
    case (Got now b)
    obtain r p fs where app: "MjpegParser_Append (parser st) (Some b) (length b) = (r, p, fs)"
      by (cases "MjpegParser_Append (parser st) (Some b) (length b)")
    let ?st = "fold (on_frame now) fs (st\<lparr>parser := p, chunks := chunks st @ [b]\<rparr>)"
    note inv = append_inv [OF Cons.prems(2,3) app, of now]
    show ?thesis
    proof (cases "b = []")
      case True
      then show ?thesis using Cons.prems Got by simp
    next
      case False
      show ?thesis
      proof (cases r)
        case (Inl e)
        then show ?thesis using Cons.prems(1) Got False app inv by auto
      next
        case (Inr u)
        then show ?thesis
          using Cons.prems(1,3) Got False app inv Cons.IH [of ?st] by simp
      qed
    qed
  next
    case (Failed errno)
    then show ?thesis using Cons.prems Cons.IH [of st] by (simp split: if_splits)
  qed
qed

lemma DrainDiagnostic_bound:
  "DrainDiagnostic answers d = Some d' \<Longrightarrow> length d \<le> kMaxDiagnosticBytes \<Longrightarrow> length d' \<le> kMaxDiagnosticBytes"
  by (induction answers d rule: DrainDiagnostic.induct) (auto simp: Let_def split: if_splits)

lemma diagnostic_inv:
  "stream_inv started st \<Longrightarrow> DrainDiagnostic answers (diagnostic st) = Some d \<Longrightarrow>
    stream_inv started (st\<lparr>diagnostic := d\<rparr>)"
  using DrainDiagnostic_bound [of answers "diagnostic st" d]
  by (auto simp: stream_inv_def frame_times_ok_def)

lemma update_inv:
  "stream_inv started (st\<lparr>child_exited := x, child_status := y\<rparr>) = stream_inv started st"
  "stream_inv started st \<Longrightarrow> stream_inv started (st\<lparr>parser_error := e, parser_failed := True\<rparr>)"
  "stream_inv started st \<Longrightarrow> stream_inv started (check_timeouts started now st)"
  by (auto simp: stream_inv_def frame_times_ok_def check_timeouts_def)

subsection \<open>What the stream reports\<close>

text \<open>The messages of the loop, and those of the whole call: none depends on the URL, on FFmpeg's
  diagnostics or on the bytes of the stream.\<close>

definition loop_message :: "(int \<Rightarrow> string) \<Rightarrow> string \<Rightarrow> bool" where
  "loop_message strerror e \<longleftrightarrow>
     e \<in> {[], ''MJPEG frame exceeds configured safety limit'',
          ''FFmpeg stream produced no frame for 15 seconds'',
          ''FFmpeg stream produced no first frame within 20 seconds''}
     \<or> (\<exists>n. e = ''FFmpeg pipe polling failed: '' @ strerror n)"

definition stream_message :: "(int \<Rightarrow> string) \<Rightarrow> string \<Rightarrow> bool" where
  "stream_message strerror e \<longleftrightarrow> e \<noteq> [] \<and> loop_message strerror e
     \<or> e \<in> {''configured FFmpeg executable is missing or not executable'',
            ''FFmpeg source ended before stop was requested'',
            ''FFmpeg source failed; diagnostic output was suppressed to protect stream credentials''}
     \<or> (\<exists>n. e \<in> {''unable to create FFmpeg pipes: '' @ strerror n, ''unable to start FFmpeg: '' @ strerror n,
                ''unable to configure FFmpeg pipe: '' @ strerror n})
     \<or> (\<exists>n. 0 \<le> n \<and> n < 256 \<and> e \<in> {''FFmpeg source ended with exit code '' @ to_string n,
                ''FFmpeg source stopped by signal '' @ to_string n})"

lemma check_timeouts_message:
  "loop_message strerror (parser_error st) \<Longrightarrow>
    loop_message strerror (parser_error (check_timeouts started now st))"
  by (auto simp: loop_message_def check_timeouts_def)

lemma stream_loop_inv:
  "stream_loop strerror pid started rounds st = Some st' \<Longrightarrow> stream_inv started st \<Longrightarrow>
    loop_message strerror (parser_error st) \<Longrightarrow> stream_inv started st' \<and> loop_message strerror (parser_error st')"
proof (induction rounds arbitrary: st)
  case Nil
  then show ?case by (simp split: if_splits)
next
  case (Cons r rounds)
  show ?case
  proof (cases "stop_seen r \<or> parser_failed st \<or> poll_result r < 0 \<and> poll_errno r \<noteq> EINTR")
    case True
    then show ?thesis using Cons.prems update_inv(2) by (auto simp: loop_message_def split: if_splits)
  next
    case False
    obtain d st2 where
      d: "(if diagnostic_ready r then DrainDiagnostic (diagnostic_reads r) (diagnostic st)
              else Some (diagnostic st)) = Some d" and
      st2: "(if output_ready r then read_output (output_reads r) (st\<lparr>diagnostic := d\<rparr>)
               else Some (st\<lparr>diagnostic := d\<rparr>)) = Some st2" and
      rest: "(if gone pid (wait_answer r) then
          Some (st2\<lparr>child_exited := True,
                   child_status := (if fst (wait_answer r) = pid then wait_status r else child_status st2)\<rparr>)
        else stream_loop strerror pid started rounds (check_timeouts started (round_end r) st2)) = Some st'"
      using Cons.prems(1) False by (auto simp: bind_eq_Some_conv)
    have 1: "stream_inv started (st\<lparr>diagnostic := d\<rparr>)"
      using d Cons.prems(2) diagnostic_inv by (auto split: if_splits)
    have 2: "stream_inv started st2 \<and> loop_message strerror (parser_error st2)"
      using st2 1 read_output_inv [OF _ 1, of "output_reads r" st2] False Cons.prems(3)
      by (auto simp: loop_message_def split: if_splits)
    show ?thesis
    proof (cases "gone pid (wait_answer r)")
      case True
      then show ?thesis using rest 2 by (auto simp: update_inv(1))
    next
      case False
      then show ?thesis
        using rest 2 Cons.IH [of "check_timeouts started (round_end r) st2"]
        by (simp add: update_inv(3) check_timeouts_message)
    qed
  qed
qed

lemma status_byte: "0 \<le> WEXITSTATUS s" "WEXITSTATUS s < 256" "0 \<le> WTERMSIG s" "WTERMSIG s < 256"
proof -
  have a: "x AND 255 = x mod 256" and b: "x AND 127 = x mod 128" for x :: int
    using take_bit_eq_mask [of 8 x] take_bit_eq_mask [of 7 x]
    by (simp_all add: mask_eq_exp_minus_1 take_bit_eq_mod)
  show "0 \<le> WEXITSTATUS s" "WEXITSTATUS s < 256" "0 \<le> WTERMSIG s" "WTERMSIG s < 256"
    unfolding WEXITSTATUS_def WTERMSIG_def a b using pos_mod_bound [of 128 s] by auto
qed

lemma stream_error_message:
  "loop_message strerror (parser_error st) \<Longrightarrow> stream_message strerror (stream_error st)"
  using status_byte [of "child_status st"] unfolding stream_error_def stream_message_def by auto

subsection \<open>Descriptors, child and callbacks at the end\<close>

lemma Reset_mset: "0 \<le> d \<Longrightarrow> mset (snd (FileDescriptor_Reset d n ds)) = mset ds - {#d#}"
  by (simp add: FileDescriptor_Reset_def)

lemma close_all_mset:
  "\<forall>d \<in> set owned. 0 \<le> d \<Longrightarrow> mset (close_all owned opened) = mset opened - mset owned"
proof (induction owned arbitrary: opened)
  case Nil
  then show ?case by (simp add: close_all_def)
next
  case (Cons d owned)
  then have "mset (close_all owned (snd (FileDescriptor_Reset d (-1) opened))) = mset opened - {#d#} - mset owned"
    by (simp add: Reset_mset)
  then show ?case by (simp add: close_all_def)
qed

lemma close_all_invalid [simp]: "close_all (- 1 # owned) opened = close_all owned opened"
  by (simp add: close_all_def FileDescriptor_Reset_def)

text \<open>The child is asked to end, then killed, and waited for in either case.\<close>

definition shut_down :: "process_world \<Rightarrow> process_world \<Rightarrow> bool" where
  "shut_down w w' \<longleftrightarrow> descriptors w' = descriptors w \<and> child w' = Reaped \<and> request w' = request w
     \<and> signals w' \<in> {signals w, signals w @ [SIGTERM], signals w @ [SIGTERM, SIGKILL]}"

lemma TerminateChild_result:
  assumes "TerminateChild pid answers w = Some w'" "0 < pid"
  shows "shut_down w w'"
  using assms by (auto simp: TerminateChild_def shut_down_def Let_def bind_eq_Some_conv split: if_splits)

lemma bind_SomeE:
  assumes "Option.bind m f = Some y" obtains x where "m = Some x" "f x = Some y"
  using assms by (cases m) auto

lemma stream_body_result:
  assumes "stream_body strerror a started rounds fin w = Some (r, st, w')" "0 < spawned a"
  shows "shut_down w w' \<and> stream_inv started st
    \<and> (case r of Inr _ \<Rightarrow> stop_at_end fin | Inl e \<Rightarrow> stream_message strerror e)"
proof (cases "bind_ok (SetNonBlocking strerror (output_fcntl a))
    (\<lambda>_. SetNonBlocking strerror (diagnostic_fcntl a))")
  case (Inl e)
  have config: "SetNonBlocking strerror x = Inr () \<or> (\<exists>n. SetNonBlocking strerror x =
      Inl (''unable to configure FFmpeg pipe: '' @ strerror n))" for x
    by (cases x) (simp add: SetNonBlocking_def, blast?)
  have "\<exists>n. e = ''unable to configure FFmpeg pipe: '' @ strerror n"
    using Inl config [of "output_fcntl a"] config [of "diagnostic_fcntl a"] by auto
  then have "stream_message strerror e" unfolding stream_message_def by blast
  moreover have "TerminateChild (spawned a) (final_waits fin) w = Some w'" "r = Inl e" "st = stream_start started"
    using assms(1) Inl by (auto simp: stream_body_def bind_eq_Some_conv)
  ultimately show ?thesis
    using TerminateChild_result assms(2) stream_start_inv by simp
next
  case (Inr u)
  obtain st1 d where
    loop: "stream_loop strerror (spawned a) started rounds (stream_start started) = Some st1" and
    d: "DrainDiagnostic (last_diagnostic fin) (diagnostic st1) = Some d" and
    w: "(if child_exited st1 then Some (w\<lparr>child := Reaped\<rparr>)
         else TerminateChild (spawned a) (final_waits fin) w) = Some w'" and
    st: "st = st1\<lparr>diagnostic := d\<rparr>" and
    r: "r = (if stop_at_end fin then Inr () else Inl (stream_error st))"
    using assms(1) unfolding stream_body_def Inr sum.case Let_def
    by (elim bind_SomeE) (rule that, assumption, assumption, auto)
  have "loop_message strerror (parser_error (stream_start started))"
    by (simp add: stream_start_def loop_message_def)
  from stream_loop_inv [OF loop stream_start_inv this] have inv: "stream_inv started st1"
    and message: "loop_message strerror (parser_error st)" by (simp_all add: st)
  have "shut_down w w'"
    using w TerminateChild_result assms(2) by (auto simp: shut_down_def split: if_splits)
  moreover have "stream_inv started st" using diagnostic_inv [OF inv d] st by simp
  moreover have "stream_message strerror (stream_error st)" using stream_error_message [OF message] .
  ultimately show ?thesis using r by simp
qed

text \<open>What the code relies on: the two calls of \<open>pipe2\<close> give valid descriptors, \<open>posix_spawn\<close> a positive
  process number.\<close>

definition kernel_answers_ok :: "spawn_answers \<Rightarrow> bool" where
  "kernel_answers_ok a \<longleftrightarrow> 0 < spawned a
     \<and> (case output_pipe a of Inl (r, wr) \<Rightarrow> 0 \<le> r \<and> 0 \<le> wr | Inr _ \<Rightarrow> True)
     \<and> (case diagnostic_pipe a of Inl (r, wr) \<Rightarrow> 0 \<le> r \<and> 0 \<le> wr | Inr _ \<Rightarrow> True)"

lemma Stream_outcome:
  assumes "FfmpegSource_Stream strerror path url fps spec a started rounds fin w = Some (r, st, w')"
    and "kernel_answers_ok a" "child w \<noteq> Running"
  shows "mset (descriptors w') = mset (descriptors w) \<and> child w' \<noteq> Running
    \<and> signals w' \<in> {signals w, signals w @ [SIGTERM], signals w @ [SIGTERM, SIGKILL]}
    \<and> stream_inv started st
    \<and> (case r of Inr _ \<Rightarrow> stop_at_end fin | Inl e \<Rightarrow> stream_message strerror e)"
proof -
  consider (path) "path = [] \<or> hd path \<noteq> CHR ''/'' \<or> \<not> executable a"
    | (first) errno where "path \<noteq> []" "hd path = CHR ''/''" "executable a" "output_pipe a = Inr errno"
    | (second) o_r o_w errno where "path \<noteq> []" "hd path = CHR ''/''" "executable a"
        "output_pipe a = Inl (o_r, o_w)" "diagnostic_pipe a = Inr errno"
    | (both) o_r o_w d_r d_w where "path \<noteq> []" "hd path = CHR ''/''" "executable a"
        "output_pipe a = Inl (o_r, o_w)" "diagnostic_pipe a = Inl (d_r, d_w)"
    by (cases "output_pipe a"; cases "diagnostic_pipe a") auto
  then show ?thesis
  proof cases
    case path
    then show ?thesis using assms(1,3) stream_start_inv
      by (auto simp: FfmpegSource_Stream_def stream_message_def)
  next
    case first
    then show ?thesis using assms(1,3) stream_start_inv
      by (auto simp: FfmpegSource_Stream_def stream_message_def)
  next
    case second
    then have "mset (close_all [o_r, o_w] (o_w # o_r # descriptors w)) = mset (descriptors w)"
      using assms(2) by (subst close_all_mset) (auto simp: kernel_answers_ok_def)
    then show ?thesis using second assms(1,3) stream_start_inv
      by (auto simp: FfmpegSource_Stream_def stream_message_def)
  next
    case both
    let ?owned = "[d_w, d_r, o_w, o_r]"
    have valid: "0 \<le> o_r" "0 \<le> o_w" "0 \<le> d_r" "0 \<le> d_w" "0 < spawned a"
      using both assms(2) by (simp_all add: kernel_answers_ok_def)
    define ds where "ds = snd (FileDescriptor_Reset d_w (-1) (snd (FileDescriptor_Reset o_w (-1)
      (?owned @ descriptors w))))"
    define spawn_error where "spawn_error = (if prepare_error a = 0 then spawn_code a else prepare_error a)"
    show ?thesis
    proof (cases "spawn_error = 0")
      case False
      have "mset (close_all ?owned (?owned @ descriptors w)) = mset (descriptors w)"
        using valid by (subst close_all_mset) auto
      then show ?thesis using both False assms(1,3) stream_start_inv
        by (auto simp: FfmpegSource_Stream_def stream_message_def Let_def spawn_error_def split: if_splits)
    next
      case True
      define w1 where "w1 = w\<lparr>request := Some \<lparr>spawn_path = path, spawn_attrs = child_attributes,
        spawn_actions = file_actions o_r o_w d_r d_w,
        spawn_arguments = BuildFfmpegArguments path url fps spec,
        spawn_environment = child_environment\<rparr>, child := Running, descriptors := ds\<rparr>"
      have prep: "prepare_error a = 0" "spawn_code a = 0" using True by (simp_all add: spawn_error_def split: if_splits)
      have call: "FfmpegSource_Stream strerror path url fps spec a started rounds fin w = do {
          (result, st, w2) \<leftarrow> stream_body strerror a started rounds fin w1;
          Some (result, st, w2\<lparr>descriptors := close_all [-1, d_r, -1, o_r] (descriptors w2)\<rparr>) }"
        using both prep by (simp add: FfmpegSource_Stream_def Let_def FileDescriptor_Reset_def w1_def ds_def)
      obtain w2 where body: "stream_body strerror a started rounds fin w1 = Some (r, st, w2)"
        and w': "w' = w2\<lparr>descriptors := close_all [-1, d_r, -1, o_r] (descriptors w2)\<rparr>"
        using assms(1) unfolding call bind_eq_Some_conv by auto
      note res = stream_body_result [OF body valid(5)]
      have "mset ds = {#d_r, o_r#} + mset (descriptors w)"
        using valid by (simp add: ds_def FileDescriptor_Reset_def)
      moreover have "descriptors w2 = ds" using res by (simp add: shut_down_def w1_def)
      ultimately have "mset (descriptors w') = mset (descriptors w)"
        using w' valid close_all_mset [of "[d_r, o_r]" ds] by (simp add: close_all_def FileDescriptor_Reset_def)
      then show ?thesis using res w' by (simp add: shut_down_def w1_def)
    qed
  qed
qed

text \<open>C11. Every return of \<open>Stream\<close>, on success and on every failure, leaves exactly the descriptors open that were
  open before and no child behind: FFmpeg has been waited for, after SIGTERM and if need be SIGKILL. It
  returns true only when a stop was requested; its messages are made of fixed texts, system error texts
  and numbers, so neither the URL nor FFmpeg's diagnostics get into them.\<close>

theorem Stream_releases_everything:
  assumes "FfmpegSource_Stream strerror path url fps spec a started rounds fin w = Some (r, st, w')"
    and "kernel_answers_ok a" "child w \<noteq> Running"
  shows "mset (descriptors w') = mset (descriptors w) \<and> child w' \<noteq> Running
    \<and> signals w' \<in> {signals w, signals w @ [SIGTERM], signals w @ [SIGTERM, SIGKILL]}
    \<and> (case r of Inr _ \<Rightarrow> stop_at_end fin | Inl e \<Rightarrow> stream_message strerror e)"
  using Stream_outcome [OF assms] by blast

definition sample_answers :: spawn_answers where
  "sample_answers = \<lparr>executable = True, output_pipe = Inl (5, 6), diagnostic_pipe = Inl (7, 8),
     action_codes = [0, 0, 0, 0, 0], attribute_codes = [0, 0, 0, 0, 0], spawn_code = 0, spawned = 42,
     output_fcntl = (0, 0, 0), diagnostic_fcntl = (0, 0, 0)\<rparr>"

definition sample_world :: process_world where
  "sample_world = \<lparr>descriptors = [3, 4], child = NoChild, request = None, signals = []\<rparr>"

text \<open>A round in which FFmpeg delivers a frame in two reads, and one in which it has exited with code 1.\<close>

definition sample_rounds :: "poll_round list" where
  "sample_rounds =
     [\<lparr>stop_seen = False, poll_result = 1, poll_errno = 0, output_ready = True, diagnostic_ready = False,
       diagnostic_reads = [], output_reads = [Got 9 [0xff, 0xd8, 7], Failed EINTR, Got 10 [0xff, 0xd9], Failed EAGAIN],
       wait_answer = (0, 0), wait_status = 0, round_end = 11\<rparr>,
      \<lparr>stop_seen = False, poll_result = 1, poll_errno = 0, output_ready = True, diagnostic_ready = True,
       diagnostic_reads = [Got 12 [65], Got 12 []], output_reads = [Got 12 []],
       wait_answer = (42, 0), wait_status = 256, round_end = 13\<rparr>]"

definition sample_final :: final_answers where
  "sample_final = \<lparr>last_diagnostic = [Failed EAGAIN], final_waits = [], stop_at_end = False\<rparr>"

lemma sample_append:
  "MjpegParser_Append (MjpegParser_new default_max_frame_bytes) (Some [0xff, 0xd8, 7]) 3 =
     (Inr (), (MjpegParser_new default_max_frame_bytes)\<lparr>buffer := [0xff, 0xd8, 7]\<rparr>, [])"
  "MjpegParser_Append ((MjpegParser_new default_max_frame_bytes)\<lparr>buffer := [0xff, 0xd8, 7]\<rparr>) (Some [0xff, 0xd9]) 2 =
     (Inr (), MjpegParser_new default_max_frame_bytes, [[0xff, 0xd8, 7, 0xff, 0xd9]])"
proof -
  let ?p = "MjpegParser_new default_max_frame_bytes"
  have "append_chunk ?p [0xff, 0xd8, 7] = (Inr (), ?p\<lparr>buffer := [0xff, 0xd8, 7]\<rparr>, [])"
    by (subst append_scan, rule parser_ok_new)
      (simp add: MjpegParser_new_def mjpeg_step_def kSoiMarker_def default_max_frame_bytes_def)
  then show 1: "MjpegParser_Append ?p (Some [0xff, 0xd8, 7]) 3 = (Inr (), ?p\<lparr>buffer := [0xff, 0xd8, 7]\<rparr>, [])"
    by (simp add: append_chunk_def numeral_3_eq_3)
  have "parser_ok (?p\<lparr>buffer := [0xff, 0xd8, 7]\<rparr>)"
    using append_chunk_result(1) [OF parser_ok_new, of _ "[0xff, 0xd8, 7]"] 1
    by (simp add: append_chunk_def numeral_3_eq_3)
  then have "append_chunk (?p\<lparr>buffer := [0xff, 0xd8, 7]\<rparr>) [0xff, 0xd9] = (Inr (), ?p, [[0xff, 0xd8, 7, 0xff, 0xd9]])"
    by (subst append_scan) (simp_all add: MjpegParser_new_def mjpeg_step_def kSoiMarker_def default_max_frame_bytes_def)
  then show "MjpegParser_Append (?p\<lparr>buffer := [0xff, 0xd8, 7]\<rparr>) (Some [0xff, 0xd9]) 2 =
     (Inr (), ?p, [[0xff, 0xd8, 7, 0xff, 0xd9]])"
    by (simp add: append_chunk_def numeral_2_eq_2)
qed

lemma to_string_1: "to_string 1 = ''1''"
  by code_simp

lemma sample_stream:
  "map_option (\<lambda>(r, st, w). (r, calls st, chunks st, descriptors w, child w, signals w))
     (FfmpegSource_Stream (\<lambda>_. '''') ''/f'' ''u'' 30 StreamSourceSpec_default sample_answers 1 sample_rounds
       sample_final sample_world) =
   Some (Inl ''FFmpeg source ended with exit code 1'', [Connected, Delivered 10 [0xff, 0xd8, 7, 0xff, 0xd9]],
     [[0xff, 0xd8, 7], [0xff, 0xd9]], [3, 4], Reaped, [])"
  by (simp add: FfmpegSource_Stream_def sample_answers_def sample_world_def sample_rounds_def sample_final_def
      prepare_error_def first_error_def FileDescriptor_Reset_def stream_body_def SetNonBlocking_def
      stream_start_def sample_append [simplified numeral_2_eq_2 numeral_3_eq_3] on_frame_def EINTR_def EAGAIN_def ECHILD_def
      gone_def check_timeouts_def kInitialFrameTimeout_def kConnectedFrameTimeout_def kMaxDiagnosticBytes_def
      close_all_def stream_error_def WIFEXITED_def WEXITSTATUS_def to_string_1)


lemma sample_run:
  obtains r st w' where "FfmpegSource_Stream (\<lambda>_. '''') ''/f'' ''u'' 30 StreamSourceSpec_default sample_answers 1
      sample_rounds sample_final sample_world = Some (r, st, w')"
    "r = Inl ''FFmpeg source ended with exit code 1''"
    "calls st = [Connected, Delivered 10 [0xff, 0xd8, 7, 0xff, 0xd9]]"
    "chunks st = [[0xff, 0xd8, 7], [0xff, 0xd9]]" "descriptors w' = [3, 4]" "child w' = Reaped" "signals w' = []"
  using sample_stream by (auto simp: map_option_eq_Some)

lemma sample_ok: "kernel_answers_ok sample_answers" "child sample_world \<noteq> Running"
  by (simp_all add: kernel_answers_ok_def sample_answers_def sample_world_def)

lemma Stream_releases_everything_witness:
  "\<exists>w' :: process_world. mset (descriptors w') = mset [3, 4] \<and> child w' \<noteq> Running \<and> stream_message (\<lambda>_. '''') ''FFmpeg source ended with exit code 1''"
proof -
  obtain r st w' where run: "FfmpegSource_Stream (\<lambda>_. '''') ''/f'' ''u'' 30 StreamSourceSpec_default sample_answers 1
      sample_rounds sample_final sample_world = Some (r, st, w')"
    and r: "r = Inl ''FFmpeg source ended with exit code 1''" by (rule sample_run)
  show ?thesis
    using Stream_releases_everything [OF run sample_ok] by (auto simp: r sample_world_def)
qed


subsection \<open>A stream that stalls\<close>

text \<open>A round in which nothing happens that ends the loop and no bytes arrive.\<close>

definition quiet :: "int \<Rightarrow> poll_round \<Rightarrow> bool" where
  "quiet pid r \<longleftrightarrow> \<not> stop_seen r \<and> (poll_result r < 0 \<longrightarrow> poll_errno r = EINTR) \<and> \<not> gone pid (wait_answer r)
     \<and> (output_ready r \<longrightarrow> (\<exists>t rest. output_reads r = Got t [] # rest)
          \<or> (\<exists>e rest. output_reads r = Failed e # rest \<and> e \<noteq> EINTR))
     \<and> (diagnostic_ready r \<longrightarrow> (\<forall>d. DrainDiagnostic (diagnostic_reads r) d \<noteq> None))"

definition deadline :: "int \<Rightarrow> stream_state \<Rightarrow> int" where
  "deadline started st =
     (if is_connected st then last_frame st + kConnectedFrameTimeout else started + kInitialFrameTimeout)"

definition stall_message :: "stream_state \<Rightarrow> string" where
  "stall_message st = (if is_connected st then ''FFmpeg stream produced no frame for 15 seconds''
     else ''FFmpeg stream produced no first frame within 20 seconds'')"

lemma quiet_round:
  assumes "quiet pid r" "\<not> parser_failed st"
  obtains d where "stream_loop strerror pid started (r # rounds) st =
    stream_loop strerror pid started rounds (check_timeouts started (round_end r) (st\<lparr>diagnostic := d\<rparr>))"
proof -
  obtain d where d: "(if diagnostic_ready r then DrainDiagnostic (diagnostic_reads r) (diagnostic st)
      else Some (diagnostic st)) = Some d"
    using assms(1) by (cases "diagnostic_ready r") (auto simp: quiet_def)
  have "read_output (output_reads r) (st\<lparr>diagnostic := d\<rparr>) = Some (st\<lparr>diagnostic := d\<rparr>)" if "output_ready r"
    using assms(1) that by (auto simp: quiet_def)
  then show ?thesis using assms d that by (auto simp: quiet_def)
qed

lemma check_timeouts_cases:
  "check_timeouts started now st =
    (if deadline started st < now then st\<lparr>parser_failed := True, parser_error := stall_message st\<rparr> else st)"
  by (auto simp: check_timeouts_def deadline_def stall_message_def)

lemma stalled_loop:
  assumes "list_all (quiet pid) rounds" "\<not> parser_failed st" "\<exists>r \<in> set rounds. deadline started st < round_end r"
  shows "\<exists>st'. stream_loop strerror pid started rounds st = Some st' \<and> parser_failed st'
    \<and> parser_error st' = stall_message st \<and> calls st' = calls st \<and> \<not> (child_exited st' \<and> \<not> child_exited st)"
  using assms
proof (induction rounds arbitrary: st)
  case Nil
  then show ?case by simp
next
  case (Cons r rounds)
  obtain d where step: "stream_loop strerror pid started (r # rounds) st =
      stream_loop strerror pid started rounds (check_timeouts started (round_end r) (st\<lparr>diagnostic := d\<rparr>))"
    using quiet_round Cons.prems(1,2) by (metis list.pred_inject(2))
  let ?st = "st\<lparr>diagnostic := d\<rparr>"
  have same: "deadline started ?st = deadline started st" "stall_message ?st = stall_message st"
    by (simp_all add: deadline_def stall_message_def)
  show ?case
  proof (cases "deadline started st < round_end r")
    case True
    then have "stream_loop strerror pid started (r # rounds) st =
        Some (?st\<lparr>parser_failed := True, parser_error := stall_message st\<rparr>)"
      unfolding step check_timeouts_cases same by (cases rounds) simp_all
    then show ?thesis by simp
  next
    case False
    then have "check_timeouts started (round_end r) ?st = ?st" by (simp add: check_timeouts_cases same)
    moreover have "\<exists>r \<in> set rounds. deadline started ?st < round_end r" using Cons.prems(3) False same(1) by auto
    ultimately show ?thesis
      using Cons.IH [of ?st] Cons.prems(1,2) step same(2) by simp
  qed
qed


definition chatty_round :: "int \<Rightarrow> poll_round" where
  "chatty_round t = \<lparr>stop_seen = False, poll_result = 1, poll_errno = 0, output_ready = False,
     diagnostic_ready = True, diagnostic_reads = [Got t [66], Failed EAGAIN], output_reads = [],
     wait_answer = (0, 0), wait_status = 0, round_end = t\<rparr>"


subsection \<open>What the child inherits\<close>

text \<open>The descriptor table of the child under the file actions, as POSIX describes them: a copy is
  inherited by the new program, and what is still marked close-on-exec is not.\<close>

datatype open_file = Output_Read | Output_Write | Diagnostic_Read | Diagnostic_Write | Other nat

type_synonym fd_table = "int \<Rightarrow> (open_file \<times> bool) option"

fun run_action :: "file_action \<Rightarrow> fd_table \<Rightarrow> fd_table option" where
  "run_action (Dup2 a b) t = (case t a of None \<Rightarrow> None | Some (file, cloexec) \<Rightarrow> Some (t(b \<mapsto> (file, False))))"
| "run_action (Close a) t = Some (t(a := None))"

fun run_actions :: "file_action list \<Rightarrow> fd_table \<Rightarrow> fd_table option" where
  "run_actions [] t = Some t"
| "run_actions (a # as) t = Option.bind (run_action a t) (run_actions as)"

definition inherited :: "fd_table \<Rightarrow> int \<Rightarrow> open_file option" where
  "inherited t d = (case t d of Some (file, False) \<Rightarrow> Some file | _ \<Rightarrow> None)"

text \<open>The daemon's table with the two pipes of \<open>pipe2(O_CLOEXEC)\<close>.\<close>

definition with_pipes :: "fd_table \<Rightarrow> int \<Rightarrow> int \<Rightarrow> int \<Rightarrow> int \<Rightarrow> fd_table" where
  "with_pipes t o_r o_w d_r d_w = t(o_r \<mapsto> (Output_Read, True), o_w \<mapsto> (Output_Write, True),
     d_r \<mapsto> (Diagnostic_Read, True), d_w \<mapsto> (Diagnostic_Write, True))"

text \<open>With the daemon's standard descriptors open, the new program has the write ends of the two pipes as
  its standard output and error, none of the other ends, and otherwise just what the daemon lets every
  program inherit: it cannot keep a read end open, so it ends with SIGPIPE when the daemon dies.\<close>

theorem child_gets_write_ends:
  assumes "distinct [o_r, o_w, d_r, d_w]" "2 < o_r" "2 < o_w" "2 < d_r" "2 < d_w"
    and "t o_r = None" "t o_w = None" "t d_r = None" "t d_w = None"
  shows "map_option inherited (run_actions (file_actions o_r o_w d_r d_w) (with_pipes t o_r o_w d_r d_w)) =
    Some ((inherited t)(1 \<mapsto> Output_Write, 2 \<mapsto> Diagnostic_Write))"
proof -
  have "\<exists>t'. run_actions (file_actions o_r o_w d_r d_w) (with_pipes t o_r o_w d_r d_w) = Some t' \<and>
      t' = (with_pipes t o_r o_w d_r d_w)(1 \<mapsto> (Output_Write, False), 2 \<mapsto> (Diagnostic_Write, False),
        o_r := None, d_r := None)"
    using assms(1-5) by (auto simp: file_actions_def with_pipes_def)
  then obtain t' where t': "run_actions (file_actions o_r o_w d_r d_w) (with_pipes t o_r o_w d_r d_w) = Some t'"
    "t' = (with_pipes t o_r o_w d_r d_w)(1 \<mapsto> (Output_Write, False), 2 \<mapsto> (Diagnostic_Write, False),
        o_r := None, d_r := None)" by blast
  have "inherited t' d = ((inherited t)(1 \<mapsto> Output_Write, 2 \<mapsto> Diagnostic_Write)) d" for d
    unfolding t'(2) using assms by (auto simp: inherited_def with_pipes_def)
  then show ?thesis using t'(1) by auto
qed

lemma child_gets_write_ends_witness:
  "map_option (\<lambda>f. (f 0, f 1, f 2, f 4, f 6)) (map_option inherited (run_actions (file_actions 4 5 6 7)
      (with_pipes [0 \<mapsto> (Other 0, False), 1 \<mapsto> (Other 1, False), 2 \<mapsto> (Other 2, False)] 4 5 6 7))) =
    Some (Some (Other 0), Some Output_Write, Some Diagnostic_Write, None, None)"
proof -
  let ?t = "[0 \<mapsto> (Other 0, False), 1 \<mapsto> (Other 1, False), 2 \<mapsto> (Other 2, False)] :: fd_table"
  have "map_option inherited (run_actions (file_actions 4 5 6 7) (with_pipes ?t 4 5 6 7)) =
      Some ((inherited ?t)(1 \<mapsto> Output_Write, 2 \<mapsto> Diagnostic_Write))"
    by (rule child_gets_write_ends) simp_all
  then show ?thesis by (simp only:) (simp add: inherited_def)
qed

end
