(* ===== verification/Source_Loop.thy ===== *)
theory Source_Loop
  imports Ffmpeg_Source Engine_Steps
begin

section \<open>The source thread\<close>

text \<open>
  \<open>Engine::SourceLoop\<close> (\<open>engine.cpp\<close>): one call of FFmpeg after another, with a waiting time that
  doubles from one second to thirty and starts again behind a stream that connected. What the thread
  does to the engine is a list of events, each one locked section, so that \<open>Engine_Steps\<close> can
  interleave them with the other threads. An \<open>attempt\<close> holds what the world decides in one round.
\<close>

subsection \<open>The code\<close>

datatype source_event = Refused string | Announce | Deliver int bytes | Report string | Backoff int

record attempt =
  stop_before :: bool
  spawn_result :: spawn_answers
  begun :: int
  poll_rounds :: "poll_round list"
  ending :: final_answers
  stop_after :: bool
  stop_in_wait :: bool

text \<open>The two callbacks.\<close>

definition event_of_call :: "stream_call \<Rightarrow> source_event" where
  "event_of_call c = (case c of Connected \<Rightarrow> Announce | Delivered t jpeg \<Rightarrow> Deliver t jpeg)"

text \<open>The loop; \<open>None\<close> when the list of attempts, or a list inside one, ends first.\<close>

fun source_loop ::
  "(int \<Rightarrow> string) \<Rightarrow> Config \<Rightarrow> StreamSourceSpec \<Rightarrow> int \<Rightarrow> attempt list \<Rightarrow> process_world
     \<Rightarrow> (source_event list \<times> process_world) option" where
  "source_loop strerror config spec backoff_seconds [] w = None"
| "source_loop strerror config spec backoff_seconds (a # attempts) w =
     (if stop_before a then Some ([], w)
      else do {
        (r, st, w) \<leftarrow> FfmpegSource_Stream strerror (cfg_ffmpeg_path config) (cfg_url config) (cfg_fps config)
          spec (spawn_result a) (begun a) (poll_rounds a) (ending a) w;
        let events = map event_of_call (calls st);
        let connected_once = (Connected \<in> set (calls st));
        let message = (case r of Inl m \<Rightarrow> m | Inr _ \<Rightarrow> []);
        let backoff_seconds = (if connected_once then 1 else backoff_seconds);
        let report = [Report message, Backoff backoff_seconds];
        if stop_after a then Some (events, w)
        else if stop_in_wait a then Some (events @ report, w)
        else do {
          (rest, w) \<leftarrow> source_loop strerror config spec (min (backoff_seconds * 2) 30) attempts w;
          Some (events @ report @ rest, w) } })"

definition SourceLoop ::
  "(int \<Rightarrow> string) \<Rightarrow> Config \<Rightarrow> attempt list \<Rightarrow> process_world \<Rightarrow> (source_event list \<times> process_world) option" where
  "SourceLoop strerror config attempts w =
     (case ParseStreamSourceUrl (cfg_url config) (Some StreamSourceSpec_default) of
        Inl message \<Rightarrow> Some ([Refused message], w)
      | Inr spec \<Rightarrow> source_loop strerror config spec 1 attempts w)"

text \<open>The effect of an event on the engine; waiting has none.\<close>

definition jpeg_frame_at :: "int \<Rightarrow> bytes \<Rightarrow> SourceFrame" where
  "jpeg_frame_at now jpeg = \<lparr>payload = jpeg, frame_kind = kJpeg, frame_width = 0, frame_height = 0,
     presentation_time_ns = now, arrival_time_ns = now\<rparr>"

fun apply_event :: "source_event \<Rightarrow> Engine \<Rightarrow> Engine" where
  "apply_event (Refused message) e = e\<lparr>status := (status e)\<lparr>status_error := message\<rparr>\<rparr>"
| "apply_event Announce e = e\<lparr>status := (status e)\<lparr>source_connected := True, status_error := []\<rparr>\<rparr>"
| "apply_event (Deliver now jpeg) e = PublishFrame now (jpeg_frame_at now jpeg) e"
| "apply_event (Report message) e =
     e\<lparr>status := (status e)\<lparr>source_connected := False, status_error := message\<rparr>\<rparr>"
| "apply_event (Backoff seconds) e = e"

subsection \<open>The waiting times\<close>

text \<open>The waits a list of events may contain, when the next one is at least \<open>b\<close> seconds if nothing connects.\<close>

fun paced :: "int \<Rightarrow> source_event list \<Rightarrow> bool" where
  "paced b [] = True"
| "paced b (Announce # es) = paced 1 es"
| "paced b (Backoff n # es) = (n = b \<and> paced (min (2 * b) 30) es)"
| "paced b (e # es) = paced b es"

lemma paced_calls:
  "paced b (map event_of_call cs @ es) = paced (if Connected \<in> set cs then 1 else b) es"
  by (induction cs arbitrary: b) (auto simp: event_of_call_def split: stream_call.splits)

lemma source_loop_paced:
  "source_loop strerror config spec b attempts w = Some (es, w') \<Longrightarrow> paced b es"
proof (induction attempts arbitrary: b w es)
  case Nil
  then show ?case by simp
next
  case (Cons a attempts)
  show ?case
  proof (cases "stop_before a")
    case True
    then show ?thesis using Cons.prems by simp
  next
    case False
    then obtain r st w1 where
      "FfmpegSource_Stream strerror (cfg_ffmpeg_path config) (cfg_url config) (cfg_fps config)
          spec (spawn_result a) (begun a) (poll_rounds a) (ending a) w = Some (r, st, w1)"
      using Cons.prems by (auto simp: bind_eq_Some_conv)
    then show ?thesis
      using Cons.prems Cons.IH False paced_calls [of b "calls st" "[]"]
      by (auto simp: Let_def bind_eq_Some_conv paced_calls mult.commute split: if_splits)
  qed
qed

lemma paced_bounds:
  "paced b (pre @ Backoff n # post) \<Longrightarrow> 1 \<le> b \<Longrightarrow> b \<le> 30 \<Longrightarrow> 1 \<le> n \<and> n \<le> 30"
  by (induction b pre rule: paced.induct) auto

lemma paced_append_wait:
  "paced b (pre @ Backoff n # post) \<Longrightarrow> paced (min (2 * n) 30) post"
  by (induction b pre rule: paced.induct) auto

lemma paced_next:
  assumes "paced b (mid @ Backoff n # post)" "\<forall>m. Backoff m \<notin> set mid"
  shows "n = (if Announce \<in> set mid then 1 else b)"
  using assms by (induction b mid rule: paced.induct) auto

text \<open>C36. FFmpeg is never restarted in a busy loop: between two attempts the thread waits, one second at first and
  behind every stream that connected, otherwise twice as long as before, and never more than thirty seconds.\<close>

theorem restart_backoff:
  assumes "SourceLoop strerror config attempts w = Some (pre @ mid @ Backoff n # post, w')"
    and "\<forall>m. Backoff m \<notin> set mid" and "pre = [] \<or> (\<exists>pre'. pre = pre' @ [Backoff k])"
  shows "1 \<le> n \<and> n \<le> 30 \<and>
    n = (if Announce \<in> set mid \<or> pre = [] then 1 else min (2 * k) 30)"
proof -
  have p: "paced 1 (pre @ mid @ Backoff n # post)"
    using assms(1) source_loop_paced
    by (auto simp: SourceLoop_def split: sum.splits)
      (auto simp: append_eq_Cons_conv Cons_eq_append_conv)
  show ?thesis
  proof (cases "pre = []")
    case True
    then show ?thesis using p paced_next [of 1 mid n post] assms(2) by (simp split: if_splits)
  next
    case False
    then obtain pre' where "pre = pre' @ [Backoff k]" using assms(3) by blast
    then have "paced (min (2 * k) 30) (mid @ Backoff n # post)"
      using p paced_append_wait [of 1 pre' k] by simp
    then have "n = (if Announce \<in> set mid then 1 else min (2 * k) 30)"
      using paced_next assms(2) by blast
    moreover have "1 \<le> n \<and> n \<le> 30" using paced_bounds [of 1 "pre @ mid" n post] p by simp
    ultimately show ?thesis using False by simp
  qed
qed

text \<open>A daemon whose FFmpeg is missing, asked to stop in the third wait.\<close>

definition missing_ffmpeg :: "bool \<Rightarrow> attempt" where
  "missing_ffmpeg stop = \<lparr>stop_before = False, spawn_result = sample_answers\<lparr>executable := False\<rparr>, begun = 0,
     poll_rounds = [], ending = sample_final, stop_after = False, stop_in_wait = stop\<rparr>"

definition tcp_config :: Config where
  "tcp_config = Config_default\<lparr>cfg_url := ''tcp://a''\<rparr>"

lemma tcp_source: "\<exists>spec. ParseStreamSourceUrl (cfg_url tcp_config) (Some StreamSourceSpec_default) = Inr spec"
proof -
  have "\<not> isl (ParseStreamSourceUrl ''tcp://a'' (Some StreamSourceSpec_default))" by code_simp
  then show ?thesis
    by (cases "ParseStreamSourceUrl (cfg_url tcp_config) (Some StreamSourceSpec_default)")
      (simp_all add: tcp_config_def)
qed

lemma missing_ffmpeg_run:
  "SourceLoop (\<lambda>_. '''') tcp_config [missing_ffmpeg False, missing_ffmpeg False, missing_ffmpeg True] sample_world =
    (let r = Report ''configured FFmpeg executable is missing or not executable''
     in Some ([r, Backoff 1, r, Backoff 2, r, Backoff 4], sample_world))"
  using tcp_source
  by (auto simp: SourceLoop_def FfmpegSource_Stream_def missing_ffmpeg_def stream_start_def Let_def)

lemma restart_backoff_witness: "1 \<le> (2 :: int) \<and> (2 :: int) = min (2 * 1) 30"
proof -
  let ?r = "Report ''configured FFmpeg executable is missing or not executable''"
  have "SourceLoop (\<lambda>_. '''') tcp_config [missing_ffmpeg False, missing_ffmpeg False, missing_ffmpeg True] sample_world =
      Some ([?r, Backoff 1] @ [?r] @ Backoff 2 # [?r, Backoff 4], sample_world)"
    using missing_ffmpeg_run by (simp add: Let_def)
  from restart_backoff [OF this, of 1] show ?thesis by simp
qed

subsection \<open>Descriptors, children and messages of the whole thread\<close>

definition public_event :: "(int \<Rightarrow> string) \<Rightarrow> source_event \<Rightarrow> bool" where
  "public_event strerror e = (case e of Report m \<Rightarrow> m = [] \<or> stream_message strerror m | _ \<Rightarrow> True)"

lemma source_loop_clean:
  "source_loop strerror config spec b attempts w = Some (es, w') \<Longrightarrow>
    list_all (\<lambda>a. kernel_answers_ok (spawn_result a)) attempts \<Longrightarrow> child w \<noteq> Running \<Longrightarrow>
    mset (descriptors w') = mset (descriptors w) \<and> child w' \<noteq> Running \<and> list_all (public_event strerror) es"
proof (induction attempts arbitrary: b w es)
  case Nil
  then show ?case by simp
next
  case (Cons a attempts)
  show ?case
  proof (cases "stop_before a")
    case True
    then show ?thesis using Cons.prems by simp
  next
    case False
    then obtain r st w1 where call:
      "FfmpegSource_Stream strerror (cfg_ffmpeg_path config) (cfg_url config) (cfg_fps config)
          spec (spawn_result a) (begun a) (poll_rounds a) (ending a) w = Some (r, st, w1)"
      using Cons.prems by (auto simp: bind_eq_Some_conv)
    have "kernel_answers_ok (spawn_result a)" using Cons.prems(2) by simp
    note 1 = Stream_outcome [OF call this Cons.prems(3)]
    have 2: "list_all (public_event strerror) (map event_of_call cs)" for cs
      by (induction cs) (auto simp: public_event_def event_of_call_def split: stream_call.splits)
    have 3: "public_event strerror (Report (case r of Inl m \<Rightarrow> m | Inr _ \<Rightarrow> []))"
      using 1 by (cases r) (auto simp: public_event_def)
    have 4: "public_event strerror (Backoff n)" for n by (simp add: public_event_def)
    show ?thesis
      using Cons.prems False call 1 2 3 4
      by (auto simp: Let_def bind_eq_Some_conv split: if_splits dest: Cons.IH)
  qed
qed

text \<open>However many streams it starts and however they end, the source thread leaves the descriptors as they were
  and no child running, and every error it reports to the clients is free of the URL, of credentials
  in it, and of FFmpeg's output.\<close>

theorem SourceLoop_clean:
  assumes "SourceLoop strerror config attempts w = Some (es, w')"
    and "list_all (\<lambda>a. kernel_answers_ok (spawn_result a)) attempts" "child w \<noteq> Running"
  shows "mset (descriptors w') = mset (descriptors w) \<and> child w' \<noteq> Running
    \<and> (\<forall>m. Report m \<in> set es \<longrightarrow> m = [] \<or> stream_message strerror m)"
proof (cases "ParseStreamSourceUrl (cfg_url config) (Some StreamSourceSpec_default)")
  case (Inl e)
  then show ?thesis using assms by (auto simp: SourceLoop_def)
next
  case (Inr spec)
  then have "source_loop strerror config spec 1 attempts w = Some (es, w')"
    using assms(1) by (simp add: SourceLoop_def)
  from source_loop_clean [OF this assms(2,3)] show ?thesis
    by (fastforce simp: list_all_iff public_event_def)
qed

lemma SourceLoop_clean_witness:
  "mset (descriptors sample_world) = mset [3, 4]
    \<and> stream_message (\<lambda>_. '''') ''configured FFmpeg executable is missing or not executable''"
proof -
  have "list_all (\<lambda>a. kernel_answers_ok (spawn_result a)) [missing_ffmpeg False, missing_ffmpeg False, missing_ffmpeg True]"
    by (simp add: missing_ffmpeg_def kernel_answers_ok_def sample_answers_def)
  from SourceLoop_clean [OF missing_ffmpeg_run [unfolded Let_def] this sample_ok(2)] show ?thesis
    by (simp add: sample_world_def)
qed

subsection \<open>The source thread among the other threads\<close>

fun times_of :: "source_event list \<Rightarrow> int list" where
  "times_of [] = []"
| "times_of (Deliver t jpeg # es) = t # times_of es"
| "times_of (e # es) = times_of es"

lemma source_event_steps:
  assumes "source_alive s" "sorted (clock s # times_of (e # es))"
  shows "\<exists>s1. (engine_step decode reason encode strerror)\<^sup>*\<^sup>* s s1 \<and> engine s1 = apply_event e (engine s)
    \<and> source_alive s1 \<and> sorted (clock s1 # times_of es)"
proof -
  let ?step = "engine_step decode reason encode strerror"
  consider (report) c m where "times_of (e # es) = times_of es" "apply_event e (engine s) =
        (engine s)\<lparr>status := (status (engine s))\<lparr>source_connected := c, status_error := m\<rparr>\<rparr>"
    | (deliver) t jpeg where "e = Deliver t jpeg" | (wait) n where "e = Backoff n"
  proof (cases e)
    case (Refused m)
    then show ?thesis by (intro that(1) [of m "source_connected (status (engine s))"]) simp_all
  next
    case Announce
    then show ?thesis by (intro that(1) [of "[]" True]) simp_all
  next
    case (Report m)
    then show ?thesis by (intro that(1) [of m False]) simp_all
  qed (use that(2,3) in blast)+
  then show ?thesis
  proof cases
    case report
    have "?step s (s\<lparr>engine := apply_event e (engine s)\<rparr>)"
      unfolding report(2) by (rule source_reports) fact
    then show ?thesis using assms report(1)
      by (intro exI [of _ "s\<lparr>engine := apply_event e (engine s)\<rparr>"]) simp
  next
    case deliver
    let ?s = "s\<lparr>clock := t\<rparr>"
    have "?step s ?s" using assms(2) deliver by (intro time_passes) auto
    moreover have "?step ?s (publish_step (jpeg_frame_at t jpeg) ?s)"
      using assms(1) by (intro source_delivers) (simp_all add: jpeg_frame_at_def)
    ultimately have "?step\<^sup>*\<^sup>* s (publish_step (jpeg_frame_at t jpeg) ?s)" by simp
    then show ?thesis using assms deliver
      by (intro exI [of _ "publish_step (jpeg_frame_at t jpeg) ?s"]) (simp add: publish_step_def)
  next
    case wait
    then show ?thesis using assms by (intro exI [of _ s]) simp
  qed
qed



end
