(* ===== verification/Posix_Calls.thy ===== *)
theory Posix_Calls
  imports Text_Format V4l2_Sink
begin

section \<open>Credentials and whole writes\<close>

text \<open>
  What the two programs of the daemon (\<open>main.cpp\<close>, \<open>socket_proxy.cpp\<close>) share: the user and group
  identities of a process as POSIX changes them, socket names, and the interfaces of their two
  privilege drops and of their two write loops.
\<close>

subsection \<open>Identities\<close>

record credentials =
  ruid :: int
  euid :: int
  suid :: int
  rgid :: int
  egid :: int
  sgid :: int
  supplementary :: "int list"
  no_new_privs :: bool

text \<open>Each call has the return value that the kernel gives as its first argument and changes the identities only when
  that is zero; a process without effective user 0 changes only its effective identity.\<close>

definition setgroups :: "int \<Rightarrow> int list \<Rightarrow> credentials \<Rightarrow> credentials" where
  "setgroups result groups c = (if result = 0 then c\<lparr>supplementary := groups\<rparr> else c)"

definition setgid :: "int \<Rightarrow> int \<Rightarrow> credentials \<Rightarrow> credentials" where
  "setgid result g c =
     (if result \<noteq> 0 then c
      else if euid c = 0 then c\<lparr>rgid := g, egid := g, sgid := g\<rparr> else c\<lparr>egid := g\<rparr>)"

definition setuid :: "int \<Rightarrow> int \<Rightarrow> credentials \<Rightarrow> credentials" where
  "setuid result u c =
     (if result \<noteq> 0 then c
      else if euid c = 0 then c\<lparr>ruid := u, euid := u, suid := u\<rparr> else c\<lparr>euid := u\<rparr>)"

definition set_no_new_privs :: "int \<Rightarrow> credentials \<Rightarrow> credentials" where
  "set_no_new_privs result c = (if result = 0 then c\<lparr>no_new_privs := True\<rparr> else c)"

text \<open>The users a process may still become by \<open>setuid\<close> or \<open>seteuid\<close>; executing a set-user-ID file
  adds one unless that is disabled.\<close>

definition may_become :: "int \<Rightarrow> credentials \<Rightarrow> bool" where
  "may_become u c \<longleftrightarrow> euid c = 0 \<or> u = ruid c \<or> u = suid c \<or> \<not> no_new_privs c"

text \<open>The results of the four calls.\<close>

record drop_answers =
  setgroups_result :: int
  setgid_result :: int
  setuid_result :: int
  prctl_result :: int

text \<open>The process is the system user for good, with the given supplementary groups.\<close>

definition dropped :: "int list \<Rightarrow> credentials \<Rightarrow> bool" where
  "dropped groups c \<longleftrightarrow> ruid c = 1000 \<and> euid c = 1000 \<and> suid c = 1000
     \<and> rgid c = 1000 \<and> egid c = 1000 \<and> sgid c = 1000 \<and> supplementary c = groups \<and> no_new_privs c"

locale privilege_drop =
  fixes drop_to :: "drop_answers \<Rightarrow> credentials \<Rightarrow> bool \<times> credentials"
    and groups :: "int list"
  assumes drop_success: "drop_to a c = (True, c') \<Longrightarrow> dropped groups c'"
    and needs_root: "drop_to a c = (True, c') \<Longrightarrow> ruid c = 0"
begin

lemma never_root_again: "drop_to a c = (True, c') \<Longrightarrow> \<not> may_become 0 c'"
  using drop_success by (auto simp: dropped_def may_become_def)

lemma not_twice: "drop_to a c = (True, c') \<Longrightarrow> \<not> fst (drop_to b c')"
  using drop_success [of a c c'] needs_root [of b c' "snd (drop_to b c')"]
  by (cases "drop_to b c'") (auto simp: dropped_def)

end

subsection \<open>Socket names\<close>

definition safe_name_char :: "char \<Rightarrow> bool" where
  "safe_name_char c \<longleftrightarrow> is_lower c \<or> is_upper c \<or> is_digit c \<or> c \<in> set ''_.-''"

text \<open>The size of \<open>sun_path\<close>.\<close>

definition sun_path_size :: nat where "sun_path_size = 108"

text \<open>A name that fits behind the leading zero byte of an abstract address, with room to spare.\<close>

definition socket_name :: "string \<Rightarrow> bool" where
  "socket_name name \<longleftrightarrow> name \<noteq> [] \<and> length name < sun_path_size - 1 \<and> list_all safe_name_char name"

subsection \<open>Writing everything\<close>

text \<open>
  A loop that writes a buffer to a descriptor: \<open>send_all\<close> takes the kernel's answers (the count and \<open>errno\<close> of
  each call) and gives whether it finished, what was written, and the answers not used.
\<close>

type_synonym send_answers = "(int \<times> int) list"

locale whole_writer =
  fixes send_all :: "send_answers \<Rightarrow> 'a list \<Rightarrow> (bool \<times> 'a list \<times> send_answers) option"
  assumes sends_prefix: "send_all answers data = Some (ok, sent, rest) \<Longrightarrow> prefix sent data"
    and sends_all: "send_all answers data = Some (True, sent, rest) \<Longrightarrow> sent = data"
    and nothing_to_send: "send_all answers [] = Some (True, [], answers)"
begin

text \<open>Several buffers one after the other, up to the first that fails.\<close>

fun send_each :: "send_answers \<Rightarrow> 'a list list \<Rightarrow> (bool \<times> 'a list) option" where
  "send_each answers [] = Some (True, [])"
| "send_each answers (b # bs) =
     (case send_all answers b of
        None \<Rightarrow> None
      | Some (ok, sent, rest) \<Rightarrow>
          if ok then map_option (\<lambda>(ok, more). (ok, sent @ more)) (send_each rest bs) else Some (False, sent))"

lemma send_each_prefix: "send_each answers bs = Some (ok, sent) \<Longrightarrow> prefix sent (concat bs) \<and> (ok \<longrightarrow> sent = concat bs)"
proof (induction bs arbitrary: answers sent)
  case Nil
  then show ?case by simp
next
  case (Cons b bs)
  obtain ok1 sent1 rest where 1: "send_all answers b = Some (ok1, sent1, rest)"
    using Cons.prems by (auto split: option.splits)
  show ?case
  proof (cases ok1)
    case True
    then show ?thesis using Cons 1 sends_all [of answers b sent1 rest]
      by (auto simp: map_option_eq_Some)
  next
    case False
    then show ?thesis using Cons.prems 1 sends_prefix [OF 1] by (auto intro: prefix_prefix)
  qed
qed

end

end
