(* ===== verification/Socket_Proxy.thy ===== *)
theory Socket_Proxy
  imports Posix_Calls
begin

section \<open>The socket proxy\<close>

text \<open>
  \<open>socket_proxy.cpp\<close>: the program between the controller application and the daemon. It listens on two public
  abstract sockets, checks the peer and relays bytes to the daemon's private sockets. The
  kernel's answers are arguments, one record for each round of a loop; the value the stop
  flag has when a loop reads it is part of the round. \<open>None\<close> means that a list of answers ends while the
  code still asks.
\<close>

subsection \<open>Options\<close>

record Options =
  allowed_uid :: u32
  public_control :: string
  private_control :: string
  public_frames :: string
  private_frames :: string
  drop_to_system :: bool

definition Options_default :: Options where
  "Options_default = \<lparr>allowed_uid = -1, public_control = ''vcamesd'', private_control = ''vcamesd_private'',
     public_frames = ''vcamesd_frames'', private_frames = ''vcamesd_frames_private'', drop_to_system = False\<rparr>"

definition SafeSocketName :: "string \<Rightarrow> bool" where
  "SafeSocketName name \<longleftrightarrow> name \<noteq> [] \<and> length name < sun_path_size - 1
     \<and> list_all (\<lambda>c. c \<in> set ''abcdefghijklmnopqrstuvwxyzABCDEFGHIJKLMNOPQRSTUVWXYZ0123456789_.-'') name"

definition ParseUid :: "string \<Rightarrow> u32 option" where
  "ParseUid text =
     (case from_chars_ulong text of
        Parsed value rest \<Rightarrow>
          if text = [] \<or> rest \<noteq> [] \<or> value < 10000 \<or> 2000000 < value then None
          else Some (of_nat value)
      | _ \<Rightarrow> None)"

text \<open>The arguments behind the program's name.\<close>

fun read_arguments :: "string list \<Rightarrow> Options \<Rightarrow> Options option" where
  "read_arguments [] options = Some options"
| "read_arguments (argument # arguments) options =
     (if argument = ''--drop-to-system'' then read_arguments arguments (options\<lparr>drop_to_system := True\<rparr>)
      else case arguments of
        [] \<Rightarrow> None
      | value # arguments \<Rightarrow>
          if argument = ''--allowed-uid'' then
            (case ParseUid value of
               None \<Rightarrow> None
             | Some uid \<Rightarrow> read_arguments arguments (options\<lparr>allowed_uid := uid\<rparr>))
          else if \<not> (argument = ''--public-control'' \<or> argument = ''--private-control''
              \<or> argument = ''--public-frames'' \<or> argument = ''--private-frames'') \<or> \<not> SafeSocketName value then None
          else read_arguments arguments
            (if argument = ''--public-control'' then options\<lparr>public_control := value\<rparr>
             else if argument = ''--private-control'' then options\<lparr>private_control := value\<rparr>
             else if argument = ''--public-frames'' then options\<lparr>public_frames := value\<rparr>
             else options\<lparr>private_frames := value\<rparr>))"

definition ParseOptions :: "string list \<Rightarrow> Options option" where
  "ParseOptions arguments =
     (case read_arguments arguments Options_default of
        None \<Rightarrow> None
      | Some options \<Rightarrow>
          if allowed_uid options \<noteq> -1 \<and> public_control options \<noteq> private_control options
             \<and> public_frames options \<noteq> private_frames options
          then Some options else None)"

subsection \<open>Peers and addresses\<close>

text \<open>The answer of \<open>getsockopt\<close>: the peer's user, if the call succeeds.\<close>

definition AllowedPeer :: "u32 option \<Rightarrow> u32 \<Rightarrow> bool" where
  "AllowedPeer peer allowed =
     (case peer of None \<Rightarrow> False | Some uid \<Rightarrow> uid = allowed \<or> uid = 0 \<or> uid = 1000)"

text \<open>The bytes of \<open>sun_path\<close> that count, and the length of the address; the family takes two bytes.\<close>

definition MakeAddress :: "string \<Rightarrow> string \<times> nat" where
  "MakeAddress name = (CHR 0x00 # name, 2 + 1 + length name)"

text \<open>Both keep the list of open descriptors; the arguments are the results of \<open>socket\<close> and of the calls behind.\<close>

definition CreateListener :: "int \<Rightarrow> int \<Rightarrow> int \<Rightarrow> int list \<Rightarrow> int \<times> int list" where
  "CreateListener s bind_result listen_result opened =
     (if s < 0 then (-1, opened)
      else if bind_result \<noteq> 0 \<or> listen_result \<noteq> 0 then (-1, remove1 s (s # opened))
      else (s, s # opened))"

definition Connect :: "int \<Rightarrow> int \<Rightarrow> int list \<Rightarrow> int \<times> int list" where
  "Connect s connect_result opened =
     (if s < 0 then (-1, opened)
      else if connect_result \<noteq> 0 then (-1, remove1 s (s # opened))
      else (s, s # opened))"

subsection \<open>Relaying\<close>

fun proxy_send :: "send_answers \<Rightarrow> 'a list \<Rightarrow> 'a list \<Rightarrow> (bool \<times> 'a list \<times> send_answers) option" where
  "proxy_send answers [] sent = Some (True, sent, answers)"
| "proxy_send [] (x # xs) sent = None"
| "proxy_send ((count, errno) # answers) (x # xs) sent =
     (if 0 < count then
        proxy_send answers (drop (nat count) (x # xs)) (sent @ take (nat count) (x # xs))
      else if count < 0 \<and> errno = EINTR then proxy_send answers (x # xs) sent
      else Some (False, sent, answers))"

definition Proxy_WriteAll :: "send_answers \<Rightarrow> 'a list \<Rightarrow> (bool \<times> 'a list \<times> send_answers) option" where
  "Proxy_WriteAll answers data = proxy_send answers data []"

text \<open>One direction of a connection: whether its source is still readable, what was read and
  what was written to the other side, and whether the other side was shut down for writing.\<close>

record direction =
  readable :: bool
  taken_bytes :: bytes
  given_bytes :: bytes
  shut :: bool

definition direction_new :: direction where
  "direction_new = \<lparr>readable = True, taken_bytes = [], given_bytes = [], shut = False\<rparr>"

text \<open>One of the two blocks of the loop; \<open>ready\<close> is whether \<open>POLLIN\<close> or \<open>POLLHUP\<close> is set, \<open>data\<close> what \<open>read\<close> gives
  (nothing at the end or on an error). The result says whether the loop goes on.\<close>

definition pump :: "bool \<Rightarrow> bytes \<Rightarrow> send_answers \<Rightarrow> direction \<Rightarrow> (bool \<times> direction) option" where
  "pump ready data answers d =
     (if readable d \<and> ready then
        if data \<noteq> [] then do {
          (ok, sent, _) \<leftarrow> Proxy_WriteAll answers data;
          Some (ok, d\<lparr>taken_bytes := taken_bytes d @ data, given_bytes := given_bytes d @ sent\<rparr>) }
        else Some (True, d\<lparr>readable := False, shut := True\<rparr>)
      else Some (True, d))"

record relay_round =
  g_stop_seen :: bool
  relay_poll :: int
  relay_errno :: int
  client_ready :: bool
  client_data :: bytes
  target_sends :: send_answers
  target_ready :: bool
  target_data :: bytes
  client_sends :: send_answers
  relay_broken :: bool  \<comment> \<open>\<open>POLLERR\<close> or \<open>POLLNVAL\<close> on either side\<close>

fun relay_loop :: "relay_round list \<Rightarrow> direction \<times> direction \<Rightarrow> (direction \<times> direction) option" where
  "relay_loop [] (up, down) = (if readable up \<or> readable down then None else Some (up, down))"
| "relay_loop (r # rounds) (up, down) =
     (if g_stop_seen r \<or> \<not> (readable up \<or> readable down) then Some (up, down)
      else if relay_poll r < 0 then
        (if relay_errno r = EINTR then relay_loop rounds (up, down) else Some (up, down))
      else if relay_poll r = 0 then relay_loop rounds (up, down)
      else do {
        (go, up) \<leftarrow> pump (client_ready r) (client_data r) (target_sends r) up;
        if \<not> go then Some (up, down)
        else do {
          (go, down) \<leftarrow> pump (target_ready r) (target_data r) (client_sends r) down;
          if \<not> go \<or> relay_broken r then Some (up, down)
          else relay_loop rounds (up, down) } })"

definition Relay ::
  "int \<Rightarrow> int \<Rightarrow> relay_round list \<Rightarrow> int list \<Rightarrow> (direction \<times> direction \<times> int list) option" where
  "Relay client target rounds opened = do {
     (up, down) \<leftarrow> relay_loop rounds (direction_new, direction_new);
     Some (up, down, remove1 client (remove1 target opened)) }"

subsection \<open>Serving\<close>

record accept_round =
  stop_before_accept :: bool
  accepted :: int
  accept_errno :: int
  peer :: "u32 option"
  target_socket :: int
  target_connect :: int
  relay_rounds :: "relay_round list"

text \<open>\<open>Serve\<close>: the peers that were relayed with what passed in each direction, and the open descriptors.\<close>

fun Serve ::
  "u32 \<Rightarrow> accept_round list \<Rightarrow> int list \<Rightarrow> ((u32 option \<times> direction \<times> direction) list \<times> int list) option" where
  "Serve allowed [] opened = None"
| "Serve allowed (a # rounds) opened =
     (if stop_before_accept a then Some ([], opened)
      else if accepted a < 0 then
        (if accept_errno a = EINTR then Serve allowed rounds opened else Some ([], opened))
      else let client = accepted a; opened = client # opened in
      if \<not> AllowedPeer (peer a) allowed then Serve allowed rounds (remove1 client opened)
      else let (target, opened) = Connect (target_socket a) (target_connect a) opened in
      if target < 0 then Serve allowed rounds (remove1 client opened)
      else do {
        (up, down, opened) \<leftarrow> Relay client target (relay_rounds a) opened;
        (served, opened) \<leftarrow> Serve allowed rounds opened;
        Some ((peer a, up, down) # served, opened) })"

subsection \<open>Privileges and the program\<close>

definition DropPrivileges :: "drop_answers \<Rightarrow> credentials \<Rightarrow> bool \<times> credentials" where
  "DropPrivileges a c =
     (if ruid c \<noteq> 0 then (False, c)
      else let c = setgroups (setgroups_result a) [] c in
      if setgroups_result a \<noteq> 0 then (False, c)
      else let c = setgid (setgid_result a) 1000 c in
      if setgid_result a \<noteq> 0 then (False, c)
      else let c = setuid (setuid_result a) 1000 c in
      if setuid_result a \<noteq> 0 then (False, c)
      else let c = set_no_new_privs (prctl_result a) c in
      if prctl_result a \<noteq> 0 then (False, c)
      else (ruid c = 1000 \<and> euid c = 1000, c))"

record listener_answers =
  socket_answer :: int
  bind_answer :: int
  listen_answer :: int

text \<open>What the program leaves: its exit status, the open descriptors, the identity under which the two
  servers ran (if they ran), and whom they served.\<close>

text \<open>The two listeners; an exchange of one with -1 closes what it held.\<close>

record proxy_globals =
  g_stop :: bool
  g_listeners :: "int list"
  g_open :: "int list"

definition close_listener :: "nat \<Rightarrow> proxy_globals \<Rightarrow> proxy_globals" where
  "close_listener i g = (let fd = g_listeners g ! i in
     g\<lparr>g_listeners := (g_listeners g)[i := -1], g_open := (if 0 \<le> fd then remove1 fd (g_open g) else g_open g)\<rparr>)"

definition Proxy_SignalHandler :: "proxy_globals \<Rightarrow> proxy_globals" where
  "Proxy_SignalHandler g = fold close_listener [0..<length (g_listeners g)] (g\<lparr>g_stop := True\<rparr>)"

record proxy_run =
  exit_status :: int
  left_open :: "int list"
  served_as :: "credentials option"
  relayed :: "(u32 option \<times> direction \<times> direction) list"

text \<open>The two servers run in two threads; what they do to the descriptors does not interfere (each removes
  only what it added), so the second starts here where the first ends. \<open>interrupted\<close> says whether a signal arrives
  while they run; the two exchanges at the end close what its handler has not closed.\<close>

definition proxy_main ::
  "string list \<Rightarrow> listener_answers \<Rightarrow> listener_answers \<Rightarrow> drop_answers \<Rightarrow> credentials
     \<Rightarrow> accept_round list \<Rightarrow> accept_round list \<Rightarrow> bool \<Rightarrow> int list \<Rightarrow> proxy_run option" where
  "proxy_main arguments control_answers frame_answers drop_answers c control_rounds frame_rounds interrupted opened =
     (case ParseOptions arguments of
        None \<Rightarrow> Some \<lparr>exit_status = 64, left_open = opened, served_as = None, relayed = []\<rparr>
      | Some options \<Rightarrow> let
          (control, opened) = CreateListener (socket_answer control_answers) (bind_answer control_answers)
            (listen_answer control_answers) opened;
          (frames, opened) = CreateListener (socket_answer frame_answers) (bind_answer frame_answers)
            (listen_answer frame_answers) opened in
        if control < 0 \<or> frames < 0 then
          Some \<lparr>exit_status = 1, left_open =
            (let opened = (if 0 \<le> control then remove1 control opened else opened)
             in if 0 \<le> frames then remove1 frames opened else opened), served_as = None, relayed = []\<rparr>
        else let (ok, c) = (if drop_to_system options then DropPrivileges drop_answers c else (True, c)) in
        if \<not> ok then
          Some \<lparr>exit_status = 1, left_open = remove1 control (remove1 frames opened), served_as = None, relayed = []\<rparr>
        else do {
          (served_frames, opened) \<leftarrow> Serve (allowed_uid options) frame_rounds opened;
          (served_control, opened) \<leftarrow> Serve (allowed_uid options) control_rounds opened;
          let g = \<lparr>g_stop = False, g_listeners = [control, frames], g_open = opened\<rparr>;
          let g = (if interrupted then Proxy_SignalHandler g else g);
          let g = close_listener 1 (g\<lparr>g_stop := True\<rparr>);
          let g = close_listener 0 g;
          Some \<lparr>exit_status = 0, left_open = g_open g, served_as = Some c,
            relayed = served_frames @ served_control\<rparr> })"

subsection \<open>Options: what is accepted\<close>

lemma SafeSocketName_iff: "SafeSocketName name \<longleftrightarrow> socket_name name"
proof -
  have "c \<in> set ''abcdefghijklmnopqrstuvwxyzABCDEFGHIJKLMNOPQRSTUVWXYZ0123456789_.-'' \<longleftrightarrow> safe_name_char c" for c
    by (cases c; rename_tac b0 b1 b2 b3 b4 b5 b6 b7; case_tac b0; case_tac b1; case_tac b2; case_tac b3;
        case_tac b4; case_tac b5; case_tac b6; case_tac b7)
      (simp_all add: safe_name_char_def is_lower_def is_upper_def is_digit_def code_def)
  then show ?thesis by (simp add: SafeSocketName_def socket_name_def)
qed

text \<open>Options whose names may be bound and whose user is an application, if one was given.\<close>

definition usable :: "Options \<Rightarrow> bool" where
  "usable o1 \<longleftrightarrow> socket_name (public_control o1) \<and> socket_name (private_control o1)
     \<and> socket_name (public_frames o1) \<and> socket_name (private_frames o1)
     \<and> (allowed_uid o1 = -1 \<or> 10000 \<le> unat (allowed_uid o1) \<and> unat (allowed_uid o1) \<le> 2000000)"

lemma ParseUid_range: "ParseUid text = Some uid \<Longrightarrow> 10000 \<le> unat uid \<and> unat uid \<le> 2000000"
  by (auto simp: ParseUid_def unat_of_nat split: from_chars_result.splits if_splits)

lemma read_arguments_usable:
  "read_arguments arguments o1 = Some o2 \<Longrightarrow> usable o1 \<Longrightarrow> usable o2"
proof (induction arguments o1 rule: read_arguments.induct)
  case (1 o1)
  then show ?case by simp
next
  case (2 argument arguments o1)
  show ?case
  proof (cases "argument = ''--drop-to-system''")
    case True
    have "usable (o1\<lparr>drop_to_system := True\<rparr>)" using 2 by (simp add: usable_def)
    then show ?thesis using 2 True by simp
  next
    case False
    then obtain v rest where arguments: "arguments = v # rest" using 2 by (cases arguments) auto
    show ?thesis
    proof (cases "argument = ''--allowed-uid''")
      case True
      then obtain uid where uid: "ParseUid v = Some uid" using 2 False arguments by (auto split: option.splits)
      have "usable (o1\<lparr>allowed_uid := uid\<rparr>)" using 2 ParseUid_range [OF uid] by (simp add: usable_def)
      then show ?thesis using 2 False True arguments uid by simp
    next
      case False
      note other = \<open>argument \<noteq> ''--drop-to-system''\<close> False
      define o3 where "o3 = (if argument = ''--public-control'' then o1\<lparr>public_control := v\<rparr>
             else if argument = ''--private-control'' then o1\<lparr>private_control := v\<rparr>
             else if argument = ''--public-frames'' then o1\<lparr>public_frames := v\<rparr>
             else o1\<lparr>private_frames := v\<rparr>)"
      have go: "socket_name v" "read_arguments rest o3 = Some o2"
        using 2(4) other arguments by (auto simp: o3_def SafeSocketName_iff split: if_splits)
      have "usable o3" using 2(5) go(1) by (simp add: usable_def o3_def)
      then show ?thesis using 2(3) [OF other(1) arguments other(2)] 2(4) go other arguments
        by (auto simp: o3_def SafeSocketName_iff split: if_splits)
    qed
  qed
qed

lemma Options_default_usable: "usable Options_default"
  by (simp add: usable_def Options_default_def socket_name_def sun_path_size_def safe_name_char_def
      is_lower_def is_upper_def is_digit_def code_def)

lemma ParseOptions_result:
  assumes "ParseOptions arguments = Some o1"
  shows "usable o1 \<and> allowed_uid o1 \<noteq> -1 \<and> public_control o1 \<noteq> private_control o1
    \<and> public_frames o1 \<noteq> private_frames o1"
  using assms read_arguments_usable [OF _ Options_default_usable]
  by (auto simp: ParseOptions_def split: option.splits if_splits)

subsection \<open>Relaying: nothing is lost, added or reordered\<close>

lemma proxy_send_result:
  "proxy_send answers data sent = Some (ok, out, rest) \<Longrightarrow>
    \<exists>more. out = sent @ more \<and> prefix more data \<and> (ok \<longrightarrow> more = data)"
proof (induction answers data sent rule: proxy_send.induct)
  case (1 answers sent)
  then show ?case by simp
next
  case (2 x xs sent)
  then show ?case by simp
next
  case (3 count errno answers x xs sent)
  show ?case
  proof (cases "0 < count")
    case True
    from 3(1) [OF True] 3(3) True obtain more where
      "out = (sent @ take (nat count) (x # xs)) @ more" "prefix more (drop (nat count) (x # xs))"
      "ok \<longrightarrow> more = drop (nat count) (x # xs)" by auto
    moreover have "prefix (take (nat count) (x # xs) @ more) (x # xs)"
      if "prefix more (drop (nat count) (x # xs))" for more
      using that by (metis append_take_drop_id same_prefix_prefix)
    ultimately show ?thesis
      by (intro exI [of _ "take (nat count) (x # xs) @ more"]) (auto simp del: take_Cons drop_Cons)
  next
    case False
    then show ?thesis using 3 by (auto split: if_splits)
  qed
qed

interpretation proxy_writer: whole_writer "Proxy_WriteAll :: send_answers \<Rightarrow> 'a list \<Rightarrow> _"
proof unfold_locales
  fix answers rest :: send_answers and data sent :: "'a list" and ok
  show "Proxy_WriteAll answers [] = Some (True, [] :: 'a list, answers)"
    by (simp add: Proxy_WriteAll_def)
  show "prefix sent data" if "Proxy_WriteAll answers data = Some (ok, sent, rest)"
    using proxy_send_result [of answers data "[]"] that by (auto simp: Proxy_WriteAll_def)
  show "sent = data" if "Proxy_WriteAll answers data = Some (True, sent, rest)"
    using proxy_send_result [of answers data "[]" True] that by (auto simp: Proxy_WriteAll_def)
qed

text \<open>A direction between two rounds: what was given is what was taken, and the far side is shut exactly when the
  near side has ended.\<close>

definition steady :: "direction \<Rightarrow> bool" where
  "steady d \<longleftrightarrow> given_bytes d = taken_bytes d \<and> shut d = (\<not> readable d)"

text \<open>A direction at the end: a write may have failed in the middle of the last piece.\<close>

definition faithful :: "direction \<Rightarrow> bool" where
  "faithful d \<longleftrightarrow> prefix (given_bytes d) (taken_bytes d) \<and> shut d = (\<not> readable d)
     \<and> (shut d \<longrightarrow> given_bytes d = taken_bytes d)"

lemma steady_faithful: "steady d \<Longrightarrow> faithful d"
  by (simp add: steady_def faithful_def)

lemma pump_steady:
  assumes "pump ready data answers d = Some (go, d')" "steady d"
  shows "faithful d' \<and> (go \<longrightarrow> steady d')"
proof (cases "readable d \<and> ready \<and> data \<noteq> []")
  case True
  then obtain sent rest where send: "Proxy_WriteAll answers data = Some (go, sent, rest)"
    and d': "d' = d\<lparr>taken_bytes := taken_bytes d @ data, given_bytes := given_bytes d @ sent\<rparr>"
    using assms(1) by (auto simp: pump_def bind_eq_Some_conv)
  have "prefix sent data" "go \<Longrightarrow> sent = data"
    using proxy_writer.sends_prefix [OF send] proxy_writer.sends_all send by auto
  then show ?thesis using assms(2) True d' by (auto simp: steady_def faithful_def)
next
  case False
  then show ?thesis using assms by (auto simp: pump_def steady_def faithful_def split: if_splits)
qed

lemma relay_loop_faithful:
  "relay_loop rounds (up, down) = Some (up', down') \<Longrightarrow> steady up \<Longrightarrow> steady down \<Longrightarrow>
    faithful up' \<and> faithful down'"
proof (induction rounds arbitrary: up down)
  case Nil
  then show ?case using steady_faithful by (auto split: if_splits)
next
  case (Cons r rounds)
  show ?case
  proof (cases "g_stop_seen r \<or> \<not> (readable up \<or> readable down) \<or> relay_poll r \<le> 0")
    case True
    then show ?thesis using Cons steady_faithful by (auto split: if_splits)
  next
    case False
    then obtain go1 up1 where up: "pump (client_ready r) (client_data r) (target_sends r) up = Some (go1, up1)"
      using Cons.prems(1) by (auto simp: bind_eq_Some_conv split: if_splits)
    note 1 = pump_steady [OF up Cons.prems(2)]
    show ?thesis
    proof (cases go1)
      case False
      then show ?thesis using Cons.prems \<open>\<not> (g_stop_seen r \<or> _ \<or> _)\<close> up 1 steady_faithful
        by auto
    next
      case True
      note going = this
      obtain go2 down1 where down:
        "pump (target_ready r) (target_data r) (client_sends r) down = Some (go2, down1)"
        using Cons.prems(1) False up True by (auto simp: bind_eq_Some_conv)
      note 2 = pump_steady [OF down Cons.prems(3)]
      show ?thesis
      proof (cases "\<not> go2 \<or> relay_broken r")
        case True
        then show ?thesis using Cons.prems(1) False going up down 1 2 steady_faithful by auto
      next
        case more: False
        then show ?thesis using Cons.prems(1) Cons.IH [of up1 down1] False going up down 1 2 by auto
      qed
    qed
  qed
qed

lemma steady_new: "steady direction_new"
  by (simp add: steady_def direction_new_def)

lemma Relay_result:
  assumes "Relay client target rounds (target # client # opened) = Some (up, down, opened')"
  shows "faithful up \<and> faithful down \<and> opened' = opened"
  using assms relay_loop_faithful [OF _ steady_new steady_new]
  by (auto simp: Relay_def bind_eq_Some_conv)

text \<open>Between the client's complete hang-up and the daemon's answer the loop does not sleep: \<open>POLLHUP\<close> is reported
  without being asked for, so \<open>poll\<close> returns at once and the round changes nothing.\<close>

lemma relay_spins:
  assumes "\<not> g_stop_seen r" "relay_poll r = 1" "client_ready r" "\<not> target_ready r" "\<not> relay_broken r"
    and "\<not> readable up" "readable down"
  shows "relay_loop (r # rounds) (up, down) = relay_loop rounds (up, down)"
  using assms by (simp add: pump_def)

subsection \<open>Serving: whom, and without leaks\<close>

lemma Serve_result:
  "Serve allowed rounds opened = Some (served, opened') \<Longrightarrow>
    opened' = opened \<and> list_all (\<lambda>(p, up, down). p \<in> Some ` {allowed, 0, 1000} \<and> faithful up \<and> faithful down) served"
proof (induction rounds arbitrary: opened served opened')
  case Nil
  then show ?case by simp
next
  case (Cons a rounds)
  show ?case
  proof (cases "stop_before_accept a \<or> accepted a < 0 \<or> \<not> AllowedPeer (peer a) allowed
      \<or> target_socket a < 0 \<or> target_connect a \<noteq> 0")
    case True
    then show ?thesis using Cons by (auto simp: Let_def Connect_def split: if_splits)
  next
    case False
    then obtain up down opened1 more where
      relay: "Relay (accepted a) (target_socket a) (relay_rounds a) (target_socket a # accepted a # opened)
        = Some (up, down, opened1)" and
      rest: "Serve allowed rounds opened1 = Some (more, opened')" and
      served: "served = (peer a, up, down) # more"
      using Cons.prems by (auto simp: Let_def Connect_def bind_eq_Some_conv split: if_splits)
    have "peer a \<in> Some ` {allowed, 0, 1000}" using False by (auto simp: AllowedPeer_def split: option.splits)
    then show ?thesis using Relay_result [OF relay] Cons.IH [OF rest] served by simp
  qed
qed

subsection \<open>The program\<close>

interpretation proxy_drop: privilege_drop DropPrivileges "[]"
  by unfold_locales
    (auto simp: DropPrivileges_def dropped_def setgroups_def setgid_def setuid_def set_no_new_privs_def Let_def
      split: if_splits)

lemma CreateListener_result:
  "CreateListener s b l opened = (s', opened') \<Longrightarrow> (if s' < 0 then opened' = opened else opened' = s' # opened)"
  by (auto simp: CreateListener_def split: if_splits)

text \<open>Each listener is closed once, by the handler or by \<open>main\<close>.\<close>

lemma proxy_shutdown:
  assumes "0 \<le> control" "0 \<le> frames"
    and "g = \<lparr>g_stop = False, g_listeners = [control, frames], g_open = frames # control # opened\<rparr>"
  shows "g_open (close_listener 0 (close_listener 1 ((if interrupted then Proxy_SignalHandler g else g)\<lparr>g_stop := True\<rparr>)))
    = opened"
  using assms(1,2) unfolding assms(3) by (simp add: Proxy_SignalHandler_def close_listener_def Let_def upt_rec)

lemma proxy_main_result:
  assumes "proxy_main arguments ca fa da c control_rounds frame_rounds interrupted opened = Some run"
  shows "left_open run = opened \<and> exit_status run \<in> {0, 1, 64}
    \<and> (case served_as run of None \<Rightarrow> exit_status run \<noteq> 0 \<and> relayed run = [] | Some c' \<Rightarrow> exit_status run = 0
        \<and> (\<exists>o1. ParseOptions arguments = Some o1 \<and> (drop_to_system o1 \<longrightarrow> dropped [] c' \<and> \<not> may_become 0 c')
            \<and> list_all (\<lambda>(p, up, down). p \<in> Some ` {allowed_uid o1, 0, 1000} \<and> faithful up \<and> faithful down) (relayed run)))"
proof (cases "ParseOptions arguments")
  case None
  then show ?thesis using assms by (auto simp: proxy_main_def)
next
  case (Some o1)
  obtain control opened1 where control: "CreateListener (socket_answer ca) (bind_answer ca) (listen_answer ca) opened
      = (control, opened1)" by fastforce
  obtain frames opened2 where frames: "CreateListener (socket_answer fa) (bind_answer fa) (listen_answer fa) opened1
      = (frames, opened2)" by fastforce
  note opens = CreateListener_result [OF control] CreateListener_result [OF frames]
  show ?thesis
  proof (cases "control < 0 \<or> frames < 0")
    case True
    then show ?thesis using assms Some control frames opens by (auto simp: proxy_main_def Let_def split: if_splits)
  next
    case False
    then have opened2: "opened2 = frames # control # opened" using opens by simp
    obtain ok c' where drop: "(if drop_to_system o1 then DropPrivileges da c else (True, c)) = (ok, c')" by fastforce
    show ?thesis
    proof (cases ok)
      case False
      then show ?thesis using assms Some control frames opened2 drop \<open>\<not> (control < 0 \<or> frames < 0)\<close>
        by (auto simp: proxy_main_def Let_def)
    next
      case True
      obtain served_frames opened3 served_control opened4 where
        f: "Serve (allowed_uid o1) frame_rounds opened2 = Some (served_frames, opened3)" and
        k: "Serve (allowed_uid o1) control_rounds opened3 = Some (served_control, opened4)" and
        run: "run = \<lparr>exit_status = 0, left_open = g_open (close_listener 0 (close_listener 1
              ((if interrupted then Proxy_SignalHandler \<lparr>g_stop = False, g_listeners = [control, frames], g_open = opened4\<rparr>
                else \<lparr>g_stop = False, g_listeners = [control, frames], g_open = opened4\<rparr>)\<lparr>g_stop := True\<rparr>))),
            served_as = Some c', relayed = served_frames @ served_control\<rparr>"
        using assms Some control frames drop True False
        by (simp add: proxy_main_def Let_def bind_eq_Some_conv) blast
      have opened4: "opened4 = frames # control # opened"
        using Serve_result [OF f] Serve_result [OF k] opened2 by simp
      have "0 \<le> control" "0 \<le> frames" using \<open>\<not> (control < 0 \<or> frames < 0)\<close> by auto
      then have "left_open run = opened"
        unfolding run opened4 proxy_run.simps by (rule proxy_shutdown [OF _ _ refl])
      have "drop_to_system o1 \<Longrightarrow> dropped [] c' \<and> \<not> may_become 0 c'"
        using drop True proxy_drop.drop_success proxy_drop.never_root_again by simp
      then show ?thesis using Serve_result [OF f] Serve_result [OF k] run \<open>left_open run = opened\<close> Some by simp
    qed
  qed
qed

text \<open>A receiver that takes at least \<open>n\<close> bytes, in any pieces and with any interruptions.\<close>

definition willing :: "send_answers \<Rightarrow> nat \<Rightarrow> bool" where
  "willing answers n \<longleftrightarrow> list_all (\<lambda>(count, errno). 0 < count \<or> count < 0 \<and> errno = EINTR) answers
     \<and> int n \<le> sum_list (map (\<lambda>a. max 0 (fst a)) answers)"

lemma proxy_send_willing:
  "willing answers (length data) \<Longrightarrow> \<exists>rest. proxy_send answers data sent = Some (True, sent @ data, rest)"
proof (induction answers data sent rule: proxy_send.induct)
  case (1 answers sent)
  then show ?case by simp
next
  case (2 x xs sent)
  then show ?case by (simp add: willing_def)
next
  case (3 count errno answers x xs sent)
  show ?case
  proof (cases "0 < count")
    case True
    have "willing answers (length (drop (nat count) (x # xs)))"
    proof -
      have "0 \<le> (\<Sum>a\<leftarrow>answers. max 0 (fst a))" by (intro sum_list_nonneg) auto
      then show ?thesis
        using 3(3) True by (cases "nat count \<le> Suc (length xs)") (auto simp: willing_def of_nat_diff)
    qed
    from 3(1) [OF True this] show ?thesis using True by auto
  next
    case False
    then have "willing answers (length (x # xs))" "count < 0" "errno = EINTR"
      using 3(3) by (auto simp: willing_def max_def)
    then show ?thesis using 3(2) False by auto
  qed
qed

lemma pump_piece:
  assumes "readable d" "data \<noteq> []" "willing answers (length data)"
  shows "pump True data answers d =
    Some (True, d\<lparr>taken_bytes := taken_bytes d @ data, given_bytes := given_bytes d @ data\<rparr>)"
  using assms proxy_send_willing [OF assms(3), of "[]"] by (auto simp: pump_def Proxy_WriteAll_def)

text \<open>Rounds in which the client sends a request piece by piece, ends, and the daemon answers and ends.\<close>

definition up_round :: "bytes \<times> send_answers \<Rightarrow> relay_round" where
  "up_round p = \<lparr>g_stop_seen = False, relay_poll = 1, relay_errno = 0, client_ready = True, client_data = fst p,
     target_sends = snd p, target_ready = False, target_data = [], client_sends = [], relay_broken = False\<rparr>"

definition down_round :: "bytes \<times> send_answers \<Rightarrow> relay_round" where
  "down_round p = \<lparr>g_stop_seen = False, relay_poll = 1, relay_errno = 0, client_ready = False, client_data = [],
     target_sends = [], target_ready = True, target_data = fst p, client_sends = snd p, relay_broken = False\<rparr>"

lemma up_rounds:
  assumes "list_all (\<lambda>(data, answers). data \<noteq> [] \<and> willing answers (length data)) pieces" "readable up"
  shows "relay_loop (map up_round pieces @ rounds) (up, down) = relay_loop rounds
    (up\<lparr>taken_bytes := taken_bytes up @ concat (map fst pieces), given_bytes := given_bytes up @ concat (map fst pieces)\<rparr>, down)"
  using assms
proof (induction pieces arbitrary: up)
  case Nil
  then show ?case by simp
next
  case (Cons p pieces)
  have "pump True (fst p) (snd p) up =
      Some (True, up\<lparr>taken_bytes := taken_bytes up @ fst p, given_bytes := given_bytes up @ fst p\<rparr>)"
    using Cons.prems by (intro pump_piece) auto
  moreover have "pump False [] [] down = Some (True, down)" by (simp add: pump_def)
  ultimately show ?case using Cons by (simp add: up_round_def)
qed

lemma down_rounds:
  assumes "list_all (\<lambda>(data, answers). data \<noteq> [] \<and> willing answers (length data)) pieces" "readable down"
  shows "relay_loop (map down_round pieces @ rounds) (up, down) = relay_loop rounds
    (up, down\<lparr>taken_bytes := taken_bytes down @ concat (map fst pieces), given_bytes := given_bytes down @ concat (map fst pieces)\<rparr>)"
  using assms
proof (induction pieces arbitrary: down)
  case Nil
  then show ?case by simp
next
  case (Cons p pieces)
  have "pump True (fst p) (snd p) down =
      Some (True, down\<lparr>taken_bytes := taken_bytes down @ fst p, given_bytes := given_bytes down @ fst p\<rparr>)"
    using Cons.prems by (intro pump_piece) auto
  moreover have "pump False [] [] up = Some (True, up)" by (simp add: pump_def)
  ultimately show ?case using Cons by (simp add: down_round_def)
qed

lemma end_rounds:
  "readable up \<Longrightarrow> relay_loop (up_round ([], []) # rounds) (up, down) =
    relay_loop rounds (up\<lparr>readable := False, shut := True\<rparr>, down)"
  "readable down \<Longrightarrow> \<not> readable up \<Longrightarrow> relay_loop [down_round ([], [])] (up, down) =
    Some (up, down\<lparr>readable := False, shut := True\<rparr>)"
  by (simp_all add: up_round_def down_round_def pump_def)

subsection \<open>Properties\<close>

text \<open>C32. The relay is transparent: in each direction the other side was given a prefix of the bytes read, in order and
  without additions; it is shut down exactly when the reading side ended, and then everything had been
  delivered. Both sockets are closed on return.\<close>

theorem Relay_transparent:
  assumes "Relay client target rounds (target # client # opened) = Some (up, down, opened')"
  shows "prefix (given_bytes up) (taken_bytes up) \<and> prefix (given_bytes down) (taken_bytes down)
    \<and> shut up = (\<not> readable up) \<and> shut down = (\<not> readable down)
    \<and> (shut up \<longrightarrow> given_bytes up = taken_bytes up) \<and> (shut down \<longrightarrow> given_bytes down = taken_bytes down)
    \<and> opened' = opened"
  using Relay_result [OF assms] by (simp add: faithful_def)

lemma Relay_transparent_witness:
  "\<exists>up down. Relay 4 5 [up_round ([1, 2], [(1, 0), (-1, 4), (1, 0)]), up_round ([], []), down_round ([], [])] [5, 4, 3]
      = Some (up, down, [3]) \<and> prefix (given_bytes up) [1, 2]"
proof -
  have "\<exists>up down. Relay 4 5 [up_round ([1, 2], [(1, 0), (-1, 4), (1, 0)]), up_round ([], []), down_round ([], [])] [5, 4, 3]
      = Some (up, down, [3]) \<and> taken_bytes up = [1, 2]"
    by (simp add: Relay_def up_round_def down_round_def pump_def direction_new_def Proxy_WriteAll_def EINTR_def)
  then obtain up down where r: "Relay 4 5 [up_round ([1, 2], [(1, 0), (-1, 4), (1, 0)]), up_round ([], []),
      down_round ([], [])] [5, 4, 3] = Some (up, down, [3])" "taken_bytes up = [1, 2]" by blast
  then show ?thesis using Relay_transparent [OF r(1)] by (metis)
qed

text \<open>C33. A request and its answer get through complete: when the client sends a request in any pieces and ends, the
  daemon then answers in any pieces and ends, and both take what they are sent, in pieces of any size and with
  interruptions, the relay ends with the request at the daemon and the answer at the client.\<close>

theorem Relay_request_answer:
  assumes "list_all (\<lambda>(data, answers). data \<noteq> [] \<and> willing answers (length data)) request"
    and "list_all (\<lambda>(data, answers). data \<noteq> [] \<and> willing answers (length data)) answer"
  shows "\<exists>up down. Relay client target (map up_round request @ [up_round ([], [])] @ map down_round answer
      @ [down_round ([], [])]) (target # client # opened) = Some (up, down, opened)
    \<and> given_bytes up = concat (map fst request) \<and> given_bytes down = concat (map fst answer) \<and> shut up \<and> shut down"
  using assms by (simp add: Relay_def up_rounds down_rounds end_rounds direction_new_def del: relay_loop.simps)

lemma Relay_request_answer_witness:
  "\<exists>up down. Relay 4 5 ([up_round ([83, 10], [(1, 0), (-1, 4), (5, 0)]), up_round ([], []),
      down_round ([123, 125, 10], [(3, 0)]), down_round ([], [])]) [5, 4] = Some (up, down, [])
    \<and> given_bytes up = [83, 10] \<and> given_bytes down = [123, 125, 10] \<and> shut up \<and> shut down"
  using Relay_request_answer [of "[([83, 10], [(1, 0), (-1, 4), (5, 0)])]" "[([123, 125, 10], [(3, 0)])]" 4 5 "[]"]
  by (simp add: willing_def EINTR_def)

text \<open>The proxy serves only the configured application, root and the system user, and no client, refused, failed or
  served, leaves a descriptor behind.\<close>

theorem Serve_allowed_only:
  assumes "Serve allowed rounds opened = Some (served, opened')"
  shows "opened' = opened \<and> (\<forall>(p, up, down) \<in> set served. p = Some allowed \<or> p = Some 0 \<or> p = Some 1000)"
  using Serve_result [OF assms] by (fastforce simp: list_all_iff)

definition last_round :: accept_round where
  "last_round = \<lparr>stop_before_accept = True, accepted = 0, accept_errno = 0, peer = None, target_socket = 0,
     target_connect = 0, relay_rounds = []\<rparr>"

definition client_round :: "u32 \<Rightarrow> accept_round" where
  "client_round uid = \<lparr>stop_before_accept = False, accepted = 4, accept_errno = 0, peer = Some uid,
     target_socket = 5, target_connect = 0, relay_rounds = [up_round ([], []), down_round ([], [])]\<rparr>"

lemma sample_rounds:
  "stop_before_accept (client_round u) = False" "accepted (client_round u) = 4" "peer (client_round u) = Some u"
  "target_socket (client_round u) = 5" "target_connect (client_round u) = 0"
  "relay_rounds (client_round u) = [up_round ([], []), down_round ([], [])]" "stop_before_accept last_round = True"
  by (simp_all add: client_round_def last_round_def)

lemma two_clients:
  "Serve 10123 [client_round 10999, client_round 10123, last_round] [3] = Some ([(Some 10123,
    direction_new\<lparr>readable := False, shut := True\<rparr>, direction_new\<lparr>readable := False, shut := True\<rparr>)], [3])"
proof -
  have relay: "Relay 4 5 [up_round ([], []), down_round ([], [])] [5, 4, 3] = Some
      (direction_new\<lparr>readable := False, shut := True\<rparr>, direction_new\<lparr>readable := False, shut := True\<rparr>, [3])"
    by (simp add: Relay_def end_rounds direction_new_def del: relay_loop.simps)
  have peers: "AllowedPeer (Some 10123) 10123" "\<not> AllowedPeer (Some 10999) 10123"
    by (simp_all add: AllowedPeer_def)
  show ?thesis by (simp add: peers relay sample_rounds Connect_def)
qed

lemma Serve_allowed_only_witness:
  "\<exists>served :: (u32 option \<times> direction \<times> direction) list. map fst served = [Some 10123]
    \<and> (\<forall>(p, up, down) \<in> set served. p = Some 10123 \<or> p = Some (0 :: u32) \<or> p = Some 1000)"
proof -
  obtain served where s: "Serve 10123 [client_round 10999, client_round 10123, last_round] [3] = Some (served, [3])"
    "map fst served = [Some 10123]" using two_clients by auto
  show ?thesis by (intro exI conjI, rule s(2), rule conjunct2 [OF Serve_allowed_only [OF s(1)]])
qed


definition root_user :: credentials where
  "root_user = \<lparr>ruid = 0, euid = 0, suid = 0, rgid = 0, egid = 0, sgid = 0, supplementary = [0], no_new_privs = False\<rparr>"

definition listens_on :: "int \<Rightarrow> listener_answers" where
  "listens_on s = \<lparr>socket_answer = s, bind_answer = 0, listen_answer = 0\<rparr>"

definition drop_granted :: drop_answers where
  "drop_granted = \<lparr>setgroups_result = 0, setgid_result = 0, setuid_result = 0, prctl_result = 0\<rparr>"

lemma sample_proxy:
  "\<exists>run. proxy_main [''--drop-to-system'', ''--allowed-uid'', ''10123''] (listens_on 3) (listens_on 4) drop_granted
      root_user [last_round] [last_round] True [0, 1, 2] = Some run \<and> exit_status run = 0"
proof -
  have uid: "ParseUid ''10123'' = Some 10123"
    by (simp add: ParseUid_def from_chars_ulong_def is_digit_def code_def dec_value_def digit_value_def)
  have options: "ParseOptions [''--drop-to-system'', ''--allowed-uid'', ''10123''] =
      Some (Options_default\<lparr>drop_to_system := True, allowed_uid := 10123\<rparr>)"
    by (simp add: ParseOptions_def uid Options_default_def)
  have listen: "CreateListener (socket_answer (listens_on n)) (bind_answer (listens_on n))
      (listen_answer (listens_on n)) opened = (n, n # opened)" if "0 \<le> n" for n opened
    using that by (simp add: CreateListener_def listens_on_def)
  have drop: "\<exists>c. DropPrivileges drop_granted root_user = (True, c)"
    by (simp add: DropPrivileges_def root_user_def setgroups_def setgid_def setuid_def set_no_new_privs_def
        drop_granted_def)
  then obtain c where "DropPrivileges drop_granted root_user = (True, c)" by blast
  then show ?thesis
    by (simp add: proxy_main_def options listen sample_rounds)
qed


end
