(* ===== verification/Daemon_Setup.thy ===== *)
theory Daemon_Setup
  imports Socket_Proxy
begin

section \<open>The daemon: arguments, listeners and identity\<close>

text \<open>
  The first half of \<open>main.cpp\<close>: the globals the command line sets, the listeners, the peer check and
  the privilege drop. Both builds of the peer check are modelled: \<open>android\<close> says which branch of the
  preprocessor conditional is compiled.
\<close>

record Globals =
  g_control_socket_name :: string
  g_frame_socket_name :: string
  g_ffmpeg_path :: string
  g_extra_allowed_uid :: u32
  g_drop_to_system :: bool
  g_prime_global_camera :: bool

definition Globals_default :: Globals where
  "Globals_default = \<lparr>g_control_socket_name = ''vcamesd'', g_frame_socket_name = ''vcamesd_frames'',
     g_ffmpeg_path = ''/data/adb/modules/vcames_root_bridge/bin/ffmpeg'', g_extra_allowed_uid = -1,
     g_drop_to_system = False, g_prime_global_camera = False\<rparr>"

text \<open>The answers of \<open>socket\<close>, \<open>bind\<close> and \<open>listen\<close>, with the \<open>errno\<close> of the one that fails.\<close>

definition CreateAbstractListener ::
  "(int \<Rightarrow> string) \<Rightarrow> string \<Rightarrow> listener_answers \<Rightarrow> int \<Rightarrow> int list \<Rightarrow> int outcome \<times> int list" where
  "CreateAbstractListener strerror name a errno opened =
     (if sun_path_size \<le> length name + 1 then (Inl ''local socket name is too long'', opened)
      else if socket_answer a < 0 then (Inl (''socket failed: '' @ strerror errno), opened)
      else let s = socket_answer a; opened = s # opened in
      if bind_answer a \<noteq> 0 \<or> listen_answer a \<noteq> 0 then
        (Inl (''bind/listen failed for '' @ name @ '': '' @ strerror errno), remove1 s opened)
      else (Inr s, opened))"

definition IsAllowedPeer :: "bool \<Rightarrow> u32 \<Rightarrow> u32 option \<Rightarrow> Globals \<Rightarrow> bool" where
  "IsAllowedPeer android own_uid who g =
     (case who of
        None \<Rightarrow> False
      | Some uid \<Rightarrow>
          if android then uid = 0 \<or> uid = 1000 \<or> uid = g_extra_allowed_uid g
          else uid = own_uid \<or> uid = g_extra_allowed_uid g)"

definition safe_path_argument :: "string \<Rightarrow> bool" where
  "safe_path_argument path \<longleftrightarrow> path \<noteq> [] \<and> hd path = CHR ''/'' \<and> length path \<le> 512
     \<and> list_all (\<lambda>c. c \<in> set ''abcdefghijklmnopqrstuvwxyzABCDEFGHIJKLMNOPQRSTUVWXYZ0123456789/_.-'') path"

definition usage :: string where
  "usage = ''usage: vcamesd [--allowed-uid APP_UID] [--drop-to-system] '' @
     ''[--control-socket NAME] [--frame-socket NAME] '' @
     ''[--ffmpeg-path ABSOLUTE_PATH] [--prime-global-camera]''"

text \<open>The arguments behind the program's name. The tests of the socket name and of the user number are those of the
  proxy, character for character.\<close>

fun ParseArguments :: "string list \<Rightarrow> Globals \<Rightarrow> Globals outcome" where
  "ParseArguments [] g = Inr g"
| "ParseArguments (argument # arguments) g =
     (if argument = ''--drop-to-system'' then ParseArguments arguments (g\<lparr>g_drop_to_system := True\<rparr>)
      else if argument = ''--prime-global-camera'' then
        ParseArguments arguments (g\<lparr>g_prime_global_camera := True\<rparr>)
      else case arguments of
        [] \<Rightarrow> Inl usage
      | value # arguments \<Rightarrow>
          if argument = ''--control-socket'' \<or> argument = ''--frame-socket'' then
            if \<not> SafeSocketName value then Inl ''local socket names must use safe ASCII characters''
            else ParseArguments arguments
              (if argument = ''--control-socket'' then g\<lparr>g_control_socket_name := value\<rparr>
               else g\<lparr>g_frame_socket_name := value\<rparr>)
          else if argument = ''--ffmpeg-path'' then
            if \<not> safe_path_argument value then Inl ''FFmpeg path must be a safe absolute path''
            else ParseArguments arguments (g\<lparr>g_ffmpeg_path := value\<rparr>)
          else if argument \<noteq> ''--allowed-uid'' then Inl usage
          else case ParseUid value of
            None \<Rightarrow> Inl ''allowed app UID must be an Android application UID''
          | Some parsed \<Rightarrow> ParseArguments arguments (g\<lparr>g_extra_allowed_uid := parsed\<rparr>))"

text \<open>\<open>errno\<close> is what the failing call left.\<close>

definition DropRootPrivileges ::
  "(int \<Rightarrow> string) \<Rightarrow> int \<Rightarrow> Globals \<Rightarrow> drop_answers \<Rightarrow> credentials \<Rightarrow> unit outcome \<times> credentials" where
  "DropRootPrivileges strerror errno g a c =
     (let failure = Inl (''unable to drop daemon privileges: '' @ strerror errno) in
      if \<not> g_drop_to_system g then (Inr (), c)
      else if ruid c \<noteq> 0 then (Inl ''--drop-to-system requires vcamesd to start as uid 0'', c)
      else let c = setgroups (setgroups_result a) [1003, 1006, 3003] c in
      if setgroups_result a \<noteq> 0 then (failure, c)
      else let c = setgid (setgid_result a) 1000 c in
      if setgid_result a \<noteq> 0 then (failure, c)
      else let c = setuid (setuid_result a) 1000 c in
      if setuid_result a \<noteq> 0 then (failure, c)
      else let c = set_no_new_privs (prctl_result a) c in
      if prctl_result a \<noteq> 0 then (failure, c)
      else if ruid c \<noteq> 1000 \<or> euid c \<noteq> 1000 then (failure, c)
      else (Inr (), c))"

subsection \<open>What accepted arguments are\<close>

definition globals_ok :: "Globals \<Rightarrow> bool" where
  "globals_ok g \<longleftrightarrow> socket_name (g_control_socket_name g) \<and> socket_name (g_frame_socket_name g)
     \<and> safe_path_argument (g_ffmpeg_path g)
     \<and> (g_extra_allowed_uid g = -1 \<or> 10000 \<le> unat (g_extra_allowed_uid g) \<and> unat (g_extra_allowed_uid g) \<le> 2000000)"

lemma Globals_default_ok: "globals_ok Globals_default"
  by (simp add: globals_ok_def Globals_default_def socket_name_def sun_path_size_def safe_name_char_def
      is_lower_def is_upper_def is_digit_def code_def safe_path_argument_def)

lemma ParseArguments_ok: "ParseArguments arguments g = Inr g' \<Longrightarrow> globals_ok g \<Longrightarrow> globals_ok g'"
proof (induction arguments arbitrary: g rule: length_induct)
  case (1 arguments)
  note parsed = 1(2) and ok = 1(3)
  have go: "globals_ok g'" if "length rest < length arguments" "ParseArguments rest g2 = Inr g'" "globals_ok g2" for rest g2
    using 1(1) that by blast
  show ?case
  proof (cases arguments)
    case Nil
    then show ?thesis using parsed ok by simp
  next
    case (Cons argument more)
    consider (drop) "argument = ''--drop-to-system''" | (prime) "argument = ''--prime-global-camera''"
      | (one) v rest where "more = v # rest" "argument \<noteq> ''--drop-to-system''" "argument \<noteq> ''--prime-global-camera''"
      using parsed Cons by (cases more) (auto split: if_splits)
    then show ?thesis
    proof cases
      case drop
      then show ?thesis using parsed ok Cons by (intro go [of more "g\<lparr>g_drop_to_system := True\<rparr>"]) (simp_all add: globals_ok_def)
    next
      case prime
      then show ?thesis using parsed ok Cons by (intro go [of more "g\<lparr>g_prime_global_camera := True\<rparr>"]) (simp_all add: globals_ok_def)
    next
      case one
      consider (control) "argument = ''--control-socket''" "SafeSocketName v"
        | (frames) "argument = ''--frame-socket''" "SafeSocketName v"
        | (path) "argument = ''--ffmpeg-path''" "safe_path_argument v"
        | (uid) n where "argument = ''--allowed-uid''" "ParseUid v = Some n"
        using parsed Cons one by (auto split: if_splits option.splits)
      then show ?thesis
      proof cases
        case control
        then show ?thesis using parsed ok Cons one
          by (intro go [of rest "g\<lparr>g_control_socket_name := v\<rparr>"]) (simp_all add: globals_ok_def SafeSocketName_iff)
      next
        case frames
        then show ?thesis using parsed ok Cons one
          by (intro go [of rest "g\<lparr>g_frame_socket_name := v\<rparr>"]) (simp_all add: globals_ok_def SafeSocketName_iff)
      next
        case path
        then show ?thesis using parsed ok Cons one
          by (intro go [of rest "g\<lparr>g_ffmpeg_path := v\<rparr>"]) (simp_all add: globals_ok_def)
      next
        case uid
        then show ?thesis using parsed ok Cons one ParseUid_range [OF uid(2)]
          by (intro go [of rest "g\<lparr>g_extra_allowed_uid := n\<rparr>"]) (simp_all add: globals_ok_def)
      qed
    qed
  qed
qed

lemma listener_created:
  "CreateAbstractListener strerror name a errno opened = (r, opened') \<Longrightarrow>
    (case r of Inl _ \<Rightarrow> opened' = opened | Inr s \<Rightarrow> 0 \<le> s \<and> opened' = s # opened)"
  by (auto simp: CreateAbstractListener_def Let_def split: if_splits)

text \<open>The daemon's privilege drop, when it was asked for, keeps the same contract as the proxy's, with the groups of
  the camera, graphics and network.\<close>

definition drop_daemon :: "drop_answers \<Rightarrow> credentials \<Rightarrow> bool \<times> credentials" where
  "drop_daemon a c =
     (let (r, c') = DropRootPrivileges (\<lambda>_. []) 0 (Globals_default\<lparr>g_drop_to_system := True\<rparr>) a c in (\<not> isl r, c'))"

lemma DropRootPrivileges_drop_daemon:
  "g_drop_to_system g \<Longrightarrow> DropRootPrivileges strerror errno g a c = (r, c') \<Longrightarrow> drop_daemon a c = (\<not> isl r, c')"
  by (auto simp: drop_daemon_def DropRootPrivileges_def Let_def split: if_splits)

interpretation daemon_drop: privilege_drop drop_daemon "[1003, 1006, 3003]"
  by unfold_locales
    (auto simp: drop_daemon_def DropRootPrivileges_def dropped_def setgroups_def setgid_def setuid_def
      set_no_new_privs_def Let_def split: if_splits)

end
