(* ===== verification/Frame_Client.thy ===== *)
theory Frame_Client
  imports Daemon_Setup Engine_Steps
begin

section \<open>The frame socket\<close>

text \<open>
  \<open>ReadExact\<close>, \<open>HandleFrameClient\<close> and \<open>FrameServer\<close> of \<open>main.cpp\<close>: a client sends the magic \<open>VCF1\<close> and JPEG frames, or
  \<open>VCF2\<close> and NV21 frames with a header of 32 bytes. A connection holds the bytes the client has sent and not yet
  been read, and what happens at each turn of the reading loop: the value of the stop flag, and a \<open>read\<close> that finds
  up to so many bytes (none left is the end of the stream) or fails. The times of the
  pushes are a list of their own. \<open>None\<close> means that one of the lists ends first.
\<close>

subsection \<open>The code\<close>

datatype arrival = Arrive nat | ReadFailed int

record connection =
  incoming :: bytes
  schedule :: "(bool \<times> arrival) list"
  push_times :: "int list"

text \<open>The bytes received so far are an argument; the result says whether all \<open>n\<close> came.\<close>

fun read_exact ::
  "nat \<Rightarrow> bytes \<Rightarrow> bytes \<Rightarrow> (bool \<times> arrival) list \<Rightarrow> (bool \<times> bytes \<times> bytes \<times> (bool \<times> arrival) list) option" where
  "read_exact n received pending [] =
     (if n \<le> length received then Some (True, received, pending, []) else None)"
| "read_exact n received pending ((stop, a) # turns) =
     (if n \<le> length received then Some (True, received, pending, (stop, a) # turns)
      else if stop then Some (False, received, pending, turns)
      else case a of
        Arrive k \<Rightarrow> let b = take (min k (n - length received)) pending in
          if b \<noteq> [] then read_exact n (received @ b) (drop (length b) pending) turns
          else Some (False, received, pending, turns)
      | ReadFailed errno \<Rightarrow>
          if errno = EINTR then read_exact n received pending turns
          else Some (False, received, pending, turns))"

definition ReadExact :: "nat \<Rightarrow> connection \<Rightarrow> (bytes option \<times> connection) option" where
  "ReadExact n c = do {
     (ok, received, pending, rest) \<leftarrow> read_exact n [] (incoming c) (schedule c);
     Some (if ok then Some received else None, c\<lparr>incoming := pending, schedule := rest\<rparr>) }"

text \<open>\<open>ntohl\<close> of four bytes and the loop over the timestamp: the most significant byte comes first.\<close>

definition big_endian :: "bytes \<Rightarrow> 'a :: len word" where
  "big_endian bs = foldl (\<lambda>v b. push_bit 8 v OR ucast b) 0 bs"

definition kMaxFramePayload :: u32 where "kMaxFramePayload = 16 * 1024 * 1024"

text \<open>The outcome of one turn: whether the loop goes on, the engine, the connection and the log.\<close>

type_synonym frame_turn = "bool \<times> Engine \<times> connection \<times> string list"

definition read_or_return ::
  "nat \<Rightarrow> Engine \<Rightarrow> connection \<Rightarrow> (bytes \<Rightarrow> connection \<Rightarrow> frame_turn option) \<Rightarrow> frame_turn option" where
  "read_or_return n e c continue = do {
     (r, c) \<leftarrow> ReadExact n c;
     (case r of None \<Rightarrow> Some (False, e, c, []) | Some b \<Rightarrow> continue b c) }"

text \<open>The push, at the next of the times.\<close>

definition push_or_return ::
  "string \<Rightarrow> (int \<Rightarrow> unit outcome \<times> Engine) \<Rightarrow> connection \<Rightarrow> frame_turn option" where
  "push_or_return message push c =
     (case push_times c of
        [] \<Rightarrow> None
      | now # later \<Rightarrow>
          (case push now of
             (Inr _, e) \<Rightarrow> Some (True, e, c\<lparr>push_times := later\<rparr>, [])
           | (Inl why, e) \<Rightarrow> Some (False, e, c\<lparr>push_times := later\<rparr>, [message @ why])))"

definition typed_frame :: "Engine \<Rightarrow> connection \<Rightarrow> frame_turn option" where
  "typed_frame e c =
     read_or_return 24 e c (\<lambda>fields c.
     read_or_return 8 e c (\<lambda>timestamp c.
       let field = (\<lambda>i. big_endian (take 4 (drop (4 * i) fields)) :: u32);
           format = field 0; w = field 1; h = field 2; y_stride = field 3; uv_stride = field 4;
           frame_size = field 5;
           presentation_time_ns = sint (big_endian timestamp :: u64) in
       if format \<noteq> 2 \<or> w = 0 \<or> h = 0 \<or> y_stride \<noteq> w \<or> uv_stride \<noteq> w then
         Some (False, e, c, [''local producer sent unsupported typed frame metadata''])
       else if frame_size < 4 \<or> kMaxFramePayload < frame_size then
         Some (False, e, c, [''local producer sent an invalid NV21 frame size''])
       else read_or_return (unat frame_size) e c (\<lambda>frame c.
         push_or_return ''local NV21 frame rejected: ''
           (\<lambda>now. PushNv21Frame now frame (sint w) (sint h) presentation_time_ns e) c)))"

definition legacy_frame :: "Engine \<Rightarrow> connection \<Rightarrow> frame_turn option" where
  "legacy_frame e c =
     read_or_return 4 e c (\<lambda>network_size c.
       let frame_size = big_endian network_size :: u32 in
       if frame_size < 4 \<or> kMaxFramePayload < frame_size then
         Some (False, e, c, [''local producer sent an invalid frame size''])
       else read_or_return (unat frame_size) e c (\<lambda>frame c.
         push_or_return ''local frame rejected: '' (\<lambda>now. PushFrame now frame e) c))"

text \<open>The loop behind the magic. Its own test of the stop flag is the next value in the schedule, which \<open>ReadExact\<close> then
  reads; a schedule that is used up is \<open>None\<close>. Every turn that goes on has read something.\<close>

lemma read_exact_shorter:
  "read_exact n received pending es = Some (ok, received', pending', es') \<Longrightarrow>
    length es' \<le> length es \<and> (ok \<longrightarrow> length received < n \<longrightarrow> length es' < length es)"
proof (induction n received pending es rule: read_exact.induct)
  case (1 n received pending)
  then show ?case by (auto split: if_splits)
next
  case (2 n received pending stop a turns)
  then show ?case by (fastforce simp: Let_def split: if_splits arrival.splits)
qed

lemma ReadExact_shorter:
  "ReadExact n c = Some (r, c') \<Longrightarrow>
    length (schedule c') \<le> length (schedule c) \<and> (r \<noteq> None \<longrightarrow> 0 < n \<longrightarrow> length (schedule c') < length (schedule c))"
  using read_exact_shorter by (fastforce simp: ReadExact_def bind_eq_Some_conv split: if_splits)

lemma read_or_return_goes_on:
  assumes "read_or_return n e c continue = Some (True, e', c', logs)"
  obtains b c1 where "ReadExact n c = Some (Some b, c1)" "continue b c1 = Some (True, e', c', logs)"
  using assms by (auto simp: read_or_return_def bind_eq_Some_conv split: option.splits)

lemma push_or_return_schedule:
  "push_or_return message push c = Some (go, e', c', logs) \<Longrightarrow> schedule c' = schedule c"
  by (auto simp: push_or_return_def split: list.splits prod.splits sum.splits)

lemma typed_frame_shorter:
  assumes "typed_frame e c = Some (True, e', c', logs)"
  shows "length (schedule c') < length (schedule c)"
proof -
  from assms obtain b1 c1 b2 c2 b3 c3 n message push where
    "ReadExact 24 c = Some (Some b1, c1)" "ReadExact 8 c1 = Some (Some b2, c2)"
    "ReadExact n c2 = Some (Some b3, c3)" "push_or_return message push c3 = Some (True, e', c', logs)"
    by (auto simp: typed_frame_def Let_def elim!: read_or_return_goes_on split: if_splits)
  then show ?thesis
    using ReadExact_shorter [of 24 c] ReadExact_shorter [of 8 c1] ReadExact_shorter [of n c2]
      push_or_return_schedule [of message push c3] by fastforce
qed

lemma legacy_frame_shorter:
  assumes "legacy_frame e c = Some (True, e', c', logs)"
  shows "length (schedule c') < length (schedule c)"
proof -
  from assms obtain b1 c1 b2 c2 n message push where
    "ReadExact 4 c = Some (Some b1, c1)" "ReadExact n c1 = Some (Some b2, c2)"
    "push_or_return message push c2 = Some (True, e', c', logs)"
    by (auto simp: legacy_frame_def Let_def elim!: read_or_return_goes_on split: if_splits)
  then show ?thesis
    using ReadExact_shorter [of 4 c] ReadExact_shorter [of n c1] push_or_return_schedule [of message push c2]
    by fastforce
qed

function frame_loop :: "bool \<Rightarrow> Engine \<Rightarrow> connection \<Rightarrow> (Engine \<times> connection \<times> string list) option" where
  "frame_loop typed_frames e c =
     (case schedule c of
        [] \<Rightarrow> None
      | (stop, _) # _ \<Rightarrow>
          if stop then Some (e, c, [])
          else case (if typed_frames then typed_frame e c else legacy_frame e c) of
            None \<Rightarrow> None
          | Some (go, e, c, logs) \<Rightarrow> if go then frame_loop typed_frames e c else Some (e, c, logs))"
  by pat_completeness auto
termination
  by (relation "measure (\<lambda>(typed_frames, e, c). length (schedule c))")
    (auto dest!: sym [of "Some _"] dest: typed_frame_shorter legacy_frame_shorter split: if_splits)

declare frame_loop.simps [simp del]

definition HandleFrameClient ::
  "bool \<Rightarrow> u32 \<Rightarrow> u32 option \<Rightarrow> Globals \<Rightarrow> Engine \<Rightarrow> connection \<Rightarrow> (Engine \<times> string list) option" where
  "HandleFrameClient android own_uid who g e c =
     (if \<not> IsAllowedPeer android own_uid who g then Some (e, [])
      else do {
        (magic, c) \<leftarrow> ReadExact 4 c;
        (case magic of
           None \<Rightarrow> Some (e, [])
         | Some magic \<Rightarrow>
             let legacy_jpeg = (magic = [0x56, 0x43, 0x46, 0x31]);
                 typed_frames = (magic = [0x56, 0x43, 0x46, 0x32]) in
             if \<not> legacy_jpeg \<and> \<not> typed_frames then Some (e, [])
             else do {
               (e, _, logs) \<leftarrow> frame_loop typed_frames e c;
               Some (e, logs) }) })"

subsection \<open>What a client can do to the engine\<close>

text \<open>Frames published one after the other.\<close>

definition publish_all :: "(int \<times> SourceFrame) list \<Rightarrow> Engine \<Rightarrow> Engine" where
  "publish_all fs e = fold (\<lambda>(t, f) e. PublishFrame t f e) fs e"

lemma publish_all_simps [simp]:
  "publish_all [] e = e" "publish_all ((t, f) # fs) e = publish_all fs (PublishFrame t f e)"
  by (simp_all add: publish_all_def)

lemma PushFrame_effect:
  "PushFrame now jpeg e = (r, e') \<Longrightarrow> (case r of Inl _ \<Rightarrow> e' = e
     | Inr _ \<Rightarrow> producer_active e = Inr () \<and> (\<exists>f. accepts f \<and> push_frame now jpeg = Inr f \<and> e' = PublishFrame now f e))"
  by (auto simp: PushFrame_def push_frame_def accepts_def producer_active_def split: if_splits)

lemma even_area:
  fixes w h :: int
  assumes "0 < w" "0 < h" "w AND 1 = 0" "h AND 1 = 0"
  shows "4 \<le> nat w * nat h"
proof -
  have "2 \<le> w" using assms(1,3) unfolding and_one_eq by presburger
  moreover have "2 \<le> h" using assms(2,4) unfolding and_one_eq by presburger
  ultimately have "2 \<le> nat w" "2 \<le> nat h" by simp_all
  then show ?thesis using mult_le_mono [of 2 "nat w" 2 "nat h"] by simp
qed

lemma PushNv21Frame_effect:
  assumes "PushNv21Frame now nv21 w h t e = (r, e')"
  shows "case r of Inl _ \<Rightarrow> e' = e | Inr _ \<Rightarrow> producer_active e = Inr ()
    \<and> (\<exists>f. accepts f \<and> push_nv21_frame now nv21 w h t = Inr f \<and> e' = PublishFrame now f e)"
proof (cases "bind_ok (producer_active e) (\<lambda>_. push_nv21_frame now nv21 w h t)")
  case (Inl m)
  then have "r = Inl m" "e' = e" using assms by (simp_all add: PushNv21Frame_def)
  then show ?thesis by simp
next
  case (Inr f)
  then have f: "producer_active e = Inr ()" "push_nv21_frame now nv21 w h t = Inr f"
    by (auto simp: bind_ok_Inr_iff)
  from f(2) have "length nv21 = nat w * nat h * 3 div 2" "length nv21 \<le> kMaxFrameBytes" "payload f = nv21"
    and "4 \<le> nat w * nat h"
    using even_area [of w h] by (auto simp: push_nv21_frame_def Let_def split: if_splits)
  moreover have "4 \<le> n * 3 div 2" if "4 \<le> n" for n :: nat using that by simp
  ultimately have "accepts f" unfolding accepts_def by metis
  moreover have "r = Inr ()" "e' = PublishFrame now f e" using assms Inr by (simp_all add: PushNv21Frame_def)
  ultimately show ?thesis using f by simp
qed

text \<open>A frame that one of the two pushes makes at some time.\<close>

definition pushed :: "int \<Rightarrow> SourceFrame \<Rightarrow> bool" where
  "pushed now f \<longleftrightarrow> (\<exists>jpeg. push_frame now jpeg = Inr f) \<or> (\<exists>nv21 w h t. push_nv21_frame now nv21 w h t = Inr f)"

text \<open>One turn publishes nothing or one frame, at the next of the times, and goes on exactly when it published.\<close>

definition turn_effect :: "Engine \<Rightarrow> connection \<Rightarrow> bool \<Rightarrow> Engine \<Rightarrow> connection \<Rightarrow> bool" where
  "turn_effect e c go e' c' \<longleftrightarrow>
     (if go then producer_active e = Inr () \<and> (\<exists>t f. push_times c = t # push_times c' \<and> accepts f \<and> pushed t f
        \<and> e' = PublishFrame t f e)
      else e' = e)"

lemma turn_stays: "turn_effect e c False e c'"
  by (simp add: turn_effect_def)

lemma ReadExact_times: "ReadExact n c = Some (r, c') \<Longrightarrow> push_times c' = push_times c"
  by (auto simp: ReadExact_def bind_eq_Some_conv)

lemma read_or_return_effect:
  assumes "read_or_return n e c continue = Some (go, e', c', logs)"
    and "\<And>b c1. continue b c1 = Some (go, e', c', logs) \<Longrightarrow> turn_effect e c1 go e' c'"
  shows "turn_effect e c go e' c'"
proof -
  obtain r c1 where r: "ReadExact n c = Some (r, c1)"
    using assms(1) by (auto simp: read_or_return_def bind_eq_Some_conv)
  show ?thesis
  proof (cases r)
    case None
    then show ?thesis using assms(1) r by (auto simp: read_or_return_def turn_effect_def)
  next
    case (Some b)
    then have "turn_effect e c1 go e' c'" using assms r by (simp add: read_or_return_def)
    then show ?thesis unfolding turn_effect_def ReadExact_times [OF r] .
  qed
qed

lemma push_or_return_effect:
  assumes "push_or_return m push c = Some (go, e', c', logs)"
    and "\<And>now r e1. push now = (r, e1) \<Longrightarrow> (case r of Inl _ \<Rightarrow> e1 = e
       | Inr _ \<Rightarrow> producer_active e = Inr () \<and> (\<exists>f. accepts f \<and> P now f \<and> e1 = PublishFrame now f e))"
    and "\<And>now f. P now f \<Longrightarrow> pushed now f"
  shows "turn_effect e c go e' c'"
  using assms(1) by (fastforce simp: push_or_return_def turn_effect_def dest: assms(2) intro: assms(3)
      split: list.splits prod.splits sum.splits)

lemma legacy_frame_effect: "legacy_frame e c = Some (go, e', c', logs) \<Longrightarrow> turn_effect e c go e' c'"
  unfolding legacy_frame_def Let_def
  by (erule read_or_return_effect, simp split: if_splits, simp add: turn_effect_def,
      erule read_or_return_effect, erule push_or_return_effect, erule PushFrame_effect, auto simp: pushed_def)

lemma typed_frame_effect: "typed_frame e c = Some (go, e', c', logs) \<Longrightarrow> turn_effect e c go e' c'"
  unfolding typed_frame_def Let_def
  by (erule read_or_return_effect, erule read_or_return_effect, simp split: if_splits,
      simp add: turn_effect_def, simp add: turn_effect_def,
      erule read_or_return_effect, erule push_or_return_effect, erule PushNv21Frame_effect, auto simp: pushed_def)

lemma frame_loop_effect:
  "frame_loop typed_frames e c = Some (e', c', logs) \<Longrightarrow>
    \<exists>fs. e' = publish_all fs e \<and> list_all (\<lambda>(t, f). accepts f \<and> pushed t f) fs \<and> prefix (map fst fs) (push_times c)
      \<and> (producer_active e \<noteq> Inr () \<longrightarrow> fs = [])"
proof (induction typed_frames e c rule: frame_loop.induct)
  case (1 typed_frames e c)
  from 1(2) obtain stop a rest where sched: "schedule c = (stop, a) # rest"
    by (auto simp: frame_loop.simps [of typed_frames e] split: list.splits)
  show ?case
  proof (cases stop)
    case True
    then show ?thesis using 1(2) sched by (intro exI [of _ "[]"]) (simp add: frame_loop.simps)
  next
    case False
    then obtain go e1 c1 logs1 where
      turn: "(if typed_frames then typed_frame e c else legacy_frame e c) = Some (go, e1, c1, logs1)"
      using 1(2) sched by (auto simp: frame_loop.simps split: option.splits)
    have effect: "turn_effect e c go e1 c1"
      using turn typed_frame_effect legacy_frame_effect by (auto split: if_splits)
    show ?thesis
    proof (cases go)
      case False
      then show ?thesis using 1(2) sched turn effect \<open>\<not> stop\<close>
        by (intro exI [of _ "[]"]) (simp add: frame_loop.simps turn_effect_def)
    next
      case True
      then have "frame_loop typed_frames e1 c1 = Some (e', c', logs)"
        using 1(2) sched turn \<open>\<not> stop\<close> by (simp add: frame_loop.simps [of typed_frames e])
      from 1(1) [OF sched refl _ turn refl refl refl True this] \<open>\<not> stop\<close> obtain fs where
        fs: "e' = publish_all fs e1" "list_all (\<lambda>(t, f). accepts f \<and> pushed t f) fs"
          "prefix (map fst fs) (push_times c1)" by blast
      from effect True obtain t f where "producer_active e = Inr ()" "accepts f" "pushed t f"
        "push_times c = t # push_times c1" "e1 = PublishFrame t f e"
        by (auto simp: turn_effect_def)
      then show ?thesis using fs by (intro exI [of _ "(t, f) # fs"]) simp
    qed
  qed
qed

subsection \<open>What a well-behaved producer gets through\<close>

text \<open>A producer's encoding: numbers with the most significant byte first.\<close>

fun be_bytes :: "nat \<Rightarrow> nat \<Rightarrow> bytes" where
  "be_bytes 0 x = []"
| "be_bytes (Suc k) x = be_bytes k (x div 256) @ [of_nat (x mod 256)]"

lemma length_be_bytes [simp]: "length (be_bytes k x) = k"
  by (induction k arbitrary: x) simp_all

lemma shift_in_byte: "push_bit 8 v OR ucast (b :: byte) = 256 * v + (ucast b :: 'a :: len word)"
proof -
  have "push_bit 8 v OR ucast b = push_bit 8 v + (ucast b :: 'a word)"
    by (rule disjunctive_add [symmetric]) (auto simp: bit_simps dest: bit_imp_le_length)
  then show ?thesis by (simp add: push_bit_eq_mult mult.commute)
qed

lemma big_endian_be_bytes: "x < 256 ^ k \<Longrightarrow> big_endian (be_bytes k x) = (of_nat x :: 'a :: len word)"
proof (induction k arbitrary: x)
  case 0
  then show ?case by (simp add: big_endian_def)
next
  case (Suc k)
  have "(ucast (of_nat (x mod 256) :: byte) :: 'a word) = of_nat (x mod 256)"
    by (simp add: unsigned_of_nat take_bit_eq_mod)
  moreover have "big_endian (be_bytes k (x div 256)) = (of_nat (x div 256) :: 'a word)"
    using Suc by (simp add: less_mult_imp_div_less mult.commute)
  ultimately have "big_endian (be_bytes (Suc k) x) = (256 * of_nat (x div 256) + of_nat (x mod 256) :: 'a word)"
    by (simp add: big_endian_def shift_in_byte [where 'a = 'a, unfolded push_bit_eq_mult] shift_in_byte)
  also have "\<dots> = of_nat (256 * (x div 256) + x mod 256)" by (simp only: of_nat_add of_nat_mult of_nat_numeral)
  finally show ?case by simp
qed

datatype producer_frame = Jpeg_Frame bytes | Nv21_Frame nat nat int bytes

fun wire_frame :: "producer_frame \<Rightarrow> bytes" where
  "wire_frame (Jpeg_Frame jpeg) = be_bytes 4 (length jpeg) @ jpeg"
| "wire_frame (Nv21_Frame w h t nv21) =
     be_bytes 4 2 @ be_bytes 4 w @ be_bytes 4 h @ be_bytes 4 w @ be_bytes 4 w @ be_bytes 4 (length nv21)
     @ be_bytes 8 (unat (word_of_int t :: u64)) @ nv21"

text \<open>Frames of the kind the magic announces, with sizes the engine accepts.\<close>

fun sendable :: "bool \<Rightarrow> producer_frame \<Rightarrow> bool" where
  "sendable typed_frames (Jpeg_Frame jpeg) =
     (\<not> typed_frames \<and> 4 \<le> length jpeg \<and> length jpeg \<le> kMaxFrameBytes)"
| "sendable typed_frames (Nv21_Frame w h t nv21) =
     (typed_frames \<and> 0 < w \<and> even w \<and> 0 < h \<and> even h \<and> w < 2 ^ 31 \<and> h < 2 ^ 31 \<and> w * h \<le> 3840 * 2160
      \<and> length nv21 = w * h * 3 div 2 \<and> - (2 ^ 63) \<le> t \<and> t < 2 ^ 63)"

fun frame_of :: "int \<Rightarrow> producer_frame \<Rightarrow> SourceFrame" where
  "frame_of now (Jpeg_Frame jpeg) = \<lparr>payload = jpeg, frame_kind = kJpeg, frame_width = 0, frame_height = 0,
     presentation_time_ns = now, arrival_time_ns = now\<rparr>"
| "frame_of now (Nv21_Frame w h t nv21) = \<lparr>payload = nv21, frame_kind = kNv21, frame_width = int w,
     frame_height = int h, presentation_time_ns = t, arrival_time_ns = now\<rparr>"

text \<open>Reads that deliver something and may be interrupted, more of them than there are bytes.\<close>

definition arrivals :: "(bool \<times> arrival) list \<Rightarrow> nat" where
  "arrivals es = length (filter (\<lambda>(stop, a). a \<noteq> ReadFailed EINTR) es)"

definition friendly :: "(bool \<times> arrival) list \<Rightarrow> bool" where
  "friendly es \<longleftrightarrow> list_all (\<lambda>(stop, a). \<not> stop \<and> (case a of Arrive k \<Rightarrow> 0 < k | ReadFailed e \<Rightarrow> e = EINTR)) es"

definition plenty :: "connection \<Rightarrow> bool" where
  "plenty c \<longleftrightarrow> friendly (schedule c) \<and> length (incoming c) < arrivals (schedule c)"

lemma read_exact_friendly:
  assumes "friendly es" "n \<le> length received + length pending" "n - length received \<le> arrivals es"
    "length received \<le> n"
  shows "\<exists>es'. read_exact n received pending es =
      Some (True, received @ take (n - length received) pending, drop (n - length received) pending, es')
    \<and> friendly es' \<and> arrivals es \<le> arrivals es' + (n - length received)"
  using assms
proof (induction es arbitrary: received pending)
  case Nil
  then show ?case by (simp add: friendly_def arrivals_def)
next
  case (Cons ev es)
  obtain stop a where ev: "ev = (stop, a)" by fastforce
  have stop: "\<not> stop" and es: "friendly es" using Cons.prems(1) ev by (auto simp: friendly_def)
  show ?case
  proof (cases "n \<le> length received")
    case True
    then show ?thesis using Cons.prems ev by simp
  next
    case False
    show ?thesis
    proof (cases a)
      case (Arrive k)
      define b where "b = take (min k (n - length received)) pending"
      have k: "0 < k" using Cons.prems(1) ev Arrive by (auto simp: friendly_def)
      have b: "b \<noteq> []" "length b \<le> n - length received" "0 < length b"
        using False k Cons.prems(2) by (auto simp: b_def)
      have pending: "pending = b @ drop (length b) pending"
        by (metis b_def append_take_drop_id append_eq_conv_conj)
      have n: "n - length (received @ b) = n - length received - length b" by simp
      obtain es' where rec: "read_exact n (received @ b) (drop (length b) pending) es =
          Some (True, (received @ b) @ take (n - length (received @ b)) (drop (length b) pending),
            drop (n - length (received @ b)) (drop (length b) pending), es')"
        "friendly es'" "arrivals es \<le> arrivals es' + (n - length (received @ b))"
      proof -
        have "n \<le> length (received @ b) + length (drop (length b) pending)"
          using Cons.prems(2) pending by (metis length_append add.assoc)
        moreover have "n - length (received @ b) \<le> arrivals es"
        proof -
          have "arrivals (ev # es) = Suc (arrivals es)" using ev Arrive by (simp add: arrivals_def)
          then show ?thesis using Cons.prems(3) b(3) unfolding length_append by linarith
        qed
        moreover have "length (received @ b) \<le> n" using b(2) Cons.prems(4) by simp
        ultimately show ?thesis using Cons.IH [OF es] that by blast
      qed
      have "take (n - length received) pending = b @ take (n - length (received @ b)) (drop (length b) pending)"
        using b(2) n pending by (metis (no_types, lifting) append_take_drop_id take_append take_all_iff)
      moreover have "drop (n - length received) pending = drop (n - length (received @ b)) (drop (length b) pending)"
      proof -
        have "n - length (received @ b) + length b = n - length received"
          using b(2) unfolding length_append by linarith
        then show ?thesis unfolding drop_drop by simp
      qed
      moreover have "arrivals (ev # es) \<le> arrivals es' + (n - length received)"
      proof -
        have "arrivals (ev # es) = Suc (arrivals es)" using ev Arrive by (simp add: arrivals_def)
        then show ?thesis using rec(3) b(2,3) unfolding length_append by linarith
      qed
      ultimately show ?thesis
        using rec(1,2) b(1) False stop ev Arrive by (auto simp: b_def [symmetric])
    next
      case (ReadFailed e)
      then have "e = EINTR" using Cons.prems(1) ev by (simp add: friendly_def)
      then show ?thesis using Cons.IH [OF es Cons.prems(2) _ Cons.prems(4)] Cons.prems(3) False stop ev ReadFailed
        by (simp add: arrivals_def)
    qed
  qed
qed

lemma ReadExact_plenty:
  assumes "plenty c" "n \<le> length (incoming c)"
  obtains c' where "ReadExact n c = Some (Some (take n (incoming c)), c')" "plenty c'"
    "incoming c' = drop n (incoming c)" "push_times c' = push_times c"
proof -
  obtain es' where "read_exact n [] (incoming c) (schedule c) =
      Some (True, take n (incoming c), drop n (incoming c), es')" "friendly es'"
      "arrivals (schedule c) \<le> arrivals es' + n"
    using read_exact_friendly [of "schedule c" n "[]" "incoming c"] assms by (auto simp: plenty_def)
  then show ?thesis using assms
    by (intro that [of "c\<lparr>incoming := drop n (incoming c), schedule := es'\<rparr>"])
      (auto simp: ReadExact_def plenty_def)
qed

lemma read_exact_end:
  "friendly es \<Longrightarrow> 0 < arrivals es \<Longrightarrow> 0 < n \<Longrightarrow>
    \<exists>es'. read_exact n [] [] es = Some (False, [], [], es')"
proof (induction es)
  case Nil
  then show ?case by (simp add: arrivals_def)
next
  case (Cons ev es)
  then show ?case by (cases ev) (auto simp: friendly_def arrivals_def split: arrival.splits)
qed

lemma ReadExact_end:
  "plenty c \<Longrightarrow> incoming c = [] \<Longrightarrow> 0 < n \<Longrightarrow> \<exists>c'. ReadExact n c = Some (None, c')"
  using read_exact_end [of "schedule c" n] by (auto simp: ReadExact_def plenty_def)

lemma read_or_return_plenty:
  assumes "plenty c" "incoming c = b @ rest"
  obtains c' where "read_or_return (length b) e c continue = continue b c'" "plenty c'"
    "incoming c' = rest" "push_times c' = push_times c"
proof -
  have "length b \<le> length (incoming c)" "take (length b) (incoming c) = b" "drop (length b) (incoming c) = rest"
    using assms(2) by simp_all
  then obtain c' where "ReadExact (length b) c = Some (Some b, c')" "plenty c'" "incoming c' = rest"
    "push_times c' = push_times c"
    using ReadExact_plenty [OF assms(1), of "length b"] by metis
  then show ?thesis by (intro that [of c']) (simp_all add: read_or_return_def)
qed

lemma read_bytes_plenty:
  assumes "plenty c" "incoming c = b @ rest" "length b = n"
  obtains c' where "\<And>e continue. read_or_return n e c continue = continue b c'" "plenty c'"
    "incoming c' = rest" "push_times c' = push_times c"
proof -
  obtain c' where "ReadExact n c = Some (Some b, c')" "plenty c'" "incoming c' = rest"
    "push_times c' = push_times c"
    using ReadExact_plenty [OF assms(1), of n] assms(2,3) by auto
  then show ?thesis by (intro that [of c']) (simp_all add: read_or_return_def)
qed

lemma legacy_turn:
  assumes "plenty c" "incoming c = wire_frame f @ rest" "sendable False f" "producer_active e = Inr ()"
    "push_times c = now # later"
  shows "\<exists>c'. legacy_frame e c = Some (True, PublishFrame now (frame_of now f) e, c', [])
    \<and> plenty c' \<and> incoming c' = rest \<and> push_times c' = later"
proof -
  obtain jpeg where f: "f = Jpeg_Frame jpeg" and len: "4 \<le> length jpeg" "length jpeg \<le> 16777216"
    using assms(3) by (cases f) (auto simp: kMaxFrameBytes_def)
  let ?size = "be_bytes 4 (length jpeg)"
  obtain c1 where c1: "\<And>e continue. read_or_return 4 e c continue = continue ?size c1" "plenty c1"
    "incoming c1 = jpeg @ rest" "push_times c1 = now # later"
    using read_bytes_plenty [OF assms(1), of ?size "jpeg @ rest" 4] assms(2,5) f by auto
  obtain c2 where c2: "\<And>e continue. read_or_return (length jpeg) e c1 continue = continue jpeg c2" "plenty c2"
    "incoming c2 = rest" "push_times c2 = now # later"
    using read_bytes_plenty [OF c1(2,3) refl] c1(4) by auto
  have size: "big_endian ?size = (of_nat (length jpeg) :: u32)" using len by (intro big_endian_be_bytes) simp
  have unat: "unat (of_nat (length jpeg) :: u32) = length jpeg" using len by (simp add: unat_of_nat)
  have bounds: "\<not> (of_nat (length jpeg) :: u32) < 4" "\<not> kMaxFramePayload < of_nat (length jpeg)"
    using len unat by (simp_all add: word_less_nat_alt kMaxFramePayload_def)
  have "PushFrame now jpeg e = (Inr (), PublishFrame now (frame_of now f) e)"
    using assms(4) len f by (simp add: PushFrame_def push_frame_def kMaxFrameBytes_def)
  then have "legacy_frame e c = Some (True, PublishFrame now (frame_of now f) e, c2\<lparr>push_times := later\<rparr>, [])"
    by (simp add: legacy_frame_def c1(1) size bounds unat c2(1) c2(4) push_or_return_def)
  then show ?thesis using c2(2,3) by (auto simp: plenty_def)
qed

lemma sint_of_small_nat:
  assumes "n < 2 ^ 31" shows "sint (of_nat n :: u32) = int n"
proof -
  have "sint (word_of_int (int n) :: u32) = int n"
    unfolding sint_sbintrunc' using assms by (simp add: signed_take_bit_int_eq_self)
  then show ?thesis by (simp only: of_int_of_nat_eq)
qed

lemma typed_turn:
  assumes "plenty c" "incoming c = wire_frame f @ rest" "sendable True f" "producer_active e = Inr ()"
    "push_times c = now # later"
  shows "\<exists>c'. typed_frame e c = Some (True, PublishFrame now (frame_of now f) e, c', [])
    \<and> plenty c' \<and> incoming c' = rest \<and> push_times c' = later"
proof -
  obtain w h t nv21 where f: "f = Nv21_Frame w h t nv21"
    and w: "0 < w" "even w" "w < 2 ^ 31" and h: "0 < h" "even h" "h < 2 ^ 31" and area: "w * h \<le> 3840 * 2160"
    and len: "length nv21 = w * h * 3 div 2" and t: "- (2 ^ 63) \<le> t" "t < 2 ^ 63"
    using assms(3) by (cases f) auto
  let ?fields = "be_bytes 4 2 @ be_bytes 4 w @ be_bytes 4 h @ be_bytes 4 w @ be_bytes 4 w @ be_bytes 4 (length nv21)"
  let ?stamp = "be_bytes 8 (unat (word_of_int t :: u64))"
  obtain c1 where c1: "\<And>e continue. read_or_return 24 e c continue = continue ?fields c1" "plenty c1"
    "incoming c1 = ?stamp @ nv21 @ rest" "push_times c1 = now # later"
    using read_bytes_plenty [OF assms(1), of ?fields "?stamp @ nv21 @ rest" 24] assms(2,5) f by auto
  obtain c2 where c2: "\<And>e continue. read_or_return 8 e c1 continue = continue ?stamp c2" "plenty c2"
    "incoming c2 = nv21 @ rest" "push_times c2 = now # later"
    using read_bytes_plenty [OF c1(2,3), of 8] c1(4) by auto
  obtain c3 where c3: "\<And>e continue. read_or_return (length nv21) e c2 continue = continue nv21 c3" "plenty c3"
    "incoming c3 = rest" "push_times c3 = now # later"
    using read_bytes_plenty [OF c2(2,3) refl] c2(4) by auto
  have n4: "2 \<le> w" "2 \<le> h" using w h by presburger+
  have size: "4 \<le> length nv21" "length nv21 \<le> 12441600"
    using len area mult_le_mono [OF n4] by auto
  have fields: "big_endian (be_bytes 4 2) = (2 :: u32)" "big_endian (be_bytes 4 w) = (of_nat w :: u32)"
    "big_endian (be_bytes 4 h) = (of_nat h :: u32)"
    "big_endian (be_bytes 4 (length nv21)) = (of_nat (length nv21) :: u32)"
    using w h size by (subst big_endian_be_bytes; simp)+
  have "unat (word_of_int t :: u64) < 256 ^ 8" using unsigned_less [of "word_of_int t :: u64"] by simp
  then have stamp: "sint (big_endian ?stamp :: u64) = t"
    using t by (simp add: big_endian_be_bytes signed_of_int signed_take_bit_int_eq_self)
  have unat: "unat (of_nat (length nv21) :: u32) = length nv21" "unat (of_nat w :: u32) = w" "unat (of_nat h :: u32) = h"
    using size w h by (simp_all add: unat_of_nat)
  have words: "(of_nat w :: u32) \<noteq> 0" "(of_nat h :: u32) \<noteq> 0"
    using w(1,3) h(1,3) by (auto simp: word_of_nat_eq_0_iff dest: dvd_imp_le)
  have bounds: "\<not> (of_nat (length nv21) :: u32) < 4" "\<not> kMaxFramePayload < of_nat (length nv21)"
    using unat(1) size by (simp_all add: word_less_nat_alt kMaxFramePayload_def)
  have ints: "sint (of_nat w :: u32) = int w" "sint (of_nat h :: u32) = int h"
    using w(3) h(3) by (simp_all add: sint_of_small_nat)
  have even: "int w AND 1 = 0" "int h AND 1 = 0" using w h by (simp_all add: and_one_eq)
  have "PushNv21Frame now nv21 (int w) (int h) t e = (Inr (), PublishFrame now (frame_of now f) e)"
    using assms(4) w h area len size even f
    by (simp add: PushNv21Frame_def push_nv21_frame_def kMaxFrameBytes_def)
  then have "typed_frame e c = Some (True, PublishFrame now (frame_of now f) e, c3\<lparr>push_times := later\<rparr>, [])"
    using words bounds
    by (simp add: typed_frame_def c1(1) c2(1) fields stamp unat ints c3(1) c3(4) push_or_return_def Let_def)
  then show ?thesis using c3(2,3) by (auto simp: plenty_def)
qed

lemma active_after_publish [simp]: "producer_active (PublishFrame t f e) = producer_active e"
  by (simp add: producer_active_def PublishFrame_def)

lemma plenty_schedule:
  assumes "plenty c" obtains a rest where "schedule c = (False, a) # rest"
  using assms by (cases "schedule c") (auto simp: plenty_def friendly_def arrivals_def)

lemma frame_loop_delivers:
  assumes "plenty c" "incoming c = concat (map wire_frame fs)" "list_all (sendable typed_frames) fs"
    "producer_active e = Inr ()" "length fs \<le> length (push_times c)"
  shows "\<exists>c'. frame_loop typed_frames e c =
    Some (publish_all (map (\<lambda>(t, f). (t, frame_of t f)) (zip (push_times c) fs)) e, c', [])"
  using assms
proof (induction fs arbitrary: e c)
  case Nil
  obtain a rest where sched: "schedule c = (False, a) # rest" using plenty_schedule Nil.prems(1) by blast
  have "\<exists>c'. (if typed_frames then typed_frame e c else legacy_frame e c) = Some (False, e, c', [])"
    using ReadExact_end [OF Nil.prems(1), of 24] ReadExact_end [OF Nil.prems(1), of 4] Nil.prems(2)
    by (auto simp: typed_frame_def legacy_frame_def read_or_return_def)
  then show ?case using sched by (auto simp: frame_loop.simps [of typed_frames e c])
next
  case (Cons f fs)
  obtain now later where times: "push_times c = now # later" using Cons.prems(5) by (cases "push_times c") auto
  obtain a rest where sched: "schedule c = (False, a) # rest" using plenty_schedule Cons.prems(1) by blast
  have "\<exists>c'. (if typed_frames then typed_frame e c else legacy_frame e c) =
      Some (True, PublishFrame now (frame_of now f) e, c', [])
    \<and> plenty c' \<and> incoming c' = concat (map wire_frame fs) \<and> push_times c' = later"
    using legacy_turn [OF Cons.prems(1) _ _ Cons.prems(4) times, of f "concat (map wire_frame fs)"]
      typed_turn [OF Cons.prems(1) _ _ Cons.prems(4) times, of f "concat (map wire_frame fs)"] Cons.prems(2,3)
    by (cases typed_frames) auto
  then obtain c1 where c1: "(if typed_frames then typed_frame e c else legacy_frame e c) =
      Some (True, PublishFrame now (frame_of now f) e, c1, [])" "plenty c1"
      "incoming c1 = concat (map wire_frame fs)" "push_times c1 = later" by blast
  have "frame_loop typed_frames e c = frame_loop typed_frames (PublishFrame now (frame_of now f) e) c1"
    using sched c1(1) by (simp add: frame_loop.simps [of typed_frames e c])
  then show ?case
    using Cons.IH [OF c1(2,3), of "PublishFrame now (frame_of now f) e"] Cons.prems(3-5) times c1(4) by simp
qed

subsection \<open>The server\<close>

text \<open>One round of the accepting loop; \<open>meanwhile\<close> is what the other threads do to the engine before the client
  is served.\<close>

record frame_accept =
  frame_stop :: bool
  frame_fd :: int
  frame_errno :: int
  frame_peer :: "u32 option"
  frame_connection :: connection
  frame_meanwhile :: "Engine \<Rightarrow> Engine"

fun FrameServer ::
  "(int \<Rightarrow> string) \<Rightarrow> bool \<Rightarrow> u32 \<Rightarrow> Globals \<Rightarrow> frame_accept list \<Rightarrow> Engine \<Rightarrow> int list
     \<Rightarrow> (Engine \<times> int list \<times> string list) option" where
  "FrameServer strerror android own_uid g [] e opened = None"
| "FrameServer strerror android own_uid g (a # rounds) e opened =
     (if frame_stop a then Some (e, opened, [])
      else if frame_fd a < 0 then
        (if frame_errno a = EINTR then FrameServer strerror android own_uid g rounds e opened
         else Some (e, opened, [''frame accept failed: '' @ strerror (frame_errno a)]))
      else let client = frame_fd a; opened = client # opened in do {
        (e, logs) \<leftarrow> HandleFrameClient android own_uid (frame_peer a) g (frame_meanwhile a e) (frame_connection a);
        (e, opened, more) \<leftarrow> FrameServer strerror android own_uid g rounds e (remove1 client opened);
        Some (e, opened, logs @ more) })"

lemma FrameServer_closes:
  "FrameServer strerror android own_uid g rounds e opened = Some (e', opened', logs) \<Longrightarrow> opened' = opened"
  by (induction rounds arbitrary: e opened logs) (auto simp: Let_def bind_eq_Some_conv split: if_splits)

subsection \<open>Properties\<close>

text \<open>Publishing accepted frames touches the frame, its generation and four fields of the status.\<close>

lemma publish_all_keeps:
  assumes "list_all (\<lambda>(t, f). accepts f) fs"
  shows "eng_config (publish_all fs e) = eng_config e \<and> sink (publish_all fs e) = sink e
    \<and> stop_requested (publish_all fs e) = stop_requested e \<and> running (status (publish_all fs e)) = running (status e)
    \<and> frames_dropped (status (publish_all fs e)) = frames_dropped (status e)
    \<and> frames_written (status (publish_all fs e)) = frames_written (status e)
    \<and> frames_received (status (publish_all fs e)) = frames_received (status e) + of_nat (length fs)"
  using assms
proof (induction fs arbitrary: e)
  case Nil
  then show ?case by simp
next
  case (Cons tf fs)
  obtain t f where "tf = (t, f)" by fastforce
  then show ?case using Cons by (simp add: PublishFrame_cases algebra_simps)
qed

lemma HandleFrameClient_publishes:
  assumes "HandleFrameClient android own_uid who g e c = Some (e', logs)"
  obtains fs where "e' = publish_all fs e" "list_all (\<lambda>(t, f). accepts f \<and> pushed t f) fs"
    "prefix (map fst fs) (push_times c)"
    "IsAllowedPeer android own_uid who g \<or> fs = []" "producer_active e = Inr () \<or> fs = []"
proof (cases "IsAllowedPeer android own_uid who g")
  case False
  then have "e' = publish_all [] e" using assms by (simp add: HandleFrameClient_def)
  then show ?thesis by (intro that [of "[]"]) simp_all
next
  case True
  then obtain magic c1 where magic: "ReadExact 4 c = Some (magic, c1)"
    using assms by (auto simp: HandleFrameClient_def bind_eq_Some_conv)
  show ?thesis
  proof (cases "\<exists>m. magic = Some m \<and> (m = [0x56, 0x43, 0x46, 0x31] \<or> m = [0x56, 0x43, 0x46, 0x32])")
    case False
    then have "e' = publish_all [] e"
      using assms True magic by (auto simp: HandleFrameClient_def Let_def split: option.splits)
    then show ?thesis by (intro that [of "[]"]) simp_all
  next
    case known: True
    then obtain typed c2 where "frame_loop typed e c1 = Some (e', c2, logs)"
      using assms True magic by (auto simp: HandleFrameClient_def Let_def bind_eq_Some_conv)
    from frame_loop_effect [OF this] obtain fs where "e' = publish_all fs e"
      "list_all (\<lambda>(t, f). accepts f \<and> pushed t f) fs" "prefix (map fst fs) (push_times c1)"
      "producer_active e = Inr () \<or> fs = []" by blast
    then show ?thesis using True ReadExact_times [OF magic] by (intro that) simp_all
  qed
qed

definition frame_magic :: "bool \<Rightarrow> bytes" where
  "frame_magic typed_frames = (if typed_frames then [0x56, 0x43, 0x46, 0x32] else [0x56, 0x43, 0x46, 0x31])"

lemma HandleFrameClient_delivers:
  assumes "IsAllowedPeer android own_uid who g" "producer_active e = Inr ()" "plenty c"
    and "incoming c = frame_magic typed_frames @ concat (map wire_frame fs)"
    and "list_all (sendable typed_frames) fs" "length fs \<le> length (push_times c)"
  shows "HandleFrameClient android own_uid who g e c =
    Some (publish_all (map (\<lambda>(t, f). (t, frame_of t f)) (zip (push_times c) fs)) e, [])"
proof -
  have len: "length (frame_magic typed_frames) = 4" by (simp add: frame_magic_def)
  obtain c1 where c1: "ReadExact 4 c = Some (Some (frame_magic typed_frames), c1)" "plenty c1"
    "incoming c1 = concat (map wire_frame fs)" "push_times c1 = push_times c"
    using ReadExact_plenty [OF assms(3), of 4] assms(4) len by auto
  obtain c2 where "frame_loop typed_frames e c1 =
      Some (publish_all (map (\<lambda>(t, f). (t, frame_of t f)) (zip (push_times c1) fs)) e, c2, [])"
    using frame_loop_delivers [OF c1(2,3) assms(5,2)] assms(6) c1(4) by auto
  then show ?thesis using assms(1) c1 by (cases typed_frames) (simp_all add: HandleFrameClient_def frame_magic_def)
qed

text \<open>C6. Whatever bytes a client sends, in whatever pieces and with whatever failures, all it can do to the engine is to
  publish frames of an accepted size, and only an allowed peer of an active local session can do even that:
  configuration, device, session and the counters of dropped and written frames stay as they are.\<close>

theorem frame_client_confined:
  assumes "HandleFrameClient android own_uid who g e c = Some (e', logs)"
  shows "\<exists>fs. e' = publish_all fs e \<and> list_all (\<lambda>(t, f). accepts f) fs
    \<and> (if IsAllowedPeer android own_uid who g \<and> producer_active e = Inr () then True else fs = [])
    \<and> eng_config e' = eng_config e \<and> sink e' = sink e \<and> running (status e') = running (status e)
    \<and> frames_dropped (status e') = frames_dropped (status e)
    \<and> frames_received (status e') = frames_received (status e) + of_nat (length fs)"
proof -
  obtain fs where fs: "e' = publish_all fs e" "list_all (\<lambda>(t, f). accepts f \<and> pushed t f) fs"
    "IsAllowedPeer android own_uid who g \<or> fs = []" "producer_active e = Inr () \<or> fs = []"
    using HandleFrameClient_publishes [OF assms] by metis
  from fs(2) have "list_all (\<lambda>(t, f). accepts f) fs" by (auto simp: list_all_iff)
  then show ?thesis using fs publish_all_keeps [of fs e] by (intro exI [of _ fs]) auto
qed

lemma frame_client_confined_witness:
  "\<exists>fs. list_all (\<lambda>(t, f). accepts f) fs \<and> fs = [] \<and> publish_all fs Engine_new = Engine_new"
proof -
  have "HandleFrameClient True 1000 (Some 10999) Globals_default Engine_new
      \<lparr>incoming = [1, 2, 3], schedule = [], push_times = []\<rparr> = Some (Engine_new, [])"
    by (simp add: HandleFrameClient_def IsAllowedPeer_def Globals_default_def)
  from frame_client_confined [OF this] show ?thesis
    by (auto simp: IsAllowedPeer_def Globals_default_def)
qed

text \<open>C2. A producer's frames arrive: an allowed peer that sends the magic and any frames the engine can take, cut into any
  pieces and with interrupted reads, gets exactly these frames published, in order, with their sizes and time stamps,
  and nothing logged.\<close>

theorem frame_protocol_roundtrip:
  assumes "IsAllowedPeer android own_uid who g" "producer_active e = Inr ()" "plenty c"
    and "incoming c = frame_magic typed_frames @ concat (map wire_frame fs)"
    and "list_all (sendable typed_frames) fs" "length fs \<le> length (push_times c)"
  shows "HandleFrameClient android own_uid who g e c =
    Some (publish_all (map (\<lambda>(t, f). (t, frame_of t f)) (zip (push_times c) fs)) e, [])"
  using assms by (rule HandleFrameClient_delivers)

text \<open>Two small frames, sent in pieces of three bytes.\<close>

definition sample_frames :: "producer_frame list" where
  "sample_frames = [Nv21_Frame 2 2 7 [1, 2, 3, 4, 5, 6], Nv21_Frame 2 2 8 [6, 5, 4, 3, 2, 1]]"

definition sample_connection :: connection where
  "sample_connection = \<lparr>incoming = frame_magic True @ concat (map wire_frame sample_frames),
     schedule = (False, ReadFailed EINTR) # replicate 100 (False, Arrive 3), push_times = [11, 12]\<rparr>"

lemma sample_client_ok:
  "IsAllowedPeer True 1000 (Some 0) Globals_default" "producer_active local_engine = Inr ()"
  "plenty sample_connection" "incoming sample_connection = frame_magic True @ concat (map wire_frame sample_frames)"
  "list_all (sendable True) sample_frames" "length sample_frames \<le> length (push_times sample_connection)"
  by (simp_all add: IsAllowedPeer_def producer_active_def local_engine_def local_config_def plenty_def
      sample_connection_def friendly_def arrivals_def frame_magic_def sample_frames_def list_all_iff)

lemma frame_protocol_roundtrip_witness:
  "HandleFrameClient True 1000 (Some 0) Globals_default local_engine sample_connection =
    Some (publish_all [(11, frame_of 11 (Nv21_Frame 2 2 7 [1, 2, 3, 4, 5, 6])),
      (12, frame_of 12 (Nv21_Frame 2 2 8 [6, 5, 4, 3, 2, 1]))] local_engine, [])"
  using frame_protocol_roundtrip [OF sample_client_ok] by (simp add: sample_connection_def sample_frames_def)

end
