(* ===== verification/Control_Client.thy ===== *)
theory Control_Client
  imports Frame_Client
begin

section \<open>The control socket\<close>

text \<open>
  \<open>WriteAll\<close>, \<open>StartGlobalPlaceholder\<close>, \<open>HandleControlClient\<close> and \<open>ControlServer\<close> of \<open>main.cpp\<close>: one request,
  one line of JSON back. The engine is the one of \<open>Engine\<close>; a start needs what the world decides about it
  (\<open>start_world\<close>), where \<open>joining\<close> is what the threads of the old session still do to it until they are joined,
  \<open>waited\<close> what those of the new one have made of it when the wait for the first frame ends, and \<open>leaving\<close> what they
  do after a wait in vain until they are joined.
\<close>

subsection \<open>The code\<close>

definition kMaxCommandBytes :: nat where "kMaxCommandBytes = 16 * 1024"

text \<open>\<open>WriteAll\<close> of the daemon: what was written, and the answers left.\<close>

fun daemon_write :: "send_answers \<Rightarrow> 'a list \<Rightarrow> 'a list \<Rightarrow> ('a list \<times> send_answers) option" where
  "daemon_write answers [] sent = Some (sent, answers)"
| "daemon_write [] (x # xs) sent = None"
| "daemon_write ((count, errno) # answers) (x # xs) sent =
     (if 0 < count then
        daemon_write answers (drop (nat count) (x # xs)) (sent @ take (nat count) (x # xs))
      else if count < 0 \<and> errno = EINTR then daemon_write answers (x # xs) sent
      else Some (sent, answers))"

definition Daemon_WriteAll :: "send_answers \<Rightarrow> 'a list \<Rightarrow> ('a list \<times> send_answers) option" where
  "Daemon_WriteAll answers response = daemon_write answers response []"

record start_world =
  start_kernel :: kernel
  start_time :: int
  writer_failure :: "string option"
  source_failure :: "(string \<times> (Engine \<Rightarrow> Engine)) option"
  joining :: "Engine \<Rightarrow> Engine"
  waited :: "Engine \<Rightarrow> Engine"
  leaving :: "Engine \<Rightarrow> Engine"

text \<open>\<open>Start\<close> followed by the wait for the first frame.\<close>

definition start_and_wait :: "start_world \<Rightarrow> Config \<Rightarrow> Engine \<Rightarrow> (unit outcome \<times> Engine) option" where
  "start_and_wait sw config e = do {
     (r, e) \<leftarrow> Engine_Start (start_kernel sw) (start_time sw) (writer_failure sw) (source_failure sw) config e;
     Some (case r of
       Inl message \<Rightarrow> (Inl message, e)
     | Inr _ \<Rightarrow> let e = waited sw e in (WaitForFirstFrameWritten e, e)) }"

definition placeholder_config :: Config where
  "placeholder_config = Config_default\<lparr>cfg_url := ''push://placeholder'', cfg_video_device := ''/dev/video100'',
     cfg_width := 1280, cfg_height := 720, cfg_fps := 30\<rparr>"

definition StartGlobalPlaceholder :: "start_world \<Rightarrow> Engine \<Rightarrow> (unit outcome \<times> Engine) option" where
  "StartGlobalPlaceholder sw e = do {
     (r, e) \<leftarrow> Engine_Start (start_kernel sw) (start_time sw) (writer_failure sw) (source_failure sw)
       placeholder_config (joining sw e);
     Some (case r of
       Inl message \<Rightarrow> (Inl message, e)
     | Inr _ \<Rightarrow> let e = waited sw e in
         (case WaitForFirstFrameWritten e of
            Inr _ \<Rightarrow> (Inr (), e)
          | Inl message \<Rightarrow> (Inl message, Engine_Stop (leaving sw e)))) }"

definition error_response :: "string \<Rightarrow> string" where
  "error_response message = ''{\"ok\":false,\"error\":\"'' @ JsonEscape message @ ''\"}'' @ [newline]"

text \<open>The reading loop: the request, or the answer to one that is too long.\<close>

fun read_request :: "string \<Rightarrow> string \<Rightarrow> arrival list \<Rightarrow> string outcome option" where
  "read_request request pending [] = None"
| "read_request request pending (Arrive k # turns) =
     (let b = take (min k 2048) pending in
      if b \<noteq> [] then
        if kMaxCommandBytes < length (request @ b) then
          Some (Inl (''{\"ok\":false,\"error\":\"command too large\"}'' @ [newline]))
        else read_request (request @ b) (drop (length b) pending) turns
      else Some (Inr request))"
| "read_request request pending (ReadFailed errno # turns) =
     (if errno = EINTR then read_request request pending turns else Some (Inr request))"

text \<open>What a request does, and the response. \<open>now\<close> is the time at which the status is read; the second start is
  that of the placeholder behind a failed one.\<close>

definition run_command ::
  "Globals \<Rightarrow> start_world \<Rightarrow> start_world \<Rightarrow> int \<Rightarrow> Command \<Rightarrow> Engine \<Rightarrow> (string \<times> Engine) option" where
  "run_command g sw sw2 now command e =
     (case cmd_type command of
        kStart \<Rightarrow> do {
          (r, e) \<leftarrow> start_and_wait sw ((cmd_config command)\<lparr>cfg_ffmpeg_path := g_ffmpeg_path g\<rparr>)
            (Engine_Stop (joining sw e));
          (case r of
             Inl message \<Rightarrow>
               if g_prime_global_camera g then do {
                 (_, e) \<leftarrow> StartGlobalPlaceholder sw2 e;
                 Some (error_response message, e) }
               else Some (error_response message, e)
           | Inr _ \<Rightarrow> Some (StatusJson now e @ [newline], e)) }
      | kStop \<Rightarrow>
          if g_prime_global_camera g then do {
            (r, e) \<leftarrow> StartGlobalPlaceholder sw e;
            Some (case r of
              Inl message \<Rightarrow> (error_response message, e)
            | Inr _ \<Rightarrow> (StatusJson now e @ [newline], e)) }
          else let e = Engine_Stop (joining sw e) in Some (StatusJson now e @ [newline], e)
      | kStatus \<Rightarrow> Some (StatusJson now e @ [newline], e)
      | kInvalid \<Rightarrow> Some (''{\"ok\":false,\"error\":\"invalid command\"}'' @ [newline], e))"

text \<open>One client: the response given to \<open>WriteAll\<close> and the engine.\<close>

definition HandleControlClient ::
  "(options \<Rightarrow> options) \<Rightarrow> bool \<Rightarrow> u32 \<Rightarrow> u32 option \<Rightarrow> Globals \<Rightarrow> start_world \<Rightarrow> start_world \<Rightarrow> int
     \<Rightarrow> string \<Rightarrow> arrival list \<Rightarrow> Engine \<Rightarrow> (string \<times> Engine) option" where
  "HandleControlClient iteration android own_uid who g sw sw2 now pending turns e =
     (if \<not> IsAllowedPeer android own_uid who g then
        Some (''{\"ok\":false,\"error\":\"permission denied\"}'' @ [newline], e)
      else do {
        r \<leftarrow> read_request [] pending turns;
        (case r of
           Inl response \<Rightarrow> Some (response, e)
         | Inr request \<Rightarrow>
             (case ParseCommand iteration request (Some Command_default) of
                Inl message \<Rightarrow> Some (error_response message, e)
              | Inr command \<Rightarrow> run_command g sw sw2 now command e)) })"

text \<open>The server, like the other one; it also writes the response.\<close>

record control_accept =
  control_stop :: bool
  control_fd :: int
  control_errno :: int
  control_peer :: "u32 option"
  control_pending :: string
  control_turns :: "arrival list"
  control_starts :: "start_world \<times> start_world"
  control_time :: int
  control_sends :: send_answers
  control_meanwhile :: "Engine \<Rightarrow> Engine"

fun ControlServer ::
  "(options \<Rightarrow> options) \<Rightarrow> (int \<Rightarrow> string) \<Rightarrow> bool \<Rightarrow> u32 \<Rightarrow> Globals \<Rightarrow> control_accept list \<Rightarrow> Engine
     \<Rightarrow> int list \<Rightarrow> (string list \<times> Engine \<times> int list \<times> string list) option" where
  "ControlServer iteration strerror android own_uid g [] e opened = None"
| "ControlServer iteration strerror android own_uid g (a # rounds) e opened =
     (if control_stop a then Some ([], e, opened, [])
      else if control_fd a < 0 then
        (if control_errno a = EINTR then ControlServer iteration strerror android own_uid g rounds e opened
         else Some ([], e, opened, [''control accept failed: '' @ strerror (control_errno a)]))
      else let client = control_fd a; opened = client # opened in do {
        (response, e) \<leftarrow> HandleControlClient iteration android own_uid (control_peer a) g
          (fst (control_starts a)) (snd (control_starts a)) (control_time a) (control_pending a) (control_turns a)
          (control_meanwhile a e);
        (written, _) \<leftarrow> Daemon_WriteAll (control_sends a) response;
        (more, e, opened, logs) \<leftarrow> ControlServer iteration strerror android own_uid g rounds e (remove1 client opened);
        Some (written # more, e, opened, logs) })"

subsection \<open>Every response is one line\<close>

text \<open>Text without control characters that could end the line.\<close>

definition one_line :: "string \<Rightarrow> bool" where
  "one_line s \<longleftrightarrow> newline \<notin> set s"

lemma one_line_simps [simp]:
  "one_line []" "one_line (s @ t) \<longleftrightarrow> one_line s \<and> one_line t" "one_line (c # s) \<longleftrightarrow> c \<noteq> newline \<and> one_line s"
  by (auto simp: one_line_def)

lemma one_line_escape: "one_line (escape_char c)"
proof -
  have hex: "kHex ! n \<noteq> newline" if "n < 16" for n
  proof -
    have "kHex ! n \<in> set kHex" using that by (intro nth_mem) (simp add: kHex_def)
    then show ?thesis by (auto simp: kHex_def newline_def)
  qed
  have "x AND 15 = x mod 16" for x :: nat
    using take_bit_eq_mask [of 4 x] by (simp add: take_bit_eq_mod mask_eq_exp_minus_1)
  then have "kHex ! (x AND 15) \<noteq> CHR 0x0A" for x using hex [of "x mod 16"] by (simp add: newline_def)
  note this [THEN not_sym]
  then show ?thesis
    by (auto simp: escape_char_def one_line_def quote_def backslash_def newline_def)
qed

lemma one_line_JsonEscape [simp]: "one_line (JsonEscape s)"
  by (induction s) (simp_all add: JsonEscape_def one_line_escape)

lemma one_line_to_string [simp]: "one_line (to_string i)"
proof -
  have "newline \<notin> set (show_nat n)" for n
    using show_nat_digits [of n] by (auto simp: list_all_iff newline_def is_digit_def code_def)
  then show ?thesis by (simp add: to_string_def one_line_def newline_def)
qed

lemma one_line_StatusJson: "one_line (StatusJson now e)"
  unfolding StatusJson_def Let_def
  by (simp add: newline_def json_bool_def)

text \<open>A response: one line with its end.\<close>

definition response_line :: "string \<Rightarrow> bool" where
  "response_line response \<longleftrightarrow> (\<exists>line. response = line @ [newline] \<and> one_line line)"

lemma response_lines:
  "response_line (StatusJson now e @ [newline])" "response_line (error_response message)"
  "response_line (''{\"ok\":false,\"error\":\"command too large\"}'' @ [newline])"
  "response_line (''{\"ok\":false,\"error\":\"permission denied\"}'' @ [newline])"
  "response_line (''{\"ok\":false,\"error\":\"invalid command\"}'' @ [newline])"
  unfolding response_line_def error_response_def
  by (intro exI conjI, rule refl, simp add: one_line_StatusJson)
    (intro exI [of _ "''{\"ok\":false,\"error\":\"'' @ JsonEscape message @ ''\"}''"] conjI, simp, simp add: newline_def,
     intro exI conjI, rule refl, simp add: newline_def,
     intro exI conjI, rule refl, simp add: newline_def, intro exI conjI, rule refl, simp add: newline_def)

subsection \<open>Who can do what\<close>

lemma read_request_result:
  "read_request request pending turns = Some r \<Longrightarrow> length request \<le> kMaxCommandBytes \<Longrightarrow>
    (case r of Inl response \<Rightarrow> response_line response
     | Inr whole \<Rightarrow> length whole \<le> kMaxCommandBytes \<and> prefix whole (request @ pending))"
proof (induction request pending turns rule: read_request.induct)
  case (1 request pending)
  then show ?case by simp
next
  case (2 request pending k turns)
  define b where "b = take (min k 2048) pending"
  have pending: "pending = b @ drop (length b) pending"
    by (metis b_def append_take_drop_id append_eq_conv_conj)
  show ?case
  proof (cases "b = [] \<or> kMaxCommandBytes < length (request @ b)")
    case True
    then show ?thesis using 2(2,3) response_lines(3) by (auto simp: b_def [symmetric] split: if_splits)
  next
    case False
    then have "read_request (request @ b) (drop (length b) pending) turns = Some r"
      using 2(2) by (simp add: b_def [symmetric])
    with 2(1) [OF b_def] False show ?thesis using pending by (auto split: sum.splits)
  qed
next
  case (3 request pending errno turns)
  then show ?case by (auto split: if_splits)
qed

lemma not_Inr_unit: "r \<noteq> Inr () \<longleftrightarrow> (\<exists>message. r = Inl message)"
  by (cases r) auto

lemma run_command_line: "run_command g sw sw2 now command e = Some (response, e') \<Longrightarrow> response_line response"
  by (auto simp: run_command_def bind_eq_Some_conv Let_def response_lines response_lines(5) [simplified] not_Inr_unit
      split: CommandType.split_asm sum.split_asm if_split_asm)

text \<open>The request that took effect, if one did.\<close>

definition effective_command ::
  "(options \<Rightarrow> options) \<Rightarrow> bool \<Rightarrow> u32 \<Rightarrow> u32 option \<Rightarrow> Globals \<Rightarrow> string \<Rightarrow> Command \<Rightarrow> bool" where
  "effective_command iteration android own_uid who g pending command \<longleftrightarrow>
     IsAllowedPeer android own_uid who g \<and> cmd_type command \<in> {kStart, kStop}
     \<and> (\<exists>request. prefix request pending \<and> length request \<le> kMaxCommandBytes
          \<and> ParseCommand iteration request (Some Command_default) = Inr command)"

lemma HandleControlClient_result:
  assumes "HandleControlClient iteration android own_uid who g sw sw2 now pending turns e = Some (response, e')"
  shows "response_line response \<and> (e' = e \<or> (\<exists>command.
    effective_command iteration android own_uid who g pending command
    \<and> run_command g sw sw2 now command e = Some (response, e')))"
proof (cases "IsAllowedPeer android own_uid who g")
  case False
  then show ?thesis using assms response_lines(4) by (auto simp: HandleControlClient_def)
next
  case True
  then obtain r where r: "read_request [] pending turns = Some r"
    using assms by (auto simp: HandleControlClient_def bind_eq_Some_conv)
  note read = read_request_result [OF r]
  show ?thesis
  proof (cases r)
    case (Inl text1)
    then show ?thesis using assms True r read by (simp add: HandleControlClient_def)
  next
    case (Inr request)
    show ?thesis
    proof (cases "ParseCommand iteration request (Some Command_default)")
      case (Inl message)
      then show ?thesis using assms True r \<open>r = Inr request\<close> response_lines(2)
        by (auto simp: HandleControlClient_def)
    next
      case parsed: (Inr command)
      then have run: "run_command g sw sw2 now command e = Some (response, e')"
        using assms True r Inr by (simp add: HandleControlClient_def)
      show ?thesis
      proof (cases "cmd_type command \<in> {kStart, kStop}")
        case True
        then have "effective_command iteration android own_uid who g pending command"
          using \<open>IsAllowedPeer android own_uid who g\<close> read Inr parsed by (auto simp: effective_command_def)
        then show ?thesis using run run_command_line by blast
      next
        case False
        then have "e' = e" using run by (cases "cmd_type command") (auto simp: run_command_def)
        then show ?thesis using run run_command_line by blast
      qed
    qed
  qed
qed

subsection \<open>What a start or a stop leaves behind\<close>

text \<open>The engine is idle: no session, no frame.\<close>

definition idle :: "Engine \<Rightarrow> bool" where
  "idle e \<longleftrightarrow> \<not> running (status e) \<and> latest_frame e = None"

lemma idle_Stop [simp]: "idle (Engine_Stop e)"
  by (simp add: idle_def Engine_Stop_def)

lemma sink_Stop: "sink_ok (sink e) \<Longrightarrow> sink_ok (sink (Engine_Stop e))"
  by (simp add: Engine_Stop_def Close_ok)

definition keeps_contract :: "(Engine \<Rightarrow> Engine) \<Rightarrow> bool" where
  "keeps_contract f \<longleftrightarrow> (\<forall>e. sink_ok (sink e) \<longrightarrow> sink_ok (sink (f e)))"

lemma failed_start:
  assumes "Engine_Start k now wx sx config e = Some (Inl message, e')" "Validate config = Inr ()" "sink_ok (sink e)"
    and "\<And>what f. sx = Some (what, f) \<Longrightarrow> keeps_contract f"
  shows "idle e' \<and> sink_ok (sink e')"
proof -
  have ok: "sink_ok (sink (Engine_Stop e))" using assms(3) by (rule sink_Stop)
  obtain r sk where o: "V4l2Sink_Open k (cfg_video_device config) (cfg_width config) (cfg_height config)
      (cfg_fps config) (of_nat kMaxFrameBytes) (sink (Engine_Stop e)) = Some (r, sk)"
    using assms(1,2) by (auto simp: Engine_Start_def Let_def bind_eq_Some_conv)
  have sk: "sink_ok sk" using Open_outcome [OF ok o] by (auto split: sum.splits)
  have "e' = Engine_Stop e\<lparr>sink := sk\<rparr> \<or> (\<exists>e1. e' = Engine_Stop e1 \<and> sink_ok (sink e1))"
    using assms(1,2,4) o sk
    by (auto simp: Engine_Start_def Let_def keeps_contract_def split: sum.splits option.splits if_splits)
  then show ?thesis using sk sink_Stop by (auto simp: idle_def Engine_Stop_def)
qed

lemma failed_start_idle:
  assumes "Engine_Start k now wx sx config e = Some (Inl message, e')" "sink_ok (sink e)"
    and "\<And>what f. sx = Some (what, f) \<Longrightarrow> keeps_contract f"
  shows "(idle e' \<or> e' = e) \<and> sink_ok (sink e')"
proof (cases "Validate config")
  case (Inl m)
  then show ?thesis using assms by (simp add: Engine_Start_def)
next
  case (Inr u)
  then show ?thesis using failed_start [OF assms(1) _ assms(2,3)] by simp
qed

lemma placeholder_valid: "Validate placeholder_config = Inr ()"
  unfolding Validate_valid
  by (auto simp: valid_config_def placeholder_config_def Config_default_def is_control_def code_def)

text \<open>The other threads keep the contract of the sink, as every reachable state of \<open>Engine_Steps\<close> does.\<close>

definition keeps_sink :: "start_world \<Rightarrow> bool" where
  "keeps_sink sw \<longleftrightarrow> list_all keeps_contract [joining sw, waited sw, leaving sw]
     \<and> (case source_failure sw of None \<Rightarrow> True | Some (what, writer_runs) \<Rightarrow> keeps_contract writer_runs)"

lemma keeps_sinkD:
  assumes "keeps_sink sw" "sink_ok (sink e)"
  shows "sink_ok (sink (joining sw e))" "sink_ok (sink (waited sw e))" "sink_ok (sink (leaving sw e))"
  using assms by (simp_all add: keeps_sink_def keeps_contract_def)

lemma keeps_sink_source: "keeps_sink sw \<Longrightarrow> source_failure sw = Some (what, f) \<Longrightarrow> keeps_contract f"
  by (simp add: keeps_sink_def)

lemma StartGlobalPlaceholder_result:
  assumes "StartGlobalPlaceholder sw e = Some (r, e')" "sink_ok (sink e)" "keeps_sink sw"
  shows "case r of Inr _ \<Rightarrow> 0 < frames_written (status e') | Inl _ \<Rightarrow> idle e'"
proof -
  obtain r1 e1 where start: "Engine_Start (start_kernel sw) (start_time sw) (writer_failure sw) (source_failure sw)
      placeholder_config (joining sw e) = Some (r1, e1)"
    using assms(1) by (auto simp: StartGlobalPlaceholder_def bind_eq_Some_conv)
  have ok: "sink_ok (sink (joining sw e))" using assms(2,3) keeps_sinkD by blast
  show ?thesis
  proof (cases r1)
    case (Inl m)
    then have "idle e1" using failed_start [OF start [unfolded Inl] placeholder_valid ok] keeps_sink_source [OF assms(3)]
      by blast
    then show ?thesis using assms(1) start Inl by (auto simp: StartGlobalPlaceholder_def)
  next
    case (Inr u)
    then have "(r, e') = (case WaitForFirstFrameWritten (waited sw e1) of
        Inr _ \<Rightarrow> (Inr (), waited sw e1) | Inl m \<Rightarrow> (Inl m, Engine_Stop (leaving sw (waited sw e1))))"
      using assms(1) start by (simp add: StartGlobalPlaceholder_def Let_def)
    then show ?thesis by (auto simp: WaitForFirstFrameWritten_def split: if_splits)
  qed
qed

lemma start_and_wait_result:
  assumes "start_and_wait sw config e = Some (r, e')"
  shows "case r of Inr _ \<Rightarrow> 0 < frames_written (status e') | Inl _ \<Rightarrow> True"
proof -
  obtain r1 e1 where "Engine_Start (start_kernel sw) (start_time sw) (writer_failure sw) (source_failure sw)
      config e = Some (r1, e1)"
    using assms by (auto simp: start_and_wait_def bind_eq_Some_conv)
  then show ?thesis using assms
    by (cases r1) (auto simp: start_and_wait_def WaitForFirstFrameWritten_def Let_def)
qed

lemma start_and_wait_sink:
  assumes "start_and_wait sw config e = Some (r, e')" "sink_ok (sink e)" "keeps_sink sw"
  shows "sink_ok (sink e')"
proof -
  obtain r1 e1 where start: "Engine_Start (start_kernel sw) (start_time sw) (writer_failure sw) (source_failure sw)
      config e = Some (r1, e1)"
    using assms(1) by (auto simp: start_and_wait_def bind_eq_Some_conv)
  show ?thesis
  proof (cases r1)
    case (Inl m)
    then have "sink_ok (sink e1)"
      using failed_start_idle [OF start [unfolded Inl] assms(2)] keeps_sink_source [OF assms(3)] by blast
    then show ?thesis using assms(1) start Inl by (simp add: start_and_wait_def)
  next
    case (Inr u)
    then have "sink_ok (sink e1)" using Engine_Start_success [of "start_kernel sw"] start assms(2) by auto
    then show ?thesis using assms(1,3) start Inr by (auto simp: start_and_wait_def Let_def dest: keeps_sinkD)
  qed
qed

lemma primed_command:
  assumes "run_command g sw sw2 now command e = Some (response, e')" "g_prime_global_camera g"
    and "cmd_type command \<in> {kStart, kStop}" "sink_ok (sink e)" "keeps_sink sw" "keeps_sink sw2"
  shows "response = StatusJson now e' @ [newline] \<and> 0 < frames_written (status e')
    \<or> (\<exists>message. response = error_response message) \<and> (idle e' \<or> 0 < frames_written (status e'))"
proof (cases "cmd_type command = kStop")
  case True
  then obtain r e1 where r: "StartGlobalPlaceholder sw e = Some (r, e1)"
    using assms(1,2) by (auto simp: run_command_def bind_eq_Some_conv)
  then show ?thesis using assms(1,2) True StartGlobalPlaceholder_result [OF r assms(4,5)]
    by (cases r) (auto simp: run_command_def)
next
  case False
  then have start: "cmd_type command = kStart" using assms(3) by simp
  obtain r1 e1 where r1: "start_and_wait sw ((cmd_config command)\<lparr>cfg_ffmpeg_path := g_ffmpeg_path g\<rparr>)
      (Engine_Stop (joining sw e)) = Some (r1, e1)"
    using assms(1) start by (auto simp: run_command_def bind_eq_Some_conv)
  have "sink_ok (sink (joining sw e))" using keeps_sinkD [OF assms(5,4)] by blast
  then have ok: "sink_ok (sink e1)" using start_and_wait_sink [OF r1 _ assms(5)] sink_Stop by simp
  show ?thesis
  proof (cases r1)
    case (Inl m)
    then obtain r2 where r2: "StartGlobalPlaceholder sw2 e1 = Some (r2, e')" and "response = error_response m"
      using assms(1,2) start r1 by (auto simp: run_command_def bind_eq_Some_conv)
    then show ?thesis using StartGlobalPlaceholder_result [OF r2 ok assms(6)] by (cases r2) auto
  next
    case (Inr u)
    then have "e' = e1 \<and> response = StatusJson now e' @ [newline]"
      using assms(1) start r1 by (auto simp: run_command_def)
    then show ?thesis using start_and_wait_result [OF r1] Inr by simp
  qed
qed

subsection \<open>Writing the response\<close>

lemma daemon_write_result:
  "daemon_write answers data sent = Some (out, rest) \<Longrightarrow> \<exists>more. out = sent @ more \<and> prefix more data"
proof (induction answers data sent rule: daemon_write.induct)
  case (1 answers sent)
  then show ?case by simp
next
  case (2 x xs sent)
  then show ?case by simp
next
  case (3 count errno answers x xs sent)
  show ?case
  proof (cases "0 < count")
    case True
    from 3(1) [OF True] 3(3) True obtain more where
      "out = (sent @ take (nat count) (x # xs)) @ more" "prefix more (drop (nat count) (x # xs))" by auto
    then show ?thesis
      by (intro exI [of _ "take (nat count) (x # xs) @ more"])
        (metis append.assoc append_take_drop_id same_prefix_prefix)
  next
    case False
    then show ?thesis using 3 by (auto split: if_splits)
  qed
qed

interpretation daemon_writer: whole_writer
  "\<lambda>answers data :: 'a list. map_option (\<lambda>(sent, rest). (length sent = length data, sent, rest)) (Daemon_WriteAll answers data)"
proof unfold_locales
  fix answers rest :: send_answers and data sent :: "'a list" and ok
  let ?all = "\<lambda>answers data. map_option (\<lambda>(sent, rest). (length sent = length data, sent, rest))
    (Daemon_WriteAll answers (data :: 'a list))"
  show p: "prefix sent data" if "?all answers data = Some (ok, sent, rest)" for ok
    using that daemon_write_result [of answers data "[]"] by (auto simp: Daemon_WriteAll_def map_option_eq_Some)
  show "sent = data" if "?all answers data = Some (True, sent, rest)"
    using p [OF that] that by (auto simp: map_option_eq_Some prefix_def)
  show "?all answers [] = Some (True, [], answers)"
    by (simp add: Daemon_WriteAll_def)
qed

text \<open>What the server hands back: for each client a part of one line of JSON, and no open connection.\<close>

lemma ControlServer_result:
  "ControlServer iteration strerror android own_uid g rounds e opened = Some (written, e', opened', logs) \<Longrightarrow>
    opened' = opened \<and> (\<forall>w \<in> set written. \<exists>response. response_line response \<and> prefix w response)"
proof (induction rounds arbitrary: e opened written logs)
  case Nil
  then show ?case by simp
next
  case (Cons a rounds)
  show ?case
  proof (cases "control_stop a \<or> control_fd a < 0")
    case True
    then show ?thesis using Cons by (auto split: if_splits)
  next
    case False
    then obtain response e1 w rest more where
      client: "HandleControlClient iteration android own_uid (control_peer a) g (fst (control_starts a))
        (snd (control_starts a)) (control_time a) (control_pending a) (control_turns a) (control_meanwhile a e)
        = Some (response, e1)" and
      w: "Daemon_WriteAll (control_sends a) response = Some (w, rest)" and
      more: "\<exists>logs. ControlServer iteration strerror android own_uid g rounds e1 opened = Some (more, e', opened', logs)"
      and written: "written = w # more"
      using Cons.prems by (auto simp: Let_def bind_eq_Some_conv)
    have "prefix w response"
      using daemon_writer.sends_prefix [where answers = "control_sends a" and data = response and sent = w and rest = rest] w by simp
    then show ?thesis using HandleControlClient_result [OF client] more Cons.IH written by auto
  qed
qed

subsection \<open>Properties\<close>

text \<open>C13. Every client gets one line of JSON and nothing else: its single line feed is its last character, whatever the
  request, the error messages and the state contain. The engine changes only when an allowed peer sends a valid START or
  STOP of at most 16 KiB.\<close>

theorem control_client_response:
  assumes "HandleControlClient iteration android own_uid who g sw sw2 now pending turns e = Some (response, e')"
  shows "(\<exists>line. response = line @ [newline] \<and> newline \<notin> set line)
    \<and> (if e' = e then True else IsAllowedPeer android own_uid who g \<and> (\<exists>request command. prefix request pending
        \<and> length request \<le> 16 * 1024 \<and> ParseCommand iteration request (Some Command_default) = Inr command
        \<and> cmd_type command \<in> {kStart, kStop} \<and> run_command g sw sw2 now command e = Some (response, e')))"
  using HandleControlClient_result [OF assms]
  by (auto simp: response_line_def one_line_def effective_command_def kMaxCommandBytes_def)

definition sample_start :: start_world where
  "sample_start = \<lparr>start_kernel = loopback_kernel, start_time = 0, writer_failure = None, source_failure = None,
     joining = id, waited = id, leaving = id\<rparr>"

lemma control_client_response_witness:
  "\<exists>line. ''{\"ok\":false,\"error\":\"permission denied\"}'' @ [newline] = line @ [newline] \<and> newline \<notin> set line"
proof -
  have "HandleControlClient id True 1000 (Some 10999) Globals_default sample_start sample_start 0 ''STOP'' [] Engine_new
      = Some (''{\"ok\":false,\"error\":\"permission denied\"}'' @ [newline], Engine_new)"
    by (simp add: HandleControlClient_def IsAllowedPeer_def Globals_default_def)
  from control_client_response [OF this] show ?thesis by blast
qed


text \<open>A START whose device cannot be opened.\<close>

definition dead_start :: start_world where
  "dead_start = sample_start\<lparr>start_kernel := loopback_kernel\<lparr>k_open := (\<lambda>_. (-1, 2))\<rparr>\<rparr>"

lemma dead_device: "V4l2Sink_Open (start_kernel dead_start) device w h f n V4l2Sink_new =
    Some (Inl (''cannot open '' @ device @ '': error''), V4l2Sink_new)"
  by (simp add: V4l2Sink_Open_def dead_start_def sample_start_def loopback_kernel_def V4l2Sink_new_def
      V4l2Sink_Close_def)

lemma sample_start_joins: "joining sample_start e = e" "joining dead_start e = e"
  by (simp_all add: dead_start_def sample_start_def)

lemma dead_placeholder: "\<exists>m e'. StartGlobalPlaceholder dead_start Engine_new = Some (Inl m, e')"
proof -
  have "sink (Engine_Stop Engine_new) = V4l2Sink_new"
    by (simp add: Engine_Stop_def Engine_new_def V4l2Sink_new_def V4l2Sink_Close_def)
  then show ?thesis
    using sample_start_joins by (simp add: StartGlobalPlaceholder_def Engine_Start_def placeholder_valid dead_device)
qed


lemma restart_local:
  "Engine_Start loopback_kernel 0 None None local_config (Engine_Stop Engine_new) = Some (Inr (), local_engine)"
proof -
  have c: "cfg_width local_config = 1280" "cfg_height local_config = 720" "cfg_fps local_config = 30"
    "cfg_url local_config = ''push://local''"
    by (simp_all add: local_config_def Config_default_def)
  have s: "sink (Engine_Stop (Engine_Stop Engine_new)) = V4l2Sink_new"
    by (simp add: Engine_Stop_def Engine_new_def V4l2Sink_new_def V4l2Sink_Close_def)
  show ?thesis
    unfolding Engine_Start_def local_config_valid sum.case Let_def s c loopback_device bind.bind_lunit prod.case
    by (simp add: local_engine_def label_of_url_def RuntimeStatus_default_def Engine_Stop_def)
qed

text \<open>Without priming, a START that is answered with an error can nevertheless leave a running session that holds the
  device: when the first frame is late, the handler reports the timeout and does not stop the engine.\<close>

theorem late_start_keeps_running:
  "\<exists>message e'. run_command Globals_default sample_start sample_start now
      (Command_default\<lparr>cmd_type := kStart, cmd_config := local_config\<rparr>) Engine_new
    = Some (error_response message, e') \<and> running (status e') \<and> fd (sink e') = 7"
proof -
  have config: "local_config\<lparr>cfg_ffmpeg_path := g_ffmpeg_path Globals_default\<rparr> = local_config"
    by (simp add: local_config_def Config_default_def Globals_default_def)
  have "start_and_wait sample_start local_config (Engine_Stop Engine_new) = Some
      (Inl ''V4L2 placeholder did not produce its first frame in time'', local_engine)"
    using restart_local by (simp add: start_and_wait_def sample_start_def WaitForFirstFrameWritten_def local_engine_def
        RuntimeStatus_default_def)
  then show ?thesis
    by (simp add: run_command_def config sample_start_joins) (auto simp: local_engine_def Globals_default_def)
qed

end
