(* ===== verification/Control_Steps.thy ===== *)
theory Control_Steps
  imports Engine_Shutdown Control_Client
begin

section \<open>The control socket among the engine's threads\<close>

text \<open>
  \<open>HandleControlClient\<close> does its part of a session (\<open>Start\<close>, \<open>Stop\<close>) and waits while the threads of the session do
  theirs. Here both are put together: if what the \<open>start_world\<close>s say about the threads is what they can do,
  everything a control client makes of the engine is a run of \<open>engine_step\<close>.
\<close>

subsection \<open>What the threads can do\<close>

text \<open>The threads can leave before \<open>t\<close>, having made \<open>f\<close> of the engine.\<close>

definition ends ::
  "decoder \<Rightarrow> string option \<Rightarrow> encoder \<Rightarrow> (int \<Rightarrow> string) \<Rightarrow> (Engine \<Rightarrow> Engine) \<Rightarrow> int \<Rightarrow> System \<Rightarrow> bool" where
  "ends decode reason encode strerror f t s \<longleftrightarrow> (\<exists>s'. (engine_step decode reason encode strerror)\<^sup>*\<^sup>* s s'
     \<and> engine s' = f (engine s) \<and> phase s' = Absent \<and> \<not> source_alive s' \<and> clock s' \<le> t)"

text \<open>
  A session that begins as \<open>sw\<close> says can go on as \<open>sw\<close> says: the threads can make \<open>waited\<close> of the engine, and
  then leave as the next stop has it; a writer whose source cannot be created can leave too.
\<close>

definition session_fits ::
  "decoder \<Rightarrow> string option \<Rightarrow> encoder \<Rightarrow> (int \<Rightarrow> string) \<Rightarrow> start_world \<Rightarrow> (Engine \<Rightarrow> Engine) \<Rightarrow> int \<Rightarrow> System \<Rightarrow> bool" where
  "session_fits decode reason encode strerror sw stops t s \<longleftrightarrow>
     (\<forall>s2. (engine_step decode reason encode strerror)\<^sup>*\<^sup>* s s2 \<and> phase s2 = Starting \<and> clock s2 = start_time sw \<longrightarrow>
        (\<exists>s3. (engine_step decode reason encode strerror)\<^sup>*\<^sup>* s2 s3 \<and> engine s3 = waited sw (engine s2)
           \<and> ends decode reason encode strerror (leaving sw) t s3 \<and> ends decode reason encode strerror stops t s3)
        \<and> (\<forall>what f. source_failure sw = Some (what, f) \<and> \<not> source_alive s2 \<longrightarrow>
             ends decode reason encode strerror f t s2))"

text \<open>Both sessions of a request, and the stops between them.\<close>

definition worlds_fit ::
  "decoder \<Rightarrow> string option \<Rightarrow> encoder \<Rightarrow> (int \<Rightarrow> string) \<Rightarrow> start_world \<Rightarrow> start_world \<Rightarrow> int \<Rightarrow> System \<Rightarrow> bool" where
  "worlds_fit decode reason encode strerror sw sw2 t s \<longleftrightarrow>
     ends decode reason encode strerror (joining sw) (start_time sw) s
     \<and> session_fits decode reason encode strerror sw (joining sw2) (start_time sw2) s
     \<and> session_fits decode reason encode strerror sw2 (leaving sw2) t s
     \<and> start_time sw \<le> start_time sw2
     \<and> (\<forall>s2. (engine_step decode reason encode strerror)\<^sup>*\<^sup>* s s2 \<and> phase s2 = Absent \<and> \<not> source_alive s2
          \<and> clock s2 \<le> start_time sw2 \<longrightarrow> ends decode reason encode strerror (joining sw2) (start_time sw2) s2)"

lemma endsD:
  assumes "ends decode reason encode strerror f t s"
  obtains s' where "(engine_step decode reason encode strerror)\<^sup>*\<^sup>* s s'" "engine s' = f (engine s)" "phase s' = Absent"
    "\<not> source_alive s'" "clock s' = t"
proof -
  obtain s1 where s1: "(engine_step decode reason encode strerror)\<^sup>*\<^sup>* s s1" "engine s1 = f (engine s)"
    "phase s1 = Absent" "\<not> source_alive s1" "clock s1 \<le> t"
    using assms unfolding ends_def by blast
  from s1(5) have "engine_step decode reason encode strerror s1 (s1\<lparr>clock := t\<rparr>)" by (rule time_passes)
  with s1(1) have "(engine_step decode reason encode strerror)\<^sup>*\<^sup>* s (s1\<lparr>clock := t\<rparr>)"
    by (rule rtranclp.rtrancl_into_rtrancl)
  then show thesis by (rule that) (use s1 in simp_all)
qed

lemma session_fits_later:
  "session_fits decode reason encode strerror sw stops t s \<Longrightarrow> (engine_step decode reason encode strerror)\<^sup>*\<^sup>* s s' \<Longrightarrow>
    session_fits decode reason encode strerror sw stops t s'"
  unfolding session_fits_def by (meson rtranclp_trans)

lemma session_fitsD:
  assumes "session_fits decode reason encode strerror sw stops t s" "(engine_step decode reason encode strerror)\<^sup>*\<^sup>* s s2"
    and "phase s2 = Starting" "clock s2 = start_time sw"
  obtains s3 where "(engine_step decode reason encode strerror)\<^sup>*\<^sup>* s2 s3" "engine s3 = waited sw (engine s2)"
    "ends decode reason encode strerror (leaving sw) t s3" "ends decode reason encode strerror stops t s3"
  using assms unfolding session_fits_def by blast

lemma stop_step:
  assumes "ends decode reason encode strerror f t s"
  obtains s' where "(engine_step decode reason encode strerror)\<^sup>*\<^sup>* s s'" "engine s' = Engine_Stop (f (engine s))"
    "phase s' = Absent" "\<not> source_alive s'" "clock s' = t"
proof -
  obtain s1 where s1: "(engine_step decode reason encode strerror)\<^sup>*\<^sup>* s s1" "engine s1 = f (engine s)"
    "phase s1 = Absent" "\<not> source_alive s1" "clock s1 = t"
    using assms by (rule endsD)
  from s1(3,4) have "engine_step decode reason encode strerror s1 (s1\<lparr>engine := Engine_Stop (engine s1)\<rparr>)"
    by (rule stop_finishes)
  with s1(1) have "(engine_step decode reason encode strerror)\<^sup>*\<^sup>* s (s1\<lparr>engine := Engine_Stop (engine s1)\<rparr>)"
    by (rule rtranclp.rtrancl_into_rtrancl)
  then show thesis by (rule that) (use s1 in simp_all)
qed

subsection \<open>Starting a session\<close>

lemma Engine_Start_failure_cases:
  assumes "Engine_Start k now wx sx config e = Some (Inl message, e')"
  obtains "e' = e"
  | "Validate config = Inr ()" "Engine_Start k now wx None config e = Some (Inl message, e')"
  | what f e1 where "sx = Some (what, f)" "Engine_Start k now None None config e = Some (Inr (), e1)" "source_thread e1"
      "e' = Engine_Stop (f (e1\<lparr>source_thread := False\<rparr>))"
proof (cases "Validate config")
  case (Inl m)
  then show ?thesis using assms that(1) by (simp add: Engine_Start_def)
next
  case valid: (Inr u)
  define e0 where "e0 = Engine_Stop e"
  have idle: "source_thread e0 = False" by (simp add: e0_def Engine_Stop_def)
  obtain r sk where o: "V4l2Sink_Open k (cfg_video_device config) (cfg_width config) (cfg_height config)
      (cfg_fps config) (of_nat kMaxFrameBytes) (sink e0) = Some (r, sk)"
    using assms valid by (auto simp: Engine_Start_def Let_def bind_eq_Some_conv e0_def)
  have same: "Validate config = Inr ()" using valid by simp
  show ?thesis
  proof (cases "sx = None \<or> wx \<noteq> None \<or> (\<exists>m. r = Inl m)")
    case True
    then have "Engine_Start k now wx None config e = Some (Inl message, e')"
      using assms valid o by (cases r; cases wx; cases sx) (auto simp: Engine_Start_def Let_def e0_def split: if_splits)
    then show ?thesis using that(2) same by blast
  next
    case False
    then obtain what f where sx: "sx = Some (what, f)" "wx = None" "r = Inr ()" by (cases r) auto
    obtain e1 where e1: "e' = Engine_Stop (f e1)" "source_thread e1 = False"
      "Engine_Start k now None None config e = Some (Inr (), e1\<lparr>source_thread := True\<rparr>)"
      using assms valid o sx idle by (auto simp: Engine_Start_def Let_def simp flip: e0_def split: if_splits)
    then have "e1\<lparr>source_thread := False\<rparr> = e1" by (cases e1) simp
    then show ?thesis using that(3) [OF sx(1) e1(3)] e1(1) by simp
  qed
qed

text \<open>\<open>Start\<close> as a run, when nothing of the last session is left.\<close>

lemma start_steps:
  assumes "Engine_Start (start_kernel sw) (start_time sw) (writer_failure sw) (source_failure sw) config (engine s) = Some (r, e')"
    and at: "phase s = Absent" "\<not> source_alive s" "clock s = start_time sw"
    and fits: "session_fits decode reason encode strerror sw stops t s" and "start_time sw \<le> t"
  shows "\<exists>s'. (engine_step decode reason encode strerror)\<^sup>*\<^sup>* s s' \<and> engine s' = e'
    \<and> (case r of Inr _ \<Rightarrow> phase s' = Starting \<and> clock s' = start_time sw
       | Inl _ \<Rightarrow> phase s' = Absent \<and> \<not> source_alive s' \<and> clock s' \<le> t)"
proof (cases r)
  case (Inr u)
  then have "engine_step decode reason encode strerror s (start_step e' s)"
    using assms(1) at by (auto intro: start_succeeds)
  then show ?thesis using Inr at(3) by (intro exI [of _ "start_step e' s"]) (simp add: start_step_def r_into_rtranclp)
next
  case (Inl message)
  from assms(1) [unfolded Inl] show ?thesis
  proof (cases rule: Engine_Start_failure_cases)
    case 1
    then show ?thesis using at Inl assms(6) by (intro exI [of _ s]) simp
  next
    case 2
    define s' where "s' = failed_start_step (\<exists>sk. V4l2Sink_Open (start_kernel sw) (cfg_video_device config)
        (cfg_width config) (cfg_height config) (cfg_fps config) (of_nat kMaxFrameBytes)
        (sink (Engine_Stop (engine s))) = Some (Inr (), sk)) e' s"
    then have "engine_step decode reason encode strerror s s'" using 2 at by (auto intro: start_fails)
    then show ?thesis using at Inl assms(6) by (intro exI [of _ s']) (auto simp: s'_def failed_start_step_def)
  next
    case (3 what f e1)
    let ?s = "start_step (e1\<lparr>source_thread := False\<rparr>) s"
    have begun: "engine_step decode reason encode strerror s ?s" using 3(2,3) at by (auto intro: source_not_created)
    have "phase ?s = Starting" "clock ?s = start_time sw" "\<not> source_alive ?s" using at by (simp_all add: start_step_def)
    then have "ends decode reason encode strerror f t ?s"
      using fits begun 3(1) unfolding session_fits_def by blast
    then obtain s' where "(engine_step decode reason encode strerror)\<^sup>*\<^sup>* ?s s'" "engine s' = Engine_Stop (f (engine ?s))"
      "phase s' = Absent" "\<not> source_alive s'" "clock s' = t"
      by (rule stop_step)
    then show ?thesis using begun 3(4) Inl
      by (intro exI [of _ s']) (auto simp: start_step_def intro: converse_rtranclp_into_rtranclp)
  qed
qed

text \<open>\<open>Start\<close> and the wait behind it; a session that is not wanted can be stopped.\<close>

lemma start_and_wait_steps:
  assumes "start_and_wait sw config (engine s) = Some (r, e')"
    and at: "phase s = Absent" "\<not> source_alive s" "clock s = start_time sw"
    and fits: "session_fits decode reason encode strerror sw stops t s" and "start_time sw \<le> t"
    and idle: "\<And>s2. (engine_step decode reason encode strerror)\<^sup>*\<^sup>* s s2 \<Longrightarrow> phase s2 = Absent \<Longrightarrow> \<not> source_alive s2 \<Longrightarrow>
      clock s2 \<le> t \<Longrightarrow> ends decode reason encode strerror stops t s2"
  shows "\<exists>s'. (engine_step decode reason encode strerror)\<^sup>*\<^sup>* s s' \<and> engine s' = e'
    \<and> ends decode reason encode strerror stops t s'"
proof -
  let ?steps = "(engine_step decode reason encode strerror)\<^sup>*\<^sup>*"
  obtain r1 e1 where start: "Engine_Start (start_kernel sw) (start_time sw) (writer_failure sw) (source_failure sw)
      config (engine s) = Some (r1, e1)"
    using assms(1) by (auto simp: start_and_wait_def bind_eq_Some_conv)
  from start_steps [OF start at fits assms(6)] obtain s1 where s1: "?steps s s1" "engine s1 = e1"
    "case r1 of Inr _ \<Rightarrow> phase s1 = Starting \<and> clock s1 = start_time sw
       | Inl _ \<Rightarrow> phase s1 = Absent \<and> \<not> source_alive s1 \<and> clock s1 \<le> t"
    by blast
  show ?thesis
  proof (cases r1)
    case (Inl message)
    then show ?thesis using assms(1) start s1 idle [OF s1(1)] by (auto simp: start_and_wait_def)
  next
    case (Inr u)
    with s1(3) have "phase s1 = Starting" "clock s1 = start_time sw" by simp_all
    with fits s1(1) obtain s3 where "?steps s1 s3" "engine s3 = waited sw (engine s1)"
      "ends decode reason encode strerror stops t s3"
      by (rule session_fitsD)
    then show ?thesis using assms(1) start s1(1,2) Inr
      by (intro exI [of _ s3]) (auto simp: start_and_wait_def Let_def)
  qed
qed

lemma placeholder_steps:
  assumes "StartGlobalPlaceholder sw (engine s) = Some (r, e')"
    and joins: "ends decode reason encode strerror (joining sw) (start_time sw) s"
    and fits: "session_fits decode reason encode strerror sw stops t s" and "start_time sw \<le> t"
  shows "\<exists>s'. (engine_step decode reason encode strerror)\<^sup>*\<^sup>* s s' \<and> engine s' = e'"
proof -
  let ?steps = "(engine_step decode reason encode strerror)\<^sup>*\<^sup>*"
  obtain s0 where s0: "?steps s s0" "engine s0 = joining sw (engine s)" "phase s0 = Absent" "\<not> source_alive s0"
    "clock s0 = start_time sw"
    using joins by (rule endsD)
  obtain r1 e1 where start: "Engine_Start (start_kernel sw) (start_time sw) (writer_failure sw) (source_failure sw)
      placeholder_config (engine s0) = Some (r1, e1)"
    using assms(1) s0(2) by (auto simp: StartGlobalPlaceholder_def bind_eq_Some_conv)
  from start_steps [OF start s0(3-5) session_fits_later [OF fits s0(1)] assms(4)] obtain s1 where
    s1: "?steps s0 s1" "engine s1 = e1"
      "case r1 of Inr _ \<Rightarrow> phase s1 = Starting \<and> clock s1 = start_time sw
       | Inl _ \<Rightarrow> phase s1 = Absent \<and> \<not> source_alive s1 \<and> clock s1 \<le> t"
    by blast
  have run: "?steps s s1" using s0(1) s1(1) by (rule rtranclp_trans)
  show ?thesis
  proof (cases r1)
    case (Inl message)
    then show ?thesis using assms(1) start s0(2) s1(2) run by (auto simp: StartGlobalPlaceholder_def)
  next
    case (Inr u)
    with s1(3) have "phase s1 = Starting" "clock s1 = start_time sw" by simp_all
    with fits run obtain s3 where s3: "?steps s1 s3" "engine s3 = waited sw (engine s1)"
      "ends decode reason encode strerror (leaving sw) t s3"
      by (rule session_fitsD)
    obtain s4 where s4: "?steps s3 s4" "engine s4 = Engine_Stop (leaving sw (engine s3))"
      using s3(3) by (rule stop_step)
    have "e' = engine s3 \<or> e' = engine s4"
      using assms(1) start s0(2) s1(2) s3(2) s4(2) Inr
      by (auto simp: StartGlobalPlaceholder_def Let_def split: sum.split_asm)
    moreover have "?steps s s3" using run s3(1) by (rule rtranclp_trans)
    moreover from this s4(1) have "?steps s s4" by (rule rtranclp_trans)
    ultimately show ?thesis by blast
  qed
qed

subsection \<open>The two requests\<close>

lemma stop_request_steps:
  assumes "run_command g sw sw2 now command (engine s) = Some (response, e')" "cmd_type command = kStop"
    and fit: "worlds_fit decode reason encode strerror sw sw2 t s"
  shows "\<exists>s'. (engine_step decode reason encode strerror)\<^sup>*\<^sup>* s s' \<and> engine s' = e'"
proof -
  have joins: "ends decode reason encode strerror (joining sw) (start_time sw) s"
    and first: "session_fits decode reason encode strerror sw (joining sw2) (start_time sw2) s"
    and order: "start_time sw \<le> start_time sw2"
    using fit by (simp_all add: worlds_fit_def)
  obtain s1 where "(engine_step decode reason encode strerror)\<^sup>*\<^sup>* s s1" "engine s1 = Engine_Stop (joining sw (engine s))"
    using joins by (rule stop_step)
  moreover have "e' = Engine_Stop (joining sw (engine s)) \<or> (\<exists>r. StartGlobalPlaceholder sw (engine s) = Some (r, e'))"
    using assms(1,2)
    by (fastforce simp: run_command_def Let_def bind_eq_Some_conv not_Inr_unit split: if_splits sum.splits)
  ultimately show ?thesis using placeholder_steps [OF _ joins first order] by metis
qed

lemma start_request_steps:
  assumes "run_command g sw sw2 now command (engine s) = Some (response, e')" "cmd_type command = kStart"
    and fit: "worlds_fit decode reason encode strerror sw sw2 t s" "start_time sw2 \<le> t"
  shows "\<exists>s'. (engine_step decode reason encode strerror)\<^sup>*\<^sup>* s s' \<and> engine s' = e'"
proof -
  let ?steps = "(engine_step decode reason encode strerror)\<^sup>*\<^sup>*"
  let ?ready = "ends decode reason encode strerror (joining sw2) (start_time sw2)"
  have joins: "ends decode reason encode strerror (joining sw) (start_time sw) s"
    and first: "session_fits decode reason encode strerror sw (joining sw2) (start_time sw2) s"
    and second: "session_fits decode reason encode strerror sw2 (leaving sw2) t s"
    and order: "start_time sw \<le> start_time sw2"
    using fit(1) by (simp_all add: worlds_fit_def)
  obtain s1 where s1: "?steps s s1" "engine s1 = Engine_Stop (joining sw (engine s))" "phase s1 = Absent"
    "\<not> source_alive s1" "clock s1 = start_time sw"
    using joins by (rule stop_step)
  obtain r e1 where r: "start_and_wait sw ((cmd_config command)\<lparr>cfg_ffmpeg_path := g_ffmpeg_path g\<rparr>) (engine s1) = Some (r, e1)"
    using assms(1,2) s1(2) by (auto simp: run_command_def bind_eq_Some_conv)
  then have last: "e' = e1 \<or> (\<exists>r2. StartGlobalPlaceholder sw2 e1 = Some (r2, e'))"
    using assms(1,2) s1(2) by (cases r) (auto simp: run_command_def bind_eq_Some_conv split: if_splits)
  have "?ready s2" if "?steps s1 s2" "phase s2 = Absent" "\<not> source_alive s2" "clock s2 \<le> start_time sw2" for s2
    using fit(1) rtranclp_trans [OF s1(1) that(1)] that(2-4) unfolding worlds_fit_def by blast
  from start_and_wait_steps [OF r s1(3-5) session_fits_later [OF first s1(1)] order this]
  obtain s2 where s2: "?steps s1 s2" "engine s2 = e1" "?ready s2" by blast
  have run: "?steps s s2" using s1(1) s2(1) by (rule rtranclp_trans)
  show ?thesis
    using last placeholder_steps [OF _ s2(3) session_fits_later [OF second run] fit(2)] run s2(2)
    by (metis rtranclp_trans)
qed

subsection \<open>Property\<close>

text \<open>C21. Whatever a control client makes the daemon do to the engine, with priming or without, is a run of the step relation: a
  START or STOP joins the threads of the old session, opens the new one or fails, waits for its first frame, and
  puts the placeholder up when it must; so what is proved of reachable states holds of every state the control
  handler produces.\<close>

theorem control_client_is_steps:
  assumes "HandleControlClient iteration android own_uid who g sw sw2 now unread turns (engine s) = Some (response, e')"
    and fit: "worlds_fit decode reason encode strerror sw sw2 t s" "start_time sw2 \<le> t"
  shows "\<exists>s'. (engine_step decode reason encode strerror)\<^sup>*\<^sup>* s s' \<and> engine s' = e'"
proof -
  consider "e' = engine s" | command where "cmd_type command = kStop"
      "run_command g sw sw2 now command (engine s) = Some (response, e')"
    | command where "cmd_type command = kStart" "run_command g sw sw2 now command (engine s) = Some (response, e')"
    using HandleControlClient_result [OF assms(1)] by (auto simp: effective_command_def)
  then show ?thesis
  proof cases
    case 1
    then show ?thesis by blast
  next
    case 2
    then show ?thesis using stop_request_steps fit(1) by blast
  next
    case 3
    then show ?thesis using start_request_steps fit by blast
  qed
qed

text \<open>A STOP for a daemon that primes the camera and cannot open its device; threads leave when they are asked to.\<close>

definition ask_stop :: "Engine \<Rightarrow> Engine" where
  "ask_stop e = e\<lparr>stop_requested := True\<rparr>"

definition patient_start :: start_world where
  "patient_start = dead_start\<lparr>joining := ask_stop, leaving := ask_stop\<rparr>"

lemma patient_start_simps:
  "start_kernel patient_start = start_kernel dead_start" "start_time patient_start = 0" "writer_failure patient_start = None"
  "source_failure patient_start = None" "joining patient_start = ask_stop" "waited patient_start = id"
  "leaving patient_start = ask_stop"
  by (simp_all add: patient_start_def dead_start_def sample_start_def)

lemma asked_ends:
  assumes "phase s = Absent \<and> \<not> source_alive s \<or> phase s = Starting" "clock s \<le> t"
  shows "ends decode reason encode strerror ask_stop t s"
proof -
  let ?step = "engine_step decode reason encode strerror"
  let ?s1 = "s\<lparr>engine := ask_stop (engine s)\<rparr>"
  have asked: "?step s ?s1" unfolding ask_stop_def by (rule stop_requested)
  show ?thesis
  proof (cases "phase s = Absent")
    case True
    then show ?thesis using assms asked unfolding ends_def by (intro exI [of _ ?s1]) auto
  next
    case False
    let ?s2 = "?s1\<lparr>writer := Writer_new (clock s), phase := Waiting\<rparr>"
    let ?s3 = "?s2\<lparr>phase := Absent\<rparr>"
    have "?step ?s1 (?s1\<lparr>writer := Writer_new (clock ?s1), phase := Waiting\<rparr>)"
      using assms(1) False by (intro writer_begins) simp
    moreover have "?step ?s2 ?s3" by (rule writer_leaves) (simp_all add: ask_stop_def)
    ultimately have run: "?step\<^sup>*\<^sup>* s ?s3"
      using asked by (auto intro: converse_rtranclp_into_rtranclp)
    have "?step\<^sup>*\<^sup>* s (?s3\<lparr>source_alive := False\<rparr>)"
    proof (cases "source_alive s")
      case True
      then have "?step ?s3 (?s3\<lparr>source_alive := False\<rparr>)" by (intro source_leaves) simp
      with run show ?thesis by (rule rtranclp.rtrancl_into_rtrancl)
    next
      case False
      then have "?s3\<lparr>source_alive := False\<rparr> = ?s3" by (cases s) simp
      with run show ?thesis by simp
    qed
    then show ?thesis using assms(2) unfolding ends_def
      by (intro exI [of _ "?s3\<lparr>source_alive := False\<rparr>"]) simp
  qed
qed

lemma patient_fits: "worlds_fit decode reason encode strerror patient_start patient_start 0 (System_new 0)"
  unfolding worlds_fit_def session_fits_def patient_start_simps
  using asked_ends by (auto simp: System_new_def)

lemma patient_placeholder: "\<exists>m e'. StartGlobalPlaceholder patient_start Engine_new = Some (Inl m, e')"
proof -
  have "sink (Engine_Stop (ask_stop Engine_new)) = V4l2Sink_new"
    by (simp add: ask_stop_def Engine_Stop_def Engine_new_def V4l2Sink_new_def V4l2Sink_Close_def)
  then show ?thesis
    by (simp add: StartGlobalPlaceholder_def Engine_Start_def placeholder_valid dead_device patient_start_simps)
qed

lemma control_client_is_steps_witness:
  "\<exists>s' e' response. HandleControlClient rev True 1000 (Some 0) (Globals_default\<lparr>g_prime_global_camera := True\<rparr>)
      patient_start patient_start 0 (''STOP'' @ [newline]) [Arrive 100, Arrive 100] Engine_new = Some (response, e')
    \<and> (engine_step (\<lambda>_. None) None (\<lambda>w h px q. ([], True)) (\<lambda>_. ''''))\<^sup>*\<^sup>* (System_new 0) s' \<and> engine s' = e'"
proof -
  let ?g = "Globals_default\<lparr>g_prime_global_camera := True\<rparr>"
  have parsed: "ParseCommand rev (''STOP'' @ [newline]) (Some Command_default) = Inr (Command_default\<lparr>cmd_type := kStop\<rparr>)"
    by code_simp
  obtain m e' where "StartGlobalPlaceholder patient_start Engine_new = Some (Inl m, e')"
    using patient_placeholder by blast
  with parsed have h: "HandleControlClient rev True 1000 (Some 0) ?g patient_start patient_start 0 (''STOP'' @ [newline])
      [Arrive 100, Arrive 100] (engine (System_new 0)) = Some (error_response m, e')"
    by (simp add: HandleControlClient_def IsAllowedPeer_def run_command_def kMaxCommandBytes_def Globals_default_def
        System_new_def)
  show ?thesis
    using control_client_is_steps [OF h patient_fits, of "\<lambda>_. None" None "\<lambda>w h px q. ([], True)" "\<lambda>_. ''''"] h
    by (auto simp: patient_start_simps System_new_def)
qed

end
