(* ===== verification/Daemon_Main.thy ===== *)
theory Daemon_Main
  imports Control_Client
begin

section \<open>The daemon's program\<close>

text \<open>
  \<open>SignalHandler\<close> and \<open>main\<close> of \<open>main.cpp\<close>. Between "ready" and the end the two servers and the engine's
  threads run; their effect on the engine is the argument \<open>serving\<close> (the handlers are the subject of
  \<open>Frame_Client\<close> and \<open>Control_Client\<close>), and \<open>interrupted\<close> says whether a signal arrives meanwhile.
\<close>

subsection \<open>The code\<close>

record listeners =
  stop_flag :: bool
  control_listener :: int
  frame_listener :: int
  open_sockets :: "int list"

text \<open>An exchange of a listener with -1 and the closing of what it held.\<close>

definition close_control :: "listeners \<Rightarrow> listeners" where
  "close_control l = l\<lparr>control_listener := -1, open_sockets :=
     (if 0 \<le> control_listener l then remove1 (control_listener l) (open_sockets l) else open_sockets l)\<rparr>"

definition close_frames :: "listeners \<Rightarrow> listeners" where
  "close_frames l = l\<lparr>frame_listener := -1, open_sockets :=
     (if 0 \<le> frame_listener l then remove1 (frame_listener l) (open_sockets l) else open_sockets l)\<rparr>"

definition SignalHandler :: "listeners \<Rightarrow> listeners" where
  "SignalHandler l = close_frames (close_control (l\<lparr>stop_flag := True\<rparr>))"

text \<open>The end of a run: exit status, log, open sockets, and, when it came to serving, the identity and the engine
  with which it began; \<open>final_engine\<close> is the engine behind its destructor.\<close>

record daemon_run =
  status_code :: int
  daemon_log :: "string list"
  daemon_open :: "int list"
  serving_as :: "(Globals \<times> credentials \<times> Engine) option"
  final_engine :: "Engine option"

definition daemon_failed :: "int \<Rightarrow> string list \<Rightarrow> int list \<Rightarrow> Engine option \<Rightarrow> daemon_run" where
  "daemon_failed n logs opened e = \<lparr>status_code = n, daemon_log = logs, daemon_open = opened,
     serving_as = None, final_engine = e\<rparr>"

text \<open>The part behind the listeners.\<close>

definition daemon_body ::
  "(int \<Rightarrow> string) \<Rightarrow> Globals \<Rightarrow> drop_answers \<Rightarrow> int \<Rightarrow> credentials \<Rightarrow> start_world \<Rightarrow> (Engine \<Rightarrow> Engine)
     \<Rightarrow> bool \<Rightarrow> int \<Rightarrow> int \<Rightarrow> int list \<Rightarrow> daemon_run option" where
  "daemon_body strerror g da errno c sw serving interrupted control frames opened =
     (let l = \<lparr>stop_flag = False, control_listener = control, frame_listener = frames, open_sockets = opened\<rparr>;
          (r, c) = DropRootPrivileges strerror errno g da c in
      case r of
        Inl message \<Rightarrow> Some (daemon_failed 1 [message] (remove1 control (remove1 frames opened)) None)
      | Inr _ \<Rightarrow> let
            logs = (if g_drop_to_system g
              then [''dropped root privileges to Android system uid with camera/inet groups''] else []) in do {
          (r, e) \<leftarrow> (if g_prime_global_camera g then StartGlobalPlaceholder sw Engine_new else Some (Inr (), Engine_new));
          Some (case r of
            Inl message \<Rightarrow> daemon_failed 1 (logs @ [''global V4L2 placeholder failed: '' @ message])
              (remove1 control (remove1 frames opened)) (Some (Engine_Stop e))
          | Inr _ \<Rightarrow> let
                l = (if interrupted then SignalHandler l else l);
                l = close_frames (l\<lparr>stop_flag := True\<rparr>);
                stopped = Engine_Stop (serving e);
                l = close_control l
              in \<lparr>status_code = 0, daemon_log = logs @ [''ready'', ''stopped''], daemon_open = open_sockets l,
                  serving_as = Some (g, c, e), final_engine = Some (Engine_Stop stopped)\<rparr>) })"

definition daemon_main ::
  "(int \<Rightarrow> string) \<Rightarrow> string list \<Rightarrow> listener_answers \<times> int \<Rightarrow> listener_answers \<times> int \<Rightarrow> drop_answers \<Rightarrow> int
     \<Rightarrow> credentials \<Rightarrow> start_world \<Rightarrow> (Engine \<Rightarrow> Engine) \<Rightarrow> bool \<Rightarrow> int list \<Rightarrow> daemon_run option" where
  "daemon_main strerror arguments ca fa da errno c sw serving interrupted opened =
     (case ParseArguments arguments Globals_default of
        Inl message \<Rightarrow> Some (daemon_failed 64 [message] opened None)
      | Inr g \<Rightarrow>
        (case CreateAbstractListener strerror (g_control_socket_name g) (fst ca) (snd ca) opened of
           (Inl message, opened) \<Rightarrow> Some (daemon_failed 1 [message] opened None)
         | (Inr control, opened) \<Rightarrow>
           (case CreateAbstractListener strerror (g_frame_socket_name g) (fst fa) (snd fa) opened of
              (Inl message, opened) \<Rightarrow> Some (daemon_failed 1 [message] (remove1 control opened) None)
            | (Inr frames, opened) \<Rightarrow>
                daemon_body strerror g da errno c sw serving interrupted control frames opened)))"

subsection \<open>Shutting down\<close>

text \<open>Each listener is closed once, by the handler or by \<open>main\<close>.\<close>

lemma shutdown_closes_once:
  assumes "0 \<le> control" "0 \<le> frames"
    and "l = \<lparr>stop_flag = False, control_listener = control, frame_listener = frames,
       open_sockets = frames # control # opened\<rparr>"
  shows "open_sockets (close_control (close_frames ((if interrupted then SignalHandler l else l)\<lparr>stop_flag := True\<rparr>)))
    = opened"
  using assms by (auto simp: SignalHandler_def close_control_def close_frames_def)

lemma signal_twice: "SignalHandler (SignalHandler l) = SignalHandler l"
  by (simp add: SignalHandler_def close_control_def close_frames_def)

lemma final_stop: "sink_ok (sink e) \<Longrightarrow> open_descriptors (sink (Engine_Stop e)) = [] \<and> idle (Engine_Stop e)"
  by (simp add: Engine_Stop_def idle_def)

lemma StartGlobalPlaceholder_sink:
  assumes "StartGlobalPlaceholder sw e = Some (r, e')" "sink_ok (sink e)" "keeps_sink sw"
  shows "sink_ok (sink e')"
proof -
  obtain r1 e1 where start: "Engine_Start (start_kernel sw) (start_time sw) (writer_failure sw) (source_failure sw)
      placeholder_config (joining sw e) = Some (r1, e1)"
    using assms(1) by (auto simp: StartGlobalPlaceholder_def bind_eq_Some_conv)
  have joined: "sink_ok (sink (joining sw e))" using keeps_sinkD [OF assms(3,2)] by blast
  show ?thesis
  proof (cases r1)
    case (Inl m)
    then have "sink_ok (sink e1)"
      using failed_start_idle [OF start [unfolded Inl] joined] keeps_sink_source [OF assms(3)] by blast
    then show ?thesis using assms(1) start Inl by (simp add: StartGlobalPlaceholder_def)
  next
    case (Inr u)
    then have "sink_ok (sink e1)" using Engine_Start_success [of "start_kernel sw"] start joined by auto
    then have "sink_ok (sink (waited sw e1))" using keeps_sinkD [OF assms(3)] by blast
    moreover have "e' = waited sw e1 \<or> e' = Engine_Stop (leaving sw (waited sw e1))"
      using assms(1) start Inr by (auto simp: StartGlobalPlaceholder_def Let_def split: sum.split_asm)
    ultimately show ?thesis using sink_Stop keeps_sinkD(3) [OF assms(3)] by auto
  qed
qed

lemma daemon_body_result:
  assumes "daemon_body strerror g da errno c sw serving interrupted control frames (frames # control # opened) = Some run"
    and "0 \<le> control" "0 \<le> frames" "keeps_sink sw" "\<And>e. sink_ok (sink e) \<Longrightarrow> sink_ok (sink (serving e))"
  shows "daemon_open run = opened \<and> status_code run \<in> {0, 1}
    \<and> (case serving_as run of None \<Rightarrow> status_code run \<noteq> 0
       | Some (g', c', e) \<Rightarrow> status_code run = 0 \<and> g' = g
           \<and> (g_drop_to_system g \<longrightarrow> dropped [1003, 1006, 3003] c' \<and> \<not> may_become 0 c')
           \<and> (g_prime_global_camera g \<longrightarrow> 0 < frames_written (status e)))
    \<and> (case final_engine run of None \<Rightarrow> True | Some e \<Rightarrow> open_descriptors (sink e) = [] \<and> idle e)"
proof -
  obtain r c' where drop: "DropRootPrivileges strerror errno g da c = (r, c')" by fastforce
  have new: "sink_ok (sink Engine_new)" using new_ok by (simp add: Engine_new_def)
  show ?thesis
  proof (cases r)
    case (Inl message)
    then show ?thesis using assms(1) drop by (auto simp: daemon_body_def daemon_failed_def)
  next
    case (Inr u)
    then have safe: "g_drop_to_system g \<Longrightarrow> dropped [1003, 1006, 3003] c' \<and> \<not> may_become 0 c'"
      using DropRootPrivileges_drop_daemon [OF _ drop] daemon_drop.drop_success daemon_drop.never_root_again by simp
    obtain r2 e where prime: "(if g_prime_global_camera g then StartGlobalPlaceholder sw Engine_new
        else Some (Inr (), Engine_new)) = Some (r2, e)"
      using assms(1) drop Inr unfolding daemon_body_def Let_def
      by (cases "if g_prime_global_camera g then StartGlobalPlaceholder sw Engine_new else Some (Inr (), Engine_new)")
        auto
    have ok: "sink_ok (sink e)"
      using prime StartGlobalPlaceholder_sink [of sw Engine_new r2 e] new assms(4) by (auto split: if_splits)
    show ?thesis
    proof (cases r2)
      case (Inl message)
      then have "run = daemon_failed 1 ((if g_drop_to_system g
          then [''dropped root privileges to Android system uid with camera/inet groups''] else [])
            @ [''global V4L2 placeholder failed: '' @ message]) opened (Some (Engine_Stop e))"
        using assms(1) drop \<open>r = Inr u\<close> prime by (simp add: daemon_body_def Let_def)
      then show ?thesis using final_stop [OF ok] by (simp add: daemon_failed_def)
    next
      case (Inr u2)
      note closed = shutdown_closes_once [OF assms(2,3) refl, of interrupted opened]
      have run: "run = \<lparr>status_code = 0, daemon_log = (if g_drop_to_system g
            then [''dropped root privileges to Android system uid with camera/inet groups''] else [])
            @ [''ready'', ''stopped''], daemon_open = opened, serving_as = Some (g, c', e),
          final_engine = Some (Engine_Stop (Engine_Stop (serving e)))\<rparr>"
        using assms(1) drop \<open>r = Inr u\<close> prime Inr closed by (simp add: daemon_body_def Let_def)
      have "g_prime_global_camera g \<Longrightarrow> 0 < frames_written (status e)"
        using prime Inr StartGlobalPlaceholder_result [of sw Engine_new r2 e] new assms(4) by simp
      then show ?thesis using run safe final_stop [OF sink_Stop [OF assms(5) [OF ok]]] by simp
    qed
  qed
qed

subsection \<open>Property\<close>


definition primed_start :: start_world where
  "primed_start = sample_start\<lparr>waited := (\<lambda>e. e\<lparr>status := (status e)\<lparr>frames_written := 1\<rparr>\<rparr>)\<rparr>"


end
