(* ===== verification/Camera.thy ===== *)
theory Camera
  imports Source_Loop Writer_Loop Control_Steps
begin

section \<open>The parts together\<close>

text \<open>
  What one component promises, carried through the others: the frame socket is one of the threads of
  \<open>Engine_Steps\<close>, so every property of the engine holds whatever clients send, and a frame sent into the socket
  comes out of the device.
\<close>

subsection \<open>The frame socket among the threads\<close>

text \<open>One push, at its time: the two critical sections.\<close>

lemma push_steps:
  assumes "producer_active (engine s) = Inr ()" "pushed t f" "clock s \<le> t"
  shows "(engine_step decode reason encode strerror)\<^sup>*\<^sup>* s (publish_step f (s\<lparr>clock := t\<rparr>))"
proof -
  let ?s = "s\<lparr>clock := t\<rparr>"
  let ?step = "engine_step decode reason encode strerror"
  have "?step s ?s" using assms(3) by (rule time_passes)
  moreover have "?step ?s (?s\<lparr>in_flight := f # in_flight ?s\<rparr>)"
    using assms(1,2) unfolding pushed_def
    by (elim disjE exE) (rule push_checked, simp, rule disjI1 disjI2, assumption)+
  moreover have "?step (?s\<lparr>in_flight := f # in_flight ?s\<rparr>)
      (publish_step f ((?s\<lparr>in_flight := f # in_flight ?s\<rparr>)\<lparr>in_flight := [] @ in_flight ?s\<rparr>))"
    by (rule push_published) simp
  ultimately show ?thesis by (simp add: rtranclp.rtrancl_into_rtrancl)
qed

text \<open>Only the engine, the clock and the counters of publications move.\<close>

definition published_more :: "nat \<Rightarrow> System \<Rightarrow> System \<Rightarrow> bool" where
  "published_more n s s' \<longleftrightarrow> phase s' = phase s \<and> writer s' = writer s \<and> seen (counts s') = seen (counts s)
     \<and> delivered (counts s') = delivered (counts s) \<and> published (counts s') = published (counts s) + n"

lemma publish_all_steps:
  assumes "producer_active (engine s) = Inr ()" "list_all (\<lambda>(t, f). accepts f \<and> pushed t f) fs"
    "sorted (clock s # map fst fs)"
  shows "\<exists>s'. (engine_step decode reason encode strerror)\<^sup>*\<^sup>* s s' \<and> engine s' = publish_all fs (engine s)
    \<and> clock s \<le> clock s' \<and> published_more (length fs) s s'"
  using assms
proof (induction fs arbitrary: s)
  case Nil
  then show ?case by (intro exI [of _ s]) (simp add: published_more_def)
next
  case (Cons tf fs)
  obtain t f where tf: "tf = (t, f)" by fastforce
  let ?s = "publish_step f (s\<lparr>clock := t\<rparr>)"
  have e: "engine ?s = PublishFrame t f (engine s)" "clock ?s = t" by (simp_all add: publish_step_def)
  have c: "published_more 1 s ?s" using Cons.prems(2) tf by (simp add: published_more_def publish_step_def)
  obtain s' where "(engine_step decode reason encode strerror)\<^sup>*\<^sup>* ?s s'" "engine s' = publish_all fs (engine ?s)"
    "clock ?s \<le> clock s'" "published_more (length fs) ?s s'"
    using Cons.IH [of ?s] Cons.prems tf e by auto
  moreover have "(engine_step decode reason encode strerror)\<^sup>*\<^sup>* s ?s"
    using Cons.prems tf by (intro push_steps) auto
  ultimately show ?case using c tf e Cons.prems(3) by (intro exI [of _ s']) (auto simp: published_more_def)
qed

lemma latest_after_publish_all:
  "list_all (\<lambda>(t, f). accepts f) fs \<Longrightarrow> fs \<noteq> [] \<Longrightarrow> latest_frame (publish_all fs e) = Some (snd (last fs))"
  by (induction fs arbitrary: e) (auto simp: PublishFrame_cases split: if_splits)

lemma sendable_pushed:
  assumes "sendable typed_frames f"
  shows "accepts (frame_of t f) \<and> pushed t (frame_of t f)"
proof (cases f)
  case (Jpeg_Frame jpeg)
  then have "push_frame t jpeg = Inr (frame_of t f)" using assms by (simp add: push_frame_def)
  then show ?thesis using assms Jpeg_Frame unfolding pushed_def by (auto simp: accepts_def)
next
  case (Nv21_Frame w h ts nv21)
  then have w: "0 < w" "even w" and h: "0 < h" "even h" and area: "w * h \<le> 3840 * 2160"
    and len: "length nv21 = w * h * 3 div 2"
    using assms by auto
  have "2 \<le> w" "2 \<le> h" using w h by presburger+
  then have size: "4 \<le> length nv21" "length nv21 \<le> 12441600" using len area mult_le_mono [of 2 w 2 h] by auto
  have "int w AND 1 = 0" "int h AND 1 = 0" using w h by (simp_all add: and_one_eq)
  then have "push_nv21_frame t nv21 (int w) (int h) ts = Inr (frame_of t f)"
    using w h area len size Nv21_Frame by (simp add: push_nv21_frame_def kMaxFrameBytes_def)
  then show ?thesis using size Nv21_Frame unfolding pushed_def by (auto simp: accepts_def kMaxFrameBytes_def)
qed

lemma convert_pass_through:
  assumes "ReadJpegDimensions jpeg = Some (Inr (w, h))"
    and "cfg_width config = int w" "cfg_height config = int h" "cfg_rotation config = 0" "\<not> cfg_mirror config"
  shows "convert_frame decode reason encode config (frame_of t (Jpeg_Frame jpeg)) = Some (Inr (jpeg, int w, int h))"
  using assms by (simp add: convert_frame_def passes_through_def)

subsection \<open>A START over the control socket\<close>

text \<open>Reads that deliver something and may be interrupted, more of them than there are bytes.\<close>

definition whole_request :: "arrival list \<Rightarrow> nat \<Rightarrow> bool" where
  "whole_request turns n \<longleftrightarrow> list_all (\<lambda>a. case a of Arrive k \<Rightarrow> 0 < k | ReadFailed e \<Rightarrow> e = EINTR) turns
     \<and> n < length (filter (\<lambda>a. a \<noteq> ReadFailed EINTR) turns)"

lemma read_request_whole:
  "whole_request turns (length unread) \<Longrightarrow> length (got @ unread) \<le> kMaxCommandBytes \<Longrightarrow>
    read_request got unread turns = Some (Inr (got @ unread))"
proof (induction got unread turns rule: read_request.induct)
  case (1 got unread)
  then show ?case by (simp add: whole_request_def)
next
  case (2 got unread k turns)
  let ?b = "take (min k 2048) unread"
  show ?case
  proof (cases "unread = []")
    case True
    then show ?thesis by simp
  next
    case False
    moreover have "0 < k" using 2(2) by (simp add: whole_request_def)
    ultimately have b: "?b \<noteq> []" by simp
    have fits: "\<not> kMaxCommandBytes < length (got @ ?b)" using 2(3) by simp
    have dropped: "drop (length ?b) unread = drop (min k 2048) unread" by (simp add: min_def)
    have "length (drop (min k 2048) unread) < length unread" using b by simp
    then have "whole_request turns (length (drop (min k 2048) unread))"
      using 2(2) by (auto simp: whole_request_def)
    then show ?thesis using 2(1) [OF refl b fits, unfolded dropped] 2(3) b fits dropped
      by (simp add: Let_def)
  qed
next
  case (3 got unread errno turns)
  then have "errno = EINTR" by (simp add: whole_request_def)
  then show ?case using 3 by (simp add: whole_request_def)
qed

subsection \<open>Properties\<close>

text \<open>C18. Whatever a client of the frame socket does is a run of the engine's step relation: it can be replayed, push by push,
  from every state whose clock is not ahead, so the accounting, resource and pacing properties of the engine hold
  with any clients.\<close>

theorem frame_client_is_steps:
  assumes "HandleFrameClient android own_uid who g (engine s) c = Some (e', logs)"
    and "sorted (clock s # push_times c)"
  shows "\<exists>s'. (engine_step decode reason encode strerror)\<^sup>*\<^sup>* s s' \<and> engine s' = e'
    \<and> phase s' = phase s \<and> writer s' = writer s"
proof -
  obtain fs where fs: "e' = publish_all fs (engine s)" "list_all (\<lambda>(t, f). accepts f \<and> pushed t f) fs"
    "prefix (map fst fs) (push_times c)" "producer_active (engine s) = Inr () \<or> fs = []"
    using HandleFrameClient_publishes [OF assms(1)] by metis
  show ?thesis
  proof (cases "fs = []")
    case True
    then show ?thesis using fs(1) by auto
  next
    case False
    then have active: "producer_active (engine s) = Inr ()" using fs(4) by simp
    obtain later where "push_times c = map fst fs @ later" using fs(3) by (auto simp: prefix_def)
    then have "sorted ((clock s # map fst fs) @ later)" using assms(2) by simp
    then have "sorted (clock s # map fst fs)" by (simp only: sorted_append)
    from publish_all_steps [OF active fs(2) this, of decode reason encode strerror] show ?thesis
      unfolding fs(1) published_more_def by blast
  qed
qed

text \<open>The two frames sent in pieces of three bytes.\<close>

lemma frame_client_is_steps_witness:
  "\<exists>s' e'. HandleFrameClient True 1000 (Some 0) Globals_default local_engine sample_connection = Some (e', [])
    \<and> (engine_step (\<lambda>_. None) None (\<lambda>w h px q. ([], True)) (\<lambda>_. ''''))\<^sup>*\<^sup>* local_system s' \<and> engine s' = e'"
proof -
  obtain e' where e': "HandleFrameClient True 1000 (Some 0) Globals_default (engine local_system) sample_connection =
      Some (e', [])"
    using HandleFrameClient_delivers [OF sample_client_ok] by (simp add: local_system_simps)
  moreover have "sorted (clock local_system # push_times sample_connection)"
    by (simp add: local_system_simps sample_connection_def)
  ultimately show ?thesis
    using frame_client_is_steps [OF e', of "\<lambda>_. None" None "\<lambda>w h px q. ([], True)" "\<lambda>_. ''''"]
    by (auto simp: local_system_simps)
qed


text \<open>A JPEG of the output size, which passes the writer unchanged.\<close>

definition sample_jpeg :: bytes where
  "sample_jpeg = [0xff, 0xd8] @ frame_header 0xc0 17 8 1280 720 @ replicate 10 0"

lemma sample_jpeg_size: "ReadJpegDimensions sample_jpeg = Some (Inr (1280, 720))"
proof -
  have "ReadJpegDimensions ([0xff, 0xd8] @ concat (map segment []) @ frame_header 0xc0 17 8 1280 720 @ replicate 10 0) =
      Some (Inr (1280, 720))"
    by (rule ReadJpegDimensions_frame) (simp_all add: IsStartOfFrame_def)
  then show ?thesis by (simp add: sample_jpeg_def)
qed

definition jpeg_connection :: connection where
  "jpeg_connection = \<lparr>incoming = frame_magic False @ wire_frame (Jpeg_Frame sample_jpeg),
     schedule = (False, ReadFailed EINTR) # replicate 100 (False, Arrive 5), push_times = [11]\<rparr>"


text \<open>C17. End to end: the START request of a valid configuration, sent by an allowed peer in any pieces, stops the old
  session and starts one with exactly this configuration (FFmpeg is the daemon's own); when the device opens and a
  frame is written in time, the answer is the status of the running session.\<close>

theorem start_request_starts_session:
  assumes "IsAllowedPeer android own_uid who g"
    and "valid_config config" "cfg_ffmpeg_path config = cfg_ffmpeg_path Config_default" "\<And>vs. set (iteration vs) = set vs"
    and "whole_request turns (length (start_request config))"
    and "Engine_Start (start_kernel sw) (start_time sw) (writer_failure sw) (source_failure sw)
      (config\<lparr>cfg_ffmpeg_path := g_ffmpeg_path g\<rparr>) (Engine_Stop (joining sw e)) = Some (Inr (), e1)"
    and "sink_ok (sink (joining sw e))" "0 < frames_written (status (waited sw e1))"
  shows "HandleControlClient iteration android own_uid who g sw sw2 now (start_request config) turns e =
      Some (StatusJson now (waited sw e1) @ [newline], waited sw e1)
    \<and> eng_config e1 = config\<lparr>cfg_ffmpeg_path := g_ffmpeg_path g\<rparr> \<and> running (status e1) \<and> 0 \<le> fd (sink e1)"
proof -
  have "read_request [] (start_request config) turns = Some (Inr (start_request config))"
    using read_request_whole [of turns "start_request config" "[]"] assms(5) start_request_length [OF assms(2)]
    by (simp add: kMaxCommandBytes_def)
  then show ?thesis
    using Engine_Start_success [OF assms(6)] assms(1,6-8) sink_Stop parse_start_request [OF assms(2-4)]
    by (simp add: HandleControlClient_def run_command_def start_and_wait_def WaitForFirstFrameWritten_def)
qed

text \<open>A local session, started in pieces of 1000 bytes; the first frame is written while the handler waits.\<close>

definition prompt_start :: start_world where
  "prompt_start = sample_start\<lparr>waited := (\<lambda>e. e\<lparr>status := (status e)\<lparr>frames_written := 1\<rparr>\<rparr>)\<rparr>"

lemma start_request_starts_session_witness:
  "\<exists>e'. HandleControlClient rev True 1000 (Some 0) Globals_default prompt_start prompt_start 0
      (start_request local_config) (ReadFailed EINTR # replicate 20000 (Arrive 1000)) Engine_new =
    Some (StatusJson 0 e' @ [newline], e') \<and> running (status local_engine)"
proof -
  have peer: "IsAllowedPeer True 1000 (Some 0) Globals_default" by (simp add: IsAllowedPeer_def)
  have valid: "valid_config local_config" using local_config_valid Validate_valid by blast
  have path: "cfg_ffmpeg_path local_config = cfg_ffmpeg_path Config_default" by (simp add: local_config_def)
  have config: "local_config\<lparr>cfg_ffmpeg_path := g_ffmpeg_path Globals_default\<rparr> = local_config"
    by (simp add: local_config_def Config_default_def Globals_default_def)
  have turns: "whole_request (ReadFailed EINTR # replicate 20000 (Arrive 1000)) (length (start_request local_config))"
    using start_request_length [OF valid] by (simp add: whole_request_def list_all_iff)
  have start: "Engine_Start (start_kernel prompt_start) (start_time prompt_start) (writer_failure prompt_start)
      (source_failure prompt_start) (local_config\<lparr>cfg_ffmpeg_path := g_ffmpeg_path Globals_default\<rparr>)
      (Engine_Stop (joining prompt_start Engine_new)) = Some (Inr (), local_engine)"
    unfolding config using restart_local by (simp add: prompt_start_def sample_start_def)
  have "sink_ok (sink (joining prompt_start Engine_new))" "0 < frames_written (status (waited prompt_start local_engine))"
    using new_ok by (simp_all add: Engine_new_def prompt_start_def sample_start_def)
  from start_request_starts_session [where iteration = rev, OF peer valid path _ turns start this]
  show ?thesis by auto
qed

end
