(* ===== verification/Stop_Wait.thy ===== *)
theory Stop_Wait
  imports Prelude
begin

section \<open>Waiting for a stop\<close>

text \<open>
  \<open>Engine::WaitForStop\<close> (\<open>engine.cpp\<close>) waits on the condition variable with a deadline and a predicate, while
  \<open>Stop\<close> stores the flag and notifies without holding the mutex. The loop inside \<^verbatim>\<open>wait_for\<close> is written out: test
  the predicate, block, and when the wait ends test again, or return the predicate when the deadline has passed.
  An interleaving is a list of \<open>doing\<close>s. \<open>Source_Loop\<close> uses what the wait returns.
\<close>

subsection \<open>The code\<close>

datatype wait_stage = Testing | Blocking | Sleeping | Returned bool

datatype stop_stage = Stop_Called | Flag_Stored | Waiters_Notified

record stop_wait =
  stop_flag :: bool
  stopper :: stop_stage
  waiter :: wait_stage
  wait_clock :: int
  deadline :: int

datatype doing =
    Test_Predicate | Block | Wake | Time_Out  \<comment> \<open>of the waiting thread\<close>
  | Store_Flag | Notify_All  \<comment> \<open>of the stopping thread\<close>
  | Pass nat

definition wait_called :: "int \<Rightarrow> int \<Rightarrow> stop_wait" where
  "wait_called now duration = \<lparr>stop_flag = False, stopper = Stop_Called, waiter = Testing, wait_clock = now,
     deadline = now + duration\<rparr>"

fun wait_step :: "doing \<Rightarrow> stop_wait \<Rightarrow> stop_wait option" where
  "wait_step Test_Predicate s = (if waiter s = Testing
     then Some (s\<lparr>waiter := (if stop_flag s then Returned True else Blocking)\<rparr>) else None)"
| "wait_step Block s = (if waiter s = Blocking then Some (s\<lparr>waiter := Sleeping\<rparr>) else None)"
| "wait_step Wake s = (if waiter s = Sleeping then Some (s\<lparr>waiter := Testing\<rparr>) else None)"
| "wait_step Time_Out s = (if waiter s = Sleeping \<and> deadline s \<le> wait_clock s
     then Some (s\<lparr>waiter := Returned (stop_flag s)\<rparr>) else None)"
| "wait_step Store_Flag s = (if stopper s = Stop_Called
     then Some (s\<lparr>stop_flag := True, stopper := Flag_Stored\<rparr>) else None)"
| "wait_step Notify_All s = (if stopper s = Flag_Stored
     then Some (s\<lparr>stopper := Waiters_Notified, waiter := (if waiter s = Sleeping then Testing else waiter s)\<rparr>)
     else None)"
| "wait_step (Pass n) s = Some (s\<lparr>wait_clock := wait_clock s + int n\<rparr>)"

fun wait_run :: "doing list \<Rightarrow> stop_wait \<Rightarrow> stop_wait option" where
  "wait_run [] s = Some s"
| "wait_run (d # ds) s = do { s \<leftarrow> wait_step d s; wait_run ds s }"

subsection \<open>What the wait returns, and when\<close>

definition wait_inv :: "stop_wait \<Rightarrow> bool" where
  "wait_inv s \<longleftrightarrow> (stop_flag s \<longleftrightarrow> stopper s \<noteq> Stop_Called)
     \<and> (case waiter s of Returned r \<Rightarrow> if r then stop_flag s else deadline s \<le> wait_clock s | _ \<Rightarrow> True)"

lemma wait_step_inv: "wait_step d s = Some s' \<Longrightarrow> wait_inv s \<Longrightarrow> wait_inv s' \<and> deadline s' = deadline s"
  by (cases d) (auto simp: wait_inv_def split: if_splits wait_stage.splits)

lemma wait_run_inv: "wait_run ds s = Some s' \<Longrightarrow> wait_inv s \<Longrightarrow> wait_inv s' \<and> deadline s' = deadline s"
proof (induction ds arbitrary: s)
  case Nil
  then show ?case by simp
next
  case (Cons d ds)
  then obtain s1 where "wait_step d s = Some s1" "wait_run ds s1 = Some s'" by (auto simp: bind_eq_Some_conv)
  then show ?case using Cons.IH [of s1] wait_step_inv [of d s s1] Cons.prems(2) by simp
qed

text \<open>However the threads interleave: true only behind a stop, false only at the deadline or later.\<close>

theorem WaitForStop_result:
  assumes "wait_run ds (wait_called now duration) = Some s" "waiter s = Returned r"
  shows "if r then stop_flag s else now + duration \<le> wait_clock s"
proof -
  have "wait_inv (wait_called now duration)" by (simp add: wait_inv_def wait_called_def)
  from wait_run_inv [OF assms(1) this] assms(2) show ?thesis
    by (cases r) (auto simp: wait_inv_def wait_called_def)
qed

text \<open>When the deadline has passed, at most three doings of its own end the wait, whatever happened before.\<close>

theorem WaitForStop_ends:
  assumes "deadline s \<le> wait_clock s"
  shows "\<exists>ds s' r. length ds \<le> 3 \<and> set ds \<subseteq> {Test_Predicate, Block, Time_Out} \<and> wait_run ds s = Some s'
    \<and> waiter s' = Returned r"
proof (cases "waiter s")
  case Testing
  show ?thesis
  proof (cases "stop_flag s")
    case True
    then show ?thesis using Testing
      by (intro exI [of _ "[Test_Predicate]"] exI [of _ "s\<lparr>waiter := Returned True\<rparr>"] exI [of _ True]) simp
  next
    case False
    then show ?thesis using Testing assms
      by (intro exI [of _ "[Test_Predicate, Block, Time_Out]"] exI [of _ "s\<lparr>waiter := Returned False\<rparr>"] exI [of _ False])
        simp
  qed
next
  case Blocking
  then show ?thesis using assms by (intro exI [of _ "[Block, Time_Out]"]) simp
next
  case Sleeping
  then show ?thesis using assms by (intro exI [of _ "[Time_Out]"]) simp
next
  case (Returned r)
  then show ?thesis by (intro exI [of _ "[]"]) simp
qed

text \<open>A notification that finds the thread asleep ends the wait at once.\<close>

lemma notified_sleeper_returns:
  assumes "waiter s = Sleeping" "stopper s = Flag_Stored" "stop_flag s"
  shows "\<exists>s'. wait_run [Notify_All, Test_Predicate] s = Some s' \<and> waiter s' = Returned True"
  using assms by simp

subsection \<open>The lost notification\<close>

text \<open>A sleeping thread whose notification has passed.\<close>

definition missed :: "stop_wait \<Rightarrow> bool" where
  "missed s \<longleftrightarrow> stopper s = Waiters_Notified \<and> waiter s = Sleeping"

lemma missed_step:
  assumes "wait_step d s = Some s'" "missed s" "d \<noteq> Wake" "wait_clock s' < deadline s"
  shows "missed s'"
  using assms by (cases d) (auto simp: missed_def split: if_splits)

lemma clock_step: "wait_step d s = Some s' \<Longrightarrow> wait_clock s \<le> wait_clock s'"
  by (cases d) (auto split: if_splits)

lemma clock_run: "wait_run ds s = Some s' \<Longrightarrow> wait_clock s \<le> wait_clock s'"
proof (induction ds arbitrary: s)
  case Nil
  then show ?case by simp
next
  case (Cons d ds)
  then obtain s1 where "wait_step d s = Some s1" "wait_run ds s1 = Some s'" by (auto simp: bind_eq_Some_conv)
  then show ?case using Cons.IH clock_step by fastforce
qed

lemma missed_run:
  assumes "wait_run ds s = Some s'" "missed s" "wait_inv s" "Wake \<notin> set ds" "wait_clock s' < deadline s"
  shows "missed s'"
  using assms
proof (induction ds arbitrary: s)
  case Nil
  then show ?case by simp
next
  case (Cons d ds)
  then obtain s1 where s1: "wait_step d s = Some s1" "wait_run ds s1 = Some s'" by (auto simp: bind_eq_Some_conv)
  have inv: "wait_inv s1" "deadline s1 = deadline s" using wait_step_inv [OF s1(1) Cons.prems(3)] by simp_all
  have "wait_clock s1 < deadline s" using clock_run [OF s1(2)] Cons.prems(5) by simp
  then have "missed s1" using missed_step [OF s1(1) Cons.prems(2)] Cons.prems(4) by auto
  then show ?case using Cons.IH [OF s1(2)] inv Cons.prems(4,5) by simp
qed

text \<open>The flag is stored and the notification sent without the mutex, so both can fall between the test and the
  sleep; then the stop is noticed only when the deadline passes or something else wakes the thread.\<close>

theorem stop_notification_can_be_lost:
  "\<exists>s. wait_run [Test_Predicate, Store_Flag, Notify_All, Block] (wait_called now duration) = Some s
    \<and> stop_flag s \<and> wait_clock s = now
    \<and> (\<forall>ds s'. wait_run ds s = Some s' \<and> Wake \<notin> set ds \<and> wait_clock s' < now + duration \<longrightarrow> waiter s' = Sleeping)"
proof -
  define s where "s = \<lparr>stop_flag = True, stopper = Waiters_Notified, waiter = Sleeping, wait_clock = now,
     deadline = now + duration\<rparr>"
  have "wait_run [Test_Predicate, Store_Flag, Notify_All, Block] (wait_called now duration) = Some s"
    by (simp add: wait_called_def s_def)
  moreover have "missed s" "wait_inv s" "deadline s = now + duration"
    by (simp_all add: s_def missed_def wait_inv_def)
  then have "waiter s' = Sleeping" if "wait_run ds s = Some s'" "Wake \<notin> set ds" "wait_clock s' < now + duration" for ds s'
    using missed_run [of ds s s'] that by (simp add: missed_def)
  ultimately show ?thesis by (intro exI [of _ s]) (auto simp: s_def)
qed

end
