(* ===== verification/Shutdown.thy ===== *)
theory Shutdown
  imports Prelude
begin

section \<open>Shutting down with threads and signals\<close>

text \<open>
  The daemon (\<open>main.cpp\<close>) and the proxy (\<open>socket_proxy.cpp\<close>) end in the same way: two threads accept on two
  listeners, and both \<open>main\<close> and a signal handler, which may come at any moment and more than once, set the stop flag, take
  the listeners out of two atomics and close what they took. Here they run interleaved, atomic by atomic. The
  straight-line parts are lists of \<open>action\<close>s, the accept loops stages; \<open>table\<close> is the process' table of descriptors, in
  which a number can be given out again as soon as it is closed. What a server does with a connection is one stage, and
  what else the process opens and closes meanwhile (the engine its device and pipes, the proxy its connections to the daemon)
  is the occurrence \<open>Elsewhere\<close>, which may come at any moment.
\<close>

subsection \<open>The code\<close>

datatype listener = Control | Frames

datatype descriptor = Listener listener | Connection | Other_File

datatype action =
    Store listener     \<comment> \<open>the listener is stored in its atomic\<close>
  | Begin listener     \<comment> \<open>a server begins: that of the frames in a thread of its own\<close>
  | Await listener     \<comment> \<open>the control server returns, the thread of the frame server is joined\<close>
  | Flag               \<comment> \<open>the stop flag is set\<close>
  | Exchange listener  \<comment> \<open>the atomic is exchanged with -1\<close>
  | Close listener     \<comment> \<open>what the exchange gave is closed if it is not negative\<close>
  | Close_Local listener  \<comment> \<open>the listener is closed without asking the atomic\<close>
  | Stop_Engine

definition daemon_handler :: "action list" where
  "daemon_handler = [Flag, Exchange Control, Exchange Frames, Close Control, Close Frames]"

definition daemon_program :: "action list" where
  "daemon_program = [Store Control, Store Frames, Begin Frames, Begin Control, Await Control, Flag, Exchange Frames,
     Close Frames, Await Frames, Stop_Engine, Exchange Control, Close Control]"

text \<open>\<open>main\<close> when the privileges or the placeholder fail.\<close>

definition daemon_failing :: "action list" where
  "daemon_failing = [Store Control, Store Frames, Close_Local Frames, Close_Local Control]"

definition proxy_handler :: "action list" where
  "proxy_handler = [Flag, Exchange Control, Close Control, Exchange Frames, Close Frames]"

definition proxy_program :: "action list" where
  "proxy_program = [Store Control, Store Frames, Begin Frames, Begin Control, Await Control, Flag, Exchange Frames,
     Close Frames, Await Frames, Exchange Control, Close Control]"

text \<open>One of the two accept loops. \<open>In_Accept\<close>: the call has found the listener and waits; that its number is closed does
  not wake it.\<close>

datatype server_stage = Not_Begun | Loop_Head | Calling | In_Accept | Handling int | Loop_Left

record agent =
  todo :: "action list"
  taken :: "listener \<Rightarrow> int"

text \<open>The first agent is \<open>main\<close>, the others are runs of the handler. \<open>closings\<close> keeps what each \<open>close\<close> meant to close and
  what it found.\<close>

record program =
  flagged :: bool
  holds :: "listener \<Rightarrow> int"
  table :: "int \<Rightarrow> descriptor option"
  server :: "listener \<Rightarrow> server_stage"
  agents :: "agent list"
  closings :: "(descriptor \<times> descriptor option) list"

datatype server_doing = Check_Stop | Call_Accept | Accepted int | Accept_Failed bool | Finish

datatype occurrence = Signal | Act nat | Serve_Step listener server_doing | Elsewhere int

definition close_file :: "int \<Rightarrow> descriptor \<Rightarrow> program \<Rightarrow> program" where
  "close_file n meant p = p\<lparr>table := (table p)(n := None), closings := closings p @ [(meant, table p n)]\<rparr>"

fun server_step :: "(listener \<Rightarrow> int) \<Rightarrow> listener \<Rightarrow> server_doing \<Rightarrow> program \<Rightarrow> program option" where
  "server_step fds l Check_Stop p = (if server p l = Loop_Head
     then Some (p\<lparr>server := (server p)(l := if flagged p then Loop_Left else Calling)\<rparr>) else None)"
| "server_step fds l Call_Accept p = (if server p l = Calling
     then Some (p\<lparr>server := (server p)(l := if table p (fds l) = Some (Listener l) then In_Accept else Loop_Left)\<rparr>)
     else None)"
| "server_step fds l (Accepted client) p = (if server p l = In_Accept \<and> 0 \<le> client \<and> table p client = None
     then Some (p\<lparr>server := (server p)(l := Handling client), table := (table p)(client := Some Connection)\<rparr>) else None)"
| "server_step fds l (Accept_Failed interrupted) p = (if server p l = In_Accept
     then Some (p\<lparr>server := (server p)(l := if interrupted then Loop_Head else Loop_Left)\<rparr>) else None)"
| "server_step fds l Finish p = (case server p l of
     Handling client \<Rightarrow> Some (close_file client Connection (p\<lparr>server := (server p)(l := Loop_Head)\<rparr>))
   | _ \<Rightarrow> None)"

text \<open>The first action of an agent; one that waits has no step before what it waits for.\<close>

fun act :: "(listener \<Rightarrow> int) \<Rightarrow> nat \<Rightarrow> action \<Rightarrow> agent \<Rightarrow> program \<Rightarrow> program option" where
  "act fds i (Store l) a p = Some (p\<lparr>holds := (holds p)(l := fds l), agents := (agents p)[i := a]\<rparr>)"
| "act fds i (Begin l) a p =
     Some (p\<lparr>server := (server p)(l := Loop_Head), agents := (agents p)[i := a]\<rparr>)"
| "act fds i (Await l) a p =
     (if server p l = Loop_Left then Some (p\<lparr>agents := (agents p)[i := a]\<rparr>) else None)"
| "act fds i Flag a p = Some (p\<lparr>flagged := True, agents := (agents p)[i := a]\<rparr>)"
| "act fds i (Exchange l) a p = Some (p\<lparr>holds := (holds p)(l := -1),
     agents := (agents p)[i := a\<lparr>taken := (taken a)(l := holds p l)\<rparr>]\<rparr>)"
| "act fds i (Close l) a p = (let p' = p\<lparr>agents := (agents p)[i := a]\<rparr>
     in Some (if 0 \<le> taken a l then close_file (taken a l) (Listener l) p' else p'))"
| "act fds i (Close_Local l) a p = Some (close_file (fds l) (Listener l) (p\<lparr>agents := (agents p)[i := a]\<rparr>))"
| "act fds i Stop_Engine a p = Some (p\<lparr>agents := (agents p)[i := a]\<rparr>)"

definition agent_step :: "(listener \<Rightarrow> int) \<Rightarrow> nat \<Rightarrow> program \<Rightarrow> program option" where
  "agent_step fds i p = (if i < length (agents p) then
     (case todo (agents p ! i) of [] \<Rightarrow> None | x # xs \<Rightarrow> act fds i x ((agents p ! i)\<lparr>todo := xs\<rparr>) p) else None)"

definition idle_agent :: "action list \<Rightarrow> agent" where
  "idle_agent as = \<lparr>todo = as, taken = (\<lambda>_. -1)\<rparr>"

text \<open>Other code opens a file under a free number, or closes one of its own.\<close>

definition elsewhere :: "int \<Rightarrow> program \<Rightarrow> program option" where
  "elsewhere n p = (case table p n of
     None \<Rightarrow> if 0 \<le> n then Some (p\<lparr>table := (table p)(n := Some Other_File)\<rparr>) else None
   | Some Other_File \<Rightarrow> Some (p\<lparr>table := (table p)(n := None)\<rparr>)
   | _ \<Rightarrow> None)"

fun step :: "action list \<Rightarrow> (listener \<Rightarrow> int) \<Rightarrow> occurrence \<Rightarrow> program \<Rightarrow> program option" where
  "step handler fds Signal p = Some (p\<lparr>agents := agents p @ [idle_agent handler]\<rparr>)"
| "step handler fds (Act i) p = agent_step fds i p"
| "step handler fds (Serve_Step l d) p = server_step fds l d p"
| "step handler fds (Elsewhere n) p = elsewhere n p"

fun run :: "action list \<Rightarrow> (listener \<Rightarrow> int) \<Rightarrow> occurrence list \<Rightarrow> program \<Rightarrow> program option" where
  "run handler fds [] p = Some p"
| "run handler fds (d # ds) p = do { p \<leftarrow> step handler fds d p; run handler fds ds p }"

text \<open>Behind the creation of both listeners; \<open>base\<close> is what else is open.\<close>

definition launched :: "action list \<Rightarrow> (listener \<Rightarrow> int) \<Rightarrow> (int \<Rightarrow> descriptor option) \<Rightarrow> program" where
  "launched main fds base = \<lparr>flagged = False, holds = (\<lambda>_. -1),
     table = base(fds Control := Some (Listener Control), fds Frames := Some (Listener Frames)),
     server = (\<lambda>_. Not_Begun), agents = [idle_agent main], closings = []\<rparr>"

subsection \<open>The invariant\<close>

text \<open>Programs in which what is stored is exchanged later, what is exchanged is closed later, each once.\<close>

fun orderly :: "action list \<Rightarrow> bool" where
  "orderly [] = True"
| "orderly (Store l # as) = (Exchange l \<in> set as \<and> Store l \<notin> set as \<and> orderly as)"
| "orderly (Exchange l # as) = (Close l \<in> set as \<and> Exchange l \<notin> set as \<and> Store l \<notin> set as \<and> orderly as)"
| "orderly (Close l # as) = (Close l \<notin> set as \<and> Exchange l \<notin> set as \<and> orderly as)"
| "orderly (Close_Local l # as) = False"
| "orderly (Begin l # as) = (Await l \<in> set as \<and> Begin l \<notin> set as \<and> orderly as)"
| "orderly (Await l # as) = (Begin l \<notin> set as \<and> orderly as)"
| "orderly (Flag # as) = orderly as"
| "orderly (Stop_Engine # as) = orderly as"

text \<open>A handler neither stores nor starts nor waits.\<close>

definition handler_like :: "action list \<Rightarrow> bool" where
  "handler_like as \<longleftrightarrow> orderly as \<and> (\<forall>l. Store l \<notin> set as \<and> Begin l \<notin> set as \<and> Await l \<notin> set as)"

text \<open>Who is to close a listener: the atomic, an agent that will store it or one that has taken it.\<close>

definition owes :: "listener \<Rightarrow> agent \<Rightarrow> nat" where
  "owes l a = (if Store l \<in> set (todo a) then 1 else 0)
     + (if Close l \<in> set (todo a) \<and> 0 \<le> taken a l then 1 else 0)"

definition tokens :: "program \<Rightarrow> listener \<Rightarrow> nat" where
  "tokens p l = (if 0 \<le> holds p l then 1 else 0) + sum_list (map (owes l) (agents p))"

definition closed :: "program \<Rightarrow> listener \<Rightarrow> nat" where
  "closed p l = length (filter (\<lambda>c. fst c = Listener l) (closings p))"

definition agent_ok :: "(listener \<Rightarrow> int) \<Rightarrow> agent \<Rightarrow> bool" where
  "agent_ok fds a \<longleftrightarrow> orderly (todo a)
     \<and> (\<forall>l. taken a l \<in> {-1, fds l} \<and> (Exchange l \<in> set (todo a) \<longrightarrow> taken a l = -1))"

definition main_ok :: "program \<Rightarrow> bool" where
  "main_ok p \<longleftrightarrow> (case agents p of [] \<Rightarrow> False | m # hs \<Rightarrow>
     list_all (\<lambda>h. handler_like (todo h)) hs
     \<and> (Flag \<in> set (todo m) \<or> flagged p)
     \<and> (\<forall>l. (0 \<le> holds p l \<longrightarrow> Exchange l \<in> set (todo m))
          \<and> (Await l \<in> set (todo m) \<or> server p l = Loop_Left)
          \<and> (Begin l \<in> set (todo m) \<longleftrightarrow> server p l = Not_Begun)))"

definition table_ok :: "(listener \<Rightarrow> int) \<Rightarrow> program \<Rightarrow> bool" where
  "table_ok fds p \<longleftrightarrow> list_all (\<lambda>(meant, found). found = Some meant) (closings p)
     \<and> (\<forall>l. closed p l = 0 \<longrightarrow> table p (fds l) = Some (Listener l))
     \<and> (\<forall>l c. server p l = Handling c \<longrightarrow> table p c = Some Connection)
     \<and> (\<forall>l l' c. server p l = Handling c \<and> server p l' = Handling c \<longrightarrow> l = l')
     \<and> (\<forall>n. (\<forall>l. server p l \<noteq> Handling n) \<and> (\<forall>l. n = fds l \<longrightarrow> closed p l \<noteq> 0) \<longrightarrow> table p n \<in> {None, Some Other_File})"

definition shutdown_inv :: "(listener \<Rightarrow> int) \<Rightarrow> program \<Rightarrow> bool" where
  "shutdown_inv fds p \<longleftrightarrow> (\<forall>l. tokens p l + closed p l = 1 \<and> holds p l \<in> {-1, fds l})
     \<and> list_all (agent_ok fds) (agents p) \<and> main_ok p \<and> table_ok fds p"

text \<open>Two different descriptors, and nothing else under their numbers.\<close>

definition two_listeners :: "(listener \<Rightarrow> int) \<Rightarrow> (int \<Rightarrow> descriptor option) \<Rightarrow> bool" where
  "two_listeners fds base \<longleftrightarrow> 0 \<le> fds Control \<and> 0 \<le> fds Frames \<and> fds Control \<noteq> fds Frames
     \<and> base (fds Control) = None \<and> base (fds Frames) = None \<and> ran base \<subseteq> {Other_File}"

lemma all_listeners: "(\<forall>l. P l) \<longleftrightarrow> P Control \<and> P Frames"
  by (metis listener.exhaust)

lemma ran_singleton: "ran m \<subseteq> {x} \<longleftrightarrow> (\<forall>n. m n \<in> {None, Some x})"
proof
  assume ran: "ran m \<subseteq> {x}"
  have "m n \<in> {None, Some x}" for n using ran by (cases "m n") (auto dest: ranI [of m])
  then show "\<forall>n. m n \<in> {None, Some x}" by blast
next
  assume m: "\<forall>n. m n \<in> {None, Some x}"
  show "ran m \<subseteq> {x}"
  proof
    fix y
    assume "y \<in> ran m"
    then obtain n where "m n = Some y" by (auto simp: ran_def)
    then show "y \<in> {x}" using m by (metis insertE option.distinct(1) option.inject singletonD singletonI)
  qed
qed

lemma fds_distinct: "two_listeners fds base \<Longrightarrow> 0 \<le> fds l \<and> base (fds l) = None \<and> (fds l = fds l' \<longleftrightarrow> l = l')"
  by (cases l; cases l') (auto simp: two_listeners_def)


subsection \<open>Every step keeps the invariant\<close>

lemma orderly_tail: "orderly (x # xs) \<Longrightarrow> orderly xs"
  by (cases x) simp_all

lemma orderly_store: "orderly as \<Longrightarrow> Store l \<in> set as \<Longrightarrow> Exchange l \<in> set as"
  by (induction as rule: orderly.induct) auto

lemma orderly_begin: "orderly as \<Longrightarrow> Begin l \<in> set as \<Longrightarrow> Await l \<in> set as"
  by (induction as rule: orderly.induct) auto

lemma sum_list_update_add:
  "i < length as \<Longrightarrow> sum_list (map f (as[i := a])) + f (as ! i) = sum_list (map f as) + (f a :: nat)"
proof (induction as arbitrary: i)
  case Nil
  then show ?case by simp
next
  case (Cons x xs)
  then show ?case by (cases i) (use Cons.IH in fastforce)+
qed

lemma closed_close_file [simp]:
  "closed (close_file n meant p) l = closed p l + (if meant = Listener l then 1 else 0)"
  by (simp add: closed_def close_file_def)

lemma closed_frame [simp]:
  "closed (p\<lparr>agents := as\<rparr>) = closed p" "closed (p\<lparr>holds := h\<rparr>) = closed p" "closed (p\<lparr>flagged := b\<rparr>) = closed p"
  "closed (p\<lparr>server := sv\<rparr>) = closed p" "closed (p\<lparr>table := t\<rparr>) = closed p"
  by (simp_all add: closed_def fun_eq_iff)

lemma close_file_simps [simp]:
  "agents (close_file n meant p) = agents p" "holds (close_file n meant p) = holds p"
  "flagged (close_file n meant p) = flagged p" "server (close_file n meant p) = server p"
  "table (close_file n meant p) = (table p)(n := None)"
  "closings (close_file n meant p) = closings p @ [(meant, table p n)]"
  by (simp_all add: close_file_def)

text \<open>The servers.\<close>

lemma server_step_frame:
  assumes "server_step fds l d p = Some p'"
  shows "agents p' = agents p" "holds p' = holds p" "flagged p' = flagged p" "closed p' = closed p"
    "\<And>l'. server p' l' = Loop_Left \<or> server p l' \<noteq> Loop_Left" "\<And>l'. server p' l' = Not_Begun \<longleftrightarrow> server p l' = Not_Begun"
  using assms by (cases d; auto simp: fun_eq_iff split: if_splits server_stage.splits)+

lemma table_ok_cong:
  assumes "\<And>l c. server p' l = Handling c \<longleftrightarrow> server p l = Handling c" "table p' = table p" "closings p' = closings p"
  shows "table_ok fds p' = table_ok fds p"
proof -
  have "closed p' = closed p" using assms(3) by (simp add: closed_def fun_eq_iff)
  then show ?thesis unfolding table_ok_def assms by simp
qed

lemma server_step_table:
  assumes "server_step fds l d p = Some p'" "table_ok fds p" "two_listeners fds base"
  shows "table_ok fds p'"
proof (cases d)
  case Check_Stop
  then have "table_ok fds p' = table_ok fds p" using assms(1)
    by (intro table_ok_cong) (auto split: if_splits)
  then show ?thesis using assms(2) by simp
next
  case Call_Accept
  then have "table_ok fds p' = table_ok fds p" using assms(1)
    by (intro table_ok_cong) (auto split: if_splits)
  then show ?thesis using assms(2) by simp
next
  case (Accepted client)
  then have free: "server p l = In_Accept" "table p client = None" and p': "p' = p\<lparr>server := (server p)(l := Handling client),
      table := (table p)(client := Some Connection)\<rparr>"
    using assms(1) by (auto split: if_splits)
  then show ?thesis using assms(2) free unfolding p' table_ok_def all_listeners by (cases l) (auto split: if_splits)
next
  case (Accept_Failed interrupted)
  then have "table_ok fds p' = table_ok fds p" using assms(1)
    by (intro table_ok_cong) (auto split: if_splits)
  then show ?thesis using assms(2) by simp
next
  case Finish
  then obtain client where at: "server p l = Handling client"
    and p': "p' = close_file client Connection (p\<lparr>server := (server p)(l := Loop_Head)\<rparr>)"
    using assms(1) by (auto split: server_stage.splits)
  then have "table p client = Some Connection" using assms(2) by (auto simp: table_ok_def)
  then show ?thesis using assms(2) at unfolding p' table_ok_def all_listeners by (cases l) (auto split: if_splits)
qed

lemma server_step_inv:
  assumes "server_step fds l d p = Some p'" "shutdown_inv fds p" "two_listeners fds base"
  shows "shutdown_inv fds p'"
proof -
  note f = server_step_frame [OF assms(1)]
  have "tokens p' = tokens p" using f(1,2) by (simp add: tokens_def fun_eq_iff)
  moreover have "main_ok p \<Longrightarrow> main_ok p'"
    using f(1-3,6) f(5) by (auto simp: main_ok_def split: list.splits)
  moreover have "table_ok fds p'" using server_step_table [OF assms(1) _ assms(3)] assms(2)
    by (simp add: shutdown_inv_def)
  ultimately show ?thesis using assms(2) f(1,2,4) by (simp add: shutdown_inv_def)
qed

text \<open>What an action does to the obligations: they only change hands, or are met.\<close>

lemma owes_tail:
  assumes "agent_ok fds a" "todo a = x # xs" "x \<notin> {Store l, Exchange l, Close l}"
  shows "owes l (a\<lparr>todo := xs\<rparr>) = owes l a"
  using assms(2,3) by (auto simp: owes_def)

lemma act_tokens:
  assumes "i < length (agents p)" "todo (agents p ! i) = x # xs" "agent_ok fds (agents p ! i)"
    and "act fds i x ((agents p ! i)\<lparr>todo := xs\<rparr>) p = Some p'" "two_listeners fds base"
    and "\<forall>l. tokens p l + closed p l = 1 \<and> holds p l \<in> {-1, fds l}"
  shows "\<forall>l. tokens p' l + closed p' l = 1 \<and> holds p' l \<in> {-1, fds l}"
proof
  fix l
  let ?old = "agents p ! i"
  note all = assms(6) [rule_format, of l]
  have orderly: "orderly (x # xs)" and t: "\<And>l. taken ?old l \<in> {-1, fds l}"
      "\<And>l. Exchange l \<in> set (x # xs) \<Longrightarrow> taken ?old l = -1"
    using assms(2,3) by (auto simp: agent_ok_def)
  have pos: "0 \<le> fds l" using fds_distinct [OF assms(5)] by blast
  obtain new where agents: "agents p' = (agents p)[i := new]" and todo: "todo new = xs"
    and new: "taken new = (case x of Exchange l' \<Rightarrow> (taken ?old)(l' := holds p l') | _ \<Rightarrow> taken ?old)"
    using assms(4) by (cases x) (auto simp: Let_def split: if_splits)
  have sum: "sum_list (map (owes l) (agents p')) + owes l ?old = sum_list (map (owes l) (agents p)) + owes l new"
    unfolding agents using sum_list_update_add [OF assms(1)] .
  have rest: "tokens p' l + closed p' l = 1 \<and> holds p' l \<in> {-1, fds l}"
    if "holds p' l = holds p l" "closed p' l = closed p l" "owes l new = owes l ?old"
    using that all sum by (simp add: tokens_def)
  show "tokens p' l + closed p' l = 1 \<and> holds p' l \<in> {-1, fds l}"
  proof (cases "x \<in> {Store l, Exchange l, Close l}")
    case False
    have "owes l new = owes l ?old" using False todo new assms(2) by (cases x) (auto simp: owes_def)
    moreover have "holds p' l = holds p l \<and> closed p' l = closed p l"
      using assms(4) False orderly by (cases x) (auto simp: Let_def split: if_splits)
    ultimately show ?thesis using rest by blast
  next
    case True
    then consider "x = Store l" | "x = Exchange l" | "x = Close l" by blast
    then show ?thesis
    proof cases
      case 1
      then have "owes l ?old = 1" "owes l new = 0" "holds p' l = fds l" "closed p' l = closed p l"
        using assms(2,4) orderly t new todo by (auto simp: owes_def)
      then show ?thesis using sum all pos by (simp add: tokens_def split: if_splits)
    next
      case 2
      then have "owes l ?old = 0" "owes l new = (if 0 \<le> holds p l then 1 else 0)" "holds p' l = -1"
        "closed p' l = closed p l"
        using assms(2,4) orderly t new todo by (auto simp: owes_def)
      then show ?thesis using sum all by (simp add: tokens_def split: if_splits)
    next
      case 3
      then have "Store l \<notin> set xs" using orderly orderly_store by auto
      with 3 have "owes l ?old = (if 0 \<le> taken ?old l then 1 else 0)" "owes l new = 0" "holds p' l = holds p l"
        "closed p' l = closed p l + (if 0 \<le> taken ?old l then 1 else 0)"
        using assms(2,4) orderly t new todo by (auto simp: owes_def Let_def)
      then show ?thesis using sum all by (simp add: tokens_def split: if_splits)
    qed
  qed
qed

lemma act_agents_ok:
  assumes "i < length (agents p)" "todo (agents p ! i) = x # xs" "list_all (agent_ok fds) (agents p)"
    and "act fds i x ((agents p ! i)\<lparr>todo := xs\<rparr>) p = Some p'" "\<forall>l. holds p l \<in> {-1, fds l}"
  shows "list_all (agent_ok fds) (agents p')"
proof -
  let ?old = "agents p ! i"
  have ok: "agent_ok fds ?old" using assms(1,3) by (simp add: list_all_length)
  then have orderly: "orderly (x # xs)" "orderly xs" using assms(2) orderly_tail by (auto simp: agent_ok_def)
  obtain new where agents: "agents p' = (agents p)[i := new]" and todo: "todo new = xs"
    and new: "taken new = (case x of Exchange l' \<Rightarrow> (taken ?old)(l' := holds p l') | _ \<Rightarrow> taken ?old)"
    using assms(4) by (cases x) (auto simp: Let_def split: if_splits)
  have "agent_ok fds new"
    using ok orderly todo new assms(2,5) by (cases x) (auto simp: agent_ok_def)
  then show ?thesis using assms(1,3) unfolding agents by (auto simp: list_all_length nth_list_update)
qed

lemma act_main_ok:
  assumes "i < length (agents p)" "todo (agents p ! i) = x # xs" "list_all (agent_ok fds) (agents p)"
    and "act fds i x ((agents p ! i)\<lparr>todo := xs\<rparr>) p = Some p'" "main_ok p"
    and "\<forall>l. tokens p l + closed p l = 1 \<and> holds p l \<in> {-1, fds l}"
  shows "main_ok p'"
proof -
  obtain m hs where agents: "agents p = m # hs" using assms(5) by (auto simp: main_ok_def split: list.splits)
  have "agent_ok fds (agents p ! i)" using assms(1,3) by (simp add: list_all_length)
  then have orderly: "orderly (x # xs)" using assms(2) by (simp add: agent_ok_def)
  show ?thesis
  proof (cases i)
    case 0
    then show ?thesis using assms(2,4,5) agents orderly orderly_store orderly_begin
      by (cases x) (auto simp: main_ok_def Let_def split: if_splits, metis+)
  next
    case (Suc j)
    then have j: "j < length hs" "todo (hs ! j) = x # xs" using assms(1,2) agents by simp_all
    then have h: "handler_like (x # xs)" using assms(5) agents by (auto simp: main_ok_def list_all_length)
    then have h': "handler_like xs" using orderly_tail by (auto simp: handler_like_def)
    show ?thesis using assms(4,5) agents Suc j h h'
      by (cases x) (auto simp: main_ok_def handler_like_def list_all_length nth_list_update Let_def split: if_splits)
  qed
qed

lemma act_table_ok:
  assumes "i < length (agents p)" "todo (agents p ! i) = x # xs" "agent_ok fds (agents p ! i)"
    and "act fds i x ((agents p ! i)\<lparr>todo := xs\<rparr>) p = Some p'" "two_listeners fds base" "table_ok fds p"
    and "\<forall>l. tokens p l + closed p l = 1 \<and> holds p l \<in> {-1, fds l}" "\<forall>l. Begin l = x \<longrightarrow> server p l = Not_Begun"
  shows "table_ok fds p'"
proof (cases "\<exists>l. x = Close l \<and> 0 \<le> taken (agents p ! i) l")
  case False
  have "server p' l = Handling c \<longleftrightarrow> server p l = Handling c" for l c
    using assms(4,8) False by (cases x) (auto simp: Let_def split: if_splits)
  moreover have "table p' = table p \<and> closings p' = closings p"
    using assms(2-4) False by (cases x) (auto simp: Let_def agent_ok_def split: if_splits)
  ultimately have "table_ok fds p' = table_ok fds p" by (intro table_ok_cong) auto
  then show ?thesis using assms(6) by simp
next
  case True
  then obtain l where x: "x = Close l" "0 \<le> taken (agents p ! i) l" by blast
  have "taken (agents p ! i) l \<in> {-1, fds l}" using assms(3) unfolding agent_ok_def by blast
  then have fd: "taken (agents p ! i) l = fds l" using x(2) by auto
  have "owes l (agents p ! i) \<noteq> 0" using assms(2) x by (simp add: owes_def)
  moreover have "owes l (agents p ! i) \<le> tokens p l"
    unfolding tokens_def using assms(1) by (intro trans_le_add2 member_le_sum_list) simp_all
  ultimately have "closed p l = 0" using assms(7) [rule_format, of l] by linarith
  then have found: "table p (fds l) = Some (Listener l)" using assms(6) by (simp add: table_ok_def)
  have p': "p' = close_file (fds l) (Listener l) (p\<lparr>agents := (agents p)[i := (agents p ! i)\<lparr>todo := xs\<rparr>]\<rparr>)"
    using assms(4) x fd by (simp add: Let_def)
  show ?thesis
    using assms(6) found fds_distinct [OF assms(5), of Control Frames] fds_distinct [OF assms(5), of Frames Control]
    unfolding p' table_ok_def all_listeners by (cases l) auto
qed

lemma agent_step_inv:
  assumes "agent_step fds i p = Some p'" "shutdown_inv fds p" "two_listeners fds base"
  shows "shutdown_inv fds p'"
proof -
  obtain x xs where i: "i < length (agents p)" "todo (agents p ! i) = x # xs"
    and a: "act fds i x ((agents p ! i)\<lparr>todo := xs\<rparr>) p = Some p'"
    using assms(1) by (auto simp: agent_step_def split: if_splits list.splits)
  have inv: "\<forall>l. tokens p l + closed p l = 1 \<and> holds p l \<in> {-1, fds l}" "list_all (agent_ok fds) (agents p)"
    "main_ok p" "table_ok fds p"
    using assms(2) by (simp_all add: shutdown_inv_def)
  have ok: "agent_ok fds (agents p ! i)" using inv(2) i(1) by (simp add: list_all_length)
  have "server p l = Not_Begun" if "Begin l = x" for l
  proof -
    obtain m hs where agents: "agents p = m # hs" "list_all (\<lambda>h. handler_like (todo h)) hs"
      "Begin l \<in> set (todo m) \<longleftrightarrow> server p l = Not_Begun"
      using inv(3) by (auto simp: main_ok_def split: list.splits)
    have "i = 0"
    proof (rule ccontr)
      assume "i \<noteq> 0"
      then obtain j where "i = Suc j" by (cases i) auto
      then have "handler_like (x # xs)" using agents(1,2) i by (auto simp: list_all_length)
      then show False using that by (auto simp: handler_like_def)
    qed
    then show ?thesis using agents i(2) that by auto
  qed
  then have "table_ok fds p'" using act_table_ok [OF i ok a assms(3) inv(4,1)] by blast
  then show ?thesis
    using act_tokens [OF i ok a assms(3) inv(1)] act_agents_ok [OF i inv(2) a] act_main_ok [OF i inv(2) a inv(3,1)] inv(1)
    by (simp add: shutdown_inv_def)
qed

lemma signal_inv:
  assumes "handler_like handler" "two_listeners fds base" "shutdown_inv fds p"
  shows "shutdown_inv fds (p\<lparr>agents := agents p @ [idle_agent handler]\<rparr>)"
proof -
  let ?p = "p\<lparr>agents := agents p @ [idle_agent handler]\<rparr>"
  have "owes l (idle_agent handler) = 0" for l
    using assms(1) by (simp add: owes_def idle_agent_def handler_like_def)
  then have "tokens ?p = tokens p" by (simp add: tokens_def fun_eq_iff)
  moreover have "agent_ok fds (idle_agent handler)"
    using assms(1) by (simp add: agent_ok_def idle_agent_def handler_like_def)
  moreover have "main_ok p \<Longrightarrow> main_ok ?p"
    using assms(1) by (auto simp: main_ok_def idle_agent_def split: list.splits)
  moreover have "table_ok fds ?p = table_ok fds p" by (rule table_ok_cong) simp_all
  ultimately show ?thesis using assms(3) by (simp add: shutdown_inv_def)
qed

lemma elsewhere_inv:
  assumes "elsewhere n p = Some p'" "shutdown_inv fds p"
  shows "shutdown_inv fds p'"
proof -
  obtain f where p': "p' = p\<lparr>table := (table p)(n := f)\<rparr>" "f \<in> {None, Some Other_File}"
    and old: "table p n \<in> {None, Some Other_File}"
    using assms(1) by (auto simp: elsewhere_def split: option.splits descriptor.splits if_splits)
  have "table_ok fds p" using assms(2) by (simp add: shutdown_inv_def)
  moreover from this have "server p l \<noteq> Handling n" "closed p l = 0 \<Longrightarrow> n \<noteq> fds l" for l
    using old by (auto simp: table_ok_def)
  ultimately have "table_ok fds p'" using p'(2) unfolding p'(1) table_ok_def by auto
  moreover have "tokens p' = tokens p" "main_ok p' = main_ok p" "agents p' = agents p"
    by (simp_all add: p' tokens_def main_ok_def fun_eq_iff split: list.split)
  ultimately show ?thesis using assms(2) by (simp add: shutdown_inv_def p'(1))
qed

lemma run_inv:
  "run handler fds ds p = Some p' \<Longrightarrow> handler_like handler \<Longrightarrow> two_listeners fds base \<Longrightarrow> shutdown_inv fds p \<Longrightarrow>
    shutdown_inv fds p'"
proof (induction ds arbitrary: p)
  case Nil
  then show ?case by simp
next
  case (Cons d ds)
  then obtain p1 where p1: "step handler fds d p = Some p1" "run handler fds ds p1 = Some p'"
    by (auto simp: bind_eq_Some_conv)
  have "shutdown_inv fds p1"
    using p1(1) Cons.prems(2-4) signal_inv agent_step_inv server_step_inv elsewhere_inv by (cases d) auto
  then show ?case using Cons.IH [OF p1(2)] Cons.prems(2,3) by blast
qed

text \<open>Programs that do with each listener what they must, and nothing else.\<close>

definition main_like :: "action list \<Rightarrow> bool" where
  "main_like as \<longleftrightarrow> orderly as \<and> Flag \<in> set as \<and> (\<forall>l. Store l \<in> set as \<and> Begin l \<in> set as)"

lemma both_programs:
  "main_like daemon_program" "main_like proxy_program" "handler_like daemon_handler" "handler_like proxy_handler"
  by (auto simp: main_like_def handler_like_def daemon_program_def proxy_program_def daemon_handler_def proxy_handler_def
      all_listeners)

lemma launched_inv:
  assumes "main_like main" "two_listeners fds base"
  shows "shutdown_inv fds (launched main fds base)"
proof -
  have main: "orderly main" "Flag \<in> set main" "\<And>l. Store l \<in> set main" "\<And>l. Begin l \<in> set main"
    using assms(1) by (auto simp: main_like_def)
  have "tokens (launched main fds base) l + closed (launched main fds base) l = 1" for l
    using main(3) by (simp add: tokens_def closed_def launched_def owes_def idle_agent_def)
  moreover have "main_ok (launched main fds base)"
    using main orderly_begin by (auto simp: main_ok_def launched_def idle_agent_def)
  moreover have "table_ok fds (launched main fds base)"
    using assms(2) unfolding table_ok_def all_listeners two_listeners_def ran_singleton
    by (auto simp: launched_def closed_def)
  ultimately show ?thesis using main(1)
    by (simp add: shutdown_inv_def launched_def agent_ok_def idle_agent_def)
qed

end
