(* ===== verification/Shutdown_Runs.thy ===== *)
theory Shutdown_Runs
  imports Shutdown
begin

section \<open>How the programs end\<close>

text \<open>
  What the invariant of \<open>Shutdown\<close> gives for whole runs of the daemon and the proxy: what is closed, that they can always
  end, and where they can wait.
\<close>

subsection \<open>Both programs can always end\<close>

text \<open>\<open>main\<close> has returned and every handler that was begun has.\<close>

definition returned :: "program \<Rightarrow> bool" where
  "returned p \<longleftrightarrow> list_all (\<lambda>a. todo a = []) (agents p)"

lemma run_append: "run handler fds (ds @ ds') p = do { p \<leftarrow> run handler fds ds p; run handler fds ds' p }"
proof (induction ds arbitrary: p)
  case Nil
  then show ?case by simp
next
  case (Cons d ds)
  then show ?case by (cases "step handler fds d p") simp_all
qed

lemma leave_from_head:
  assumes "server p l = Loop_Head"
  shows "\<exists>ds p'. run handler fds ds p = Some p' \<and> server p' l = Loop_Left \<and> agents p' = agents p"
proof (cases "flagged p")
  case True
  then show ?thesis using assms by (intro exI [of _ "[Serve_Step l Check_Stop]"]) simp
next
  case running: False
  show ?thesis
  proof (cases "table p (fds l) = Some (Listener l)")
    case True
    then show ?thesis using assms running
      by (intro exI [of _ "[Serve_Step l Check_Stop, Serve_Step l Call_Accept, Serve_Step l (Accept_Failed False)]"]) simp
  next
    case False
    then show ?thesis using assms running
      by (intro exI [of _ "[Serve_Step l Check_Stop, Serve_Step l Call_Accept]"]) simp
  qed
qed

lemma server_can_leave:
  assumes "server p l \<noteq> Not_Begun"
  shows "\<exists>ds p'. run handler fds ds p = Some p' \<and> server p' l = Loop_Left \<and> agents p' = agents p"
proof (cases "server p l")
  case Not_Begun
  then show ?thesis using assms by simp
next
  case Loop_Head
  then show ?thesis by (rule leave_from_head)
next
  case Calling
  then show ?thesis
    by (cases "table p (fds l) = Some (Listener l)")
      (intro exI [of _ "[Serve_Step l Call_Accept, Serve_Step l (Accept_Failed False)]"], simp,
       intro exI [of _ "[Serve_Step l Call_Accept]"], simp)
next
  case In_Accept
  then show ?thesis by (intro exI [of _ "[Serve_Step l (Accept_Failed False)]"]) simp
next
  case (Handling client)
  then obtain p1 where p1: "run handler fds [Serve_Step l Finish] p = Some p1" "server p1 l = Loop_Head" "agents p1 = agents p"
    by simp
  obtain ds p' where "run handler fds ds p1 = Some p'" "server p' l = Loop_Left" "agents p' = agents p1"
    using leave_from_head [OF p1(2)] by blast
  then show ?thesis using p1
    by (intro exI [of _ "[Serve_Step l Finish] @ ds"] exI [of _ p']) (simp only: run_append bind.simps simp_thms)
next
  case Loop_Left
  then show ?thesis by (intro exI [of _ "[]"]) simp
qed

lemma agent_can_step:
  assumes "shutdown_inv fds p" "i < length (agents p)" "todo (agents p ! i) = x # xs"
  shows "\<exists>ds p' new. run handler fds ds p = Some p' \<and> agents p' = (agents p)[i := new] \<and> todo new = xs"
proof (cases "\<exists>l. x = Await l")
  case False
  then obtain p' new where "act fds i x ((agents p ! i)\<lparr>todo := xs\<rparr>) p = Some p'" "agents p' = (agents p)[i := new]" "todo new = xs"
    by (cases x) (auto simp: Let_def)
  then show ?thesis using assms(2,3) by (intro exI [of _ "[Act i]"]) (auto simp: agent_step_def)
next
  case True
  then obtain l where x: "x = Await l" by blast
  obtain m hs where agents: "agents p = m # hs" "list_all (\<lambda>h. handler_like (todo h)) hs"
    "Begin l \<in> set (todo m) \<longleftrightarrow> server p l = Not_Begun"
    using assms(1) by (auto simp: shutdown_inv_def main_ok_def split: list.splits)
  have "i = 0"
  proof (rule ccontr)
    assume "i \<noteq> 0"
    then obtain j where "i = Suc j" by (cases i) auto
    then have "handler_like (x # xs)" using agents(1,2) assms(2,3) by (auto simp: list_all_length)
    then show False using x by (auto simp: handler_like_def)
  qed
  moreover have "orderly (x # xs)" using assms by (auto simp: shutdown_inv_def list_all_length agent_ok_def)
  ultimately have "server p l \<noteq> Not_Begun" using agents x assms(3) by auto
  then obtain ds p1 where p1: "run handler fds ds p = Some p1" "server p1 l = Loop_Left" "agents p1 = agents p"
    using server_can_leave by blast
  let ?new = "(agents p ! i)\<lparr>todo := xs\<rparr>"
  have "agent_step fds i p1 = Some (p1\<lparr>agents := (agents p)[i := ?new]\<rparr>)"
    using p1 assms(2,3) x by (simp add: agent_step_def)
  then show ?thesis using p1(1)
    by (intro exI [of _ "ds @ [Act i]"] exI [of _ "p1\<lparr>agents := (agents p)[i := ?new]\<rparr>"] exI [of _ ?new])
      (simp add: run_append)
qed

lemma can_return:
  assumes "handler_like handler" "two_listeners fds base"
  shows "shutdown_inv fds p \<Longrightarrow> \<exists>ds p'. run handler fds ds p = Some p' \<and> returned p'"
proof (induction "sum_list (map (length \<circ> todo) (agents p))" arbitrary: p rule: less_induct)
  case less
  show ?case
  proof (cases "returned p")
    case True
    then show ?thesis by (intro exI [of _ "[]"]) simp
  next
    case False
    then obtain i where i: "i < length (agents p)" "todo (agents p ! i) \<noteq> []"
      by (auto simp: returned_def list_all_length)
    then obtain x xs where x: "todo (agents p ! i) = x # xs" by (cases "todo (agents p ! i)") auto
    from agent_can_step [OF less.prems i(1) x, where handler = handler] obtain ds p1 new where
      p1: "run handler fds ds p = Some p1" "agents p1 = (agents p)[i := new]" "todo new = xs" by blast
    have "sum_list (map (length \<circ> todo) (agents p1)) < sum_list (map (length \<circ> todo) (agents p))"
      using sum_list_update_add [OF i(1), of "length \<circ> todo" new] p1(2,3) x by simp
    moreover have "shutdown_inv fds p1" using run_inv [OF p1(1) assms less.prems] .
    ultimately obtain ds' p' where "run handler fds ds' p1 = Some p'" "returned p'" using less.hyps by blast
    then show ?thesis using p1(1) by (intro exI [of _ "ds @ ds'"] exI [of _ p']) (simp add: run_append)
  qed
qed

subsection \<open>The join that waits\<close>

text \<open>Doings in which the kernel does not answer the frame server's \<open>accept4\<close>.\<close>

fun unanswered :: "occurrence \<Rightarrow> bool" where
  "unanswered (Serve_Step Frames (Accepted client)) = False"
| "unanswered (Serve_Step Frames (Accept_Failed interrupted)) = False"
| "unanswered d = True"

definition joining_accept :: "program \<Rightarrow> bool" where
  "joining_accept p \<longleftrightarrow> server p Frames = In_Accept
     \<and> (case agents p of [] \<Rightarrow> False | m # hs \<Rightarrow> (case todo m of [] \<Rightarrow> False | x # xs \<Rightarrow> x = Await Frames))
     \<and> list_all (\<lambda>h. handler_like (todo h)) (tl (agents p))"

lemma joining_accept_step:
  assumes "step handler fds d p = Some p'" "unanswered d" "joining_accept p" "handler_like handler"
  shows "joining_accept p'"
proof -
  obtain m hs xs where agents: "agents p = m # hs" "todo m = Await Frames # xs" "server p Frames = In_Accept"
    "list_all (\<lambda>h. handler_like (todo h)) hs"
    using assms(3) by (auto simp: joining_accept_def split: list.splits)
  show ?thesis
  proof (cases d)
    case Signal
    then show ?thesis using assms(1,4) agents by (auto simp: joining_accept_def idle_agent_def)
  next
    case (Act i)
    then obtain j y ys where i: "i = Suc j" "j < length hs" "todo (hs ! j) = y # ys"
      and a: "act fds i y ((hs ! j)\<lparr>todo := ys\<rparr>) p = Some p'"
      using assms(1) agents by (cases i) (auto simp: agent_step_def split: if_splits list.splits)
    have h: "handler_like (y # ys)" using agents(4) i(2,3) by (auto simp: list_all_length)
    then have "handler_like ys" using orderly_tail by (auto simp: handler_like_def)
    then show ?thesis using a agents i h
      by (cases y) (auto simp: joining_accept_def handler_like_def list_all_length nth_list_update Let_def split: if_splits)
  next
    case (Elsewhere n)
    then show ?thesis using assms(1,3)
      by (auto simp: joining_accept_def elsewhere_def split: option.splits descriptor.splits if_splits)
  next
    case (Serve_Step l e)
    then have "agents p' = agents p" "server p' Frames = In_Accept"
      using assms(1,2) agents(3) by (cases l; cases e; auto split: if_splits server_stage.splits)+
    then show ?thesis using assms(3) by (simp add: joining_accept_def)
  qed
qed

lemma joining_accept_run:
  "run handler fds ds p = Some p' \<Longrightarrow> list_all unanswered ds \<Longrightarrow> joining_accept p \<Longrightarrow> handler_like handler \<Longrightarrow>
    joining_accept p'"
proof (induction ds arbitrary: p)
  case Nil
  then show ?case by simp
next
  case (Cons d ds)
  then obtain p1 where "step handler fds d p = Some p1" "run handler fds ds p1 = Some p'"
    by (auto simp: bind_eq_Some_conv)
  then show ?case using Cons joining_accept_step by auto
qed

lemma joining_not_returned: "joining_accept p \<Longrightarrow> \<not> returned p"
  by (auto simp: joining_accept_def returned_def split: list.splits)

text \<open>Both servers wait for clients, the signal comes, its handler runs in \<open>main\<close>'s thread; the \<open>accept4\<close> there is then
  restarted and finds the listener closed.\<close>

definition signalled :: "occurrence list" where
  "signalled = replicate 4 (Act 0)
     @ [Serve_Step Frames Check_Stop, Serve_Step Frames Call_Accept, Serve_Step Control Check_Stop, Serve_Step Control Call_Accept]
     @ Signal # replicate 5 (Act 1)
     @ Serve_Step Control (Accept_Failed False) # replicate 4 (Act 0)"

definition programs :: "(action list \<times> action list) set" where
  "programs = {(daemon_program, daemon_handler), (proxy_program, proxy_handler)}"

lemma program_likes: "(main, handler) \<in> programs \<Longrightarrow> main_like main \<and> handler_like handler"
  using both_programs by (auto simp: programs_def)

lemma signalled_run:
  assumes "(main, handler) \<in> programs" "two_listeners fds base"
  shows "\<exists>p. run handler fds signalled (launched main fds base) = Some p \<and> flagged p \<and> (\<forall>l. closed p l = 1)
    \<and> server p Control = Loop_Left \<and> joining_accept p"
  using assms
  by (auto simp: programs_def two_listeners_def signalled_def launched_def daemon_program_def daemon_handler_def
      proxy_program_def proxy_handler_def agent_step_def idle_agent_def Let_def eval_nat_numeral closed_def close_file_def
      joining_accept_def handler_like_def all_listeners)

lemma run_from_launch:
  assumes "(main, handler) \<in> programs" "two_listeners fds base" "run handler fds ds (launched main fds base) = Some p"
  shows "shutdown_inv fds p"
  using run_inv [OF assms(3)] launched_inv program_likes [OF assms(1)] assms(2) by blast

lemma returned_state:
  assumes inv: "shutdown_inv fds p" and ended: "returned p"
  shows "closed p l = 1 \<and> server p l = Loop_Left \<and> flagged p \<and> ran (table p) \<subseteq> {Other_File}"
proof -
  obtain m hs where m: "agents p = m # hs" "todo m = []"
    using inv ended by (auto simp: shutdown_inv_def main_ok_def returned_def split: list.splits)
  have ends: "flagged p" "\<And>l. holds p l < 0" "\<And>l. server p l = Loop_Left"
    using inv m by (auto simp: shutdown_inv_def main_ok_def not_le)
  have "owes l a = 0" if "a \<in> set (agents p)" for l a
    using ended that by (auto simp: returned_def list_all_iff owes_def)
  then have "tokens p l = 0" for l using ends(2) by (simp add: tokens_def not_le)
  moreover have "tokens p l + closed p l = 1" for l using inv by (simp add: shutdown_inv_def)
  ultimately have "closed p l = 1" for l by (metis add_0)
  moreover from this have "table p n \<in> {None, Some Other_File}" for n
    using inv ends(3) by (simp add: shutdown_inv_def table_ok_def)
  then have "ran (table p) \<subseteq> {Other_File}" by (simp add: ran_singleton)
  ultimately show ?thesis using ends by simp
qed

subsection \<open>Properties\<close>

text \<open>C0. However the two server threads, \<open>main\<close> and any number of signals interleave, no \<open>close\<close> of the daemon or of the
  proxy hits a descriptor that is not the one it means, though numbers are given out again at once, to connections and to
  what other code opens: each finds what it closes, and each listener is closed at most once; when \<open>main\<close> and the handlers
  have returned, each exactly once, both servers have ended, and no listener and no connection is left open.\<close>

theorem shutdown_closes_exactly:
  assumes "(main, handler) \<in> programs" "two_listeners fds base"
    and "run handler fds ds (launched main fds base) = Some p"
  shows "list_all (\<lambda>(meant, found). found = Some meant) (closings p) \<and> closed p l \<le> 1
    \<and> (if returned p then closed p l = 1 \<and> server p l = Loop_Left \<and> flagged p \<and> ran (table p) \<subseteq> {Other_File} else True)"
proof -
  have inv: "shutdown_inv fds p" using assms by (rule run_from_launch)
  then have "tokens p l + closed p l = 1" by (simp add: shutdown_inv_def)
  then have "closed p l \<le> 1" by linarith
  moreover have "list_all (\<lambda>(meant, found). found = Some meant) (closings p)"
    using inv by (simp add: shutdown_inv_def table_ok_def)
  ultimately show ?thesis using returned_state [OF inv] by simp
qed

definition sample_fds :: "listener \<Rightarrow> int" where
  "sample_fds l = (case l of Control \<Rightarrow> 3 | Frames \<Rightarrow> 4)"

definition sample_base :: "int \<Rightarrow> descriptor option" where
  "sample_base n = (if 0 \<le> n \<and> n \<le> 2 then Some Other_File else None)"

lemma sample_two_listeners: "two_listeners sample_fds sample_base"
  by (auto simp: two_listeners_def sample_fds_def sample_base_def ran_def)

lemma daemon_in_programs: "(daemon_program, daemon_handler) \<in> programs"
  by (simp add: programs_def)

text \<open>A signal while both servers wait, then the frame server's accept fails and \<open>main\<close> comes to its end.\<close>

lemma shutdown_closes_exactly_witness:
  "\<exists>p. run daemon_handler sample_fds (signalled @ Serve_Step Frames (Accept_Failed False) # replicate 4 (Act 0))
      (launched daemon_program sample_fds sample_base) = Some p \<and> closed p Frames = 1
    \<and> ran (table p) \<subseteq> {Other_File}"
proof -
  let ?ds = "signalled @ Serve_Step Frames (Accept_Failed False) # replicate 4 (Act 0)"
  have "\<exists>p. run daemon_handler sample_fds ?ds (launched daemon_program sample_fds sample_base) = Some p \<and> returned p"
    using sample_two_listeners
    by (simp add: two_listeners_def signalled_def launched_def daemon_program_def daemon_handler_def agent_step_def
        idle_agent_def Let_def eval_nat_numeral returned_def)
  then show ?thesis
    using shutdown_closes_exactly [OF daemon_in_programs sample_two_listeners, where l = Frames] by fastforce
qed

text \<open>C0. Both programs can come to their end from every state they reach, in the middle of a signal or a client too.\<close>

theorem shutdown_can_complete:
  assumes "(main, handler) \<in> programs" "two_listeners fds base"
    and "run handler fds ds (launched main fds base) = Some p"
  shows "\<exists>ds' p'. run handler fds ds' p = Some p' \<and> returned p' \<and> ran (table p') \<subseteq> {Other_File}"
proof -
  have inv: "shutdown_inv fds p" using assms by (rule run_from_launch)
  have handler: "handler_like handler" using program_likes [OF assms(1)] by simp
  from can_return [OF handler assms(2) inv] obtain ds' p' where p': "run handler fds ds' p = Some p'" "returned p'" by blast
  then have "ran (table p') \<subseteq> {Other_File}" using returned_state [OF run_inv [OF p'(1) handler assms(2) inv]] by blast
  then show ?thesis using p' by blast
qed

text \<open>C0. Closing the listener does not end an accept that waits on it: behind a signal that finds both servers waiting, \<open>main\<close> has
  left its own loop, both listeners are closed, and still the program cannot return, whatever its threads and further signals do,
  until the kernel answers the frame server's \<open>accept4\<close>.\<close>

theorem shutdown_waits_for_accept:
  assumes "(main, handler) \<in> programs" "two_listeners fds base"
  shows "\<exists>ds p. run handler fds ds (launched main fds base) = Some p \<and> flagged p \<and> (\<forall>l. closed p l = 1)
    \<and> server p Control = Loop_Left
    \<and> (\<forall>ds' p'. run handler fds ds' p = Some p' \<and> list_all unanswered ds' \<longrightarrow> \<not> returned p')"
proof -
  obtain p where p: "run handler fds signalled (launched main fds base) = Some p" "flagged p" "\<forall>l. closed p l = 1"
    "server p Control = Loop_Left" "joining_accept p"
    using signalled_run [OF assms] by blast
  have "\<not> returned p'" if "run handler fds ds' p = Some p'" "list_all unanswered ds'" for ds' p'
    using joining_accept_run [OF that p(5)] program_likes [OF assms(1)] joining_not_returned by blast
  then show ?thesis using p(1-4) by blast
qed

lemma shutdown_waits_for_accept_witness:
  "\<exists>ds p. run daemon_handler sample_fds ds (launched daemon_program sample_fds sample_base) = Some p \<and> flagged p
    \<and> closed p Control = 1 \<and> closed p Frames = 1"
  using shutdown_waits_for_accept [OF daemon_in_programs sample_two_listeners] by blast

text \<open>When the start fails behind the storing of the listeners, \<open>main\<close> closes them without asking the atomics: if a signal has
  come before, each is closed twice, and the second \<open>close\<close> finds nothing, or what has got the number meanwhile.\<close>

theorem failing_start_closes_twice:
  assumes "two_listeners fds base"
  shows "\<exists>ds p. run daemon_handler fds ds (launched daemon_failing fds base) = Some p \<and> returned p
    \<and> closings p = [(Listener Control, Some (Listener Control)), (Listener Frames, Some (Listener Frames)),
         (Listener Frames, None), (Listener Control, None)]"
proof -
  let ?ds = "[Act 0, Act 0, Signal] @ replicate 5 (Act 1) @ [Act 0, Act 0]"
  have "\<exists>p. run daemon_handler fds ?ds (launched daemon_failing fds base) = Some p \<and> returned p
    \<and> closings p = [(Listener Control, Some (Listener Control)), (Listener Frames, Some (Listener Frames)),
         (Listener Frames, None), (Listener Control, None)]"
    using assms
    by (simp add: two_listeners_def launched_def daemon_failing_def daemon_handler_def agent_step_def idle_agent_def Let_def
        eval_nat_numeral close_file_def returned_def)
  then show ?thesis by blast
qed

end
