(* ===== verification/Provider_Service.thy ===== *)
theory Provider_Service
  imports Text_Format
begin

section \<open>The camera provider service\<close>

text \<open>
  \<open>main\<close> of \<^verbatim>\<open>vcames-global-service.cpp\<close>. Binder, the HIDL transport and the camera provider are AOSP's: what their
  calls answer is an argument (\<open>provider_answers\<close>), and the calls that are made, in their order, are part of the
  result. \<open>status_ok\<close> is \<^verbatim>\<open>android::OK\<close>.
\<close>

datatype provider_call =
    InitWithDriver string
  | ConfigureRpcThreadpool nat bool
  | NewCameraProvider
  | IsInitFailed
  | RegisterAsService string
  | JoinRpcThreadpool

record provider_answers =
  provider_created :: bool
  init_failed :: bool
  register_status :: int

record provider_run =
  exit_status :: int
  provider_calls :: "provider_call list"
  provider_log :: "string list"

definition provider_main :: "int \<Rightarrow> provider_answers \<Rightarrow> provider_run" where
  "provider_main status_ok a =
     (let calls = [InitWithDriver ''/dev/vndbinder'', ConfigureRpcThreadpool 6 True, NewCameraProvider];
          calls = (if provider_created a then calls @ [IsInitFailed] else calls)
      in if \<not> provider_created a \<or> init_failed a then
           \<lparr>exit_status = 1, provider_calls = calls, provider_log = [''global provider initialization failed'']\<rparr>
         else let calls = calls @ [RegisterAsService ''legacy/0'']
         in if register_status a \<noteq> status_ok then
           \<lparr>exit_status = 2, provider_calls = calls,
            provider_log = [''legacy/0 registration failed: '' @ to_string (register_status a)]\<rparr>
         else
           \<lparr>exit_status = 3, provider_calls = calls @ [JoinRpcThreadpool],
            provider_log = [''legacy/0 registered with global camera IDs 0 and 1'']\<rparr>)"

text \<open>The service is published only when it is initialised, under one name and once, it serves only when it is
  published, and the exit status tells how far it came; there is no status 0.\<close>

theorem provider_serves_only_registered:
  "(RegisterAsService n \<in> set (provider_calls (provider_main status_ok a)) \<longleftrightarrow>
      n = ''legacy/0'' \<and> provider_created a \<and> \<not> init_failed a)
    \<and> (JoinRpcThreadpool \<in> set (provider_calls (provider_main status_ok a)) \<longleftrightarrow>
      exit_status (provider_main status_ok a) = 3)
    \<and> (exit_status (provider_main status_ok a) = 3 \<longleftrightarrow>
      provider_created a \<and> \<not> init_failed a \<and> register_status a = status_ok)
    \<and> distinct (provider_calls (provider_main status_ok a))
    \<and> exit_status (provider_main status_ok a) \<in> {1, 2, 3}"
  by (simp add: provider_main_def Let_def)

end
