(* ===== verification/Unit_Tests.thy ===== *)
theory Unit_Tests
  imports Config_Command Mjpeg_Parser Image_Transform Yuv420
begin

section \<open>The repository's own tests\<close>

text \<open>
  The C++ tests of \<^verbatim>\<open>src/daemon/tests\<close>, with the inputs and the assertions they have there, evaluated on the
  definitions of this development. What is tested of the vendored JPEG codec is left out. A \<open>Command\<close> or a
  \<open>StreamSourceSpec\<close> that a test passes to several calls is passed fresh each time: a call that succeeds overwrites it.
\<close>

subsection \<open>\<open>parser_test.cpp\<close>\<close>

definition lines_of :: "string list \<Rightarrow> string" where
  "lines_of ls = concat (map (\<lambda>l. l @ [newline]) ls)"

definition parsed :: "(options \<Rightarrow> options) \<Rightarrow> string list \<Rightarrow> Command option" where
  "parsed iteration ls =
     (case ParseCommand iteration (lines_of ls) (Some Command_default) of Inl _ \<Rightarrow> None | Inr c \<Rightarrow> Some c)"

definition TestCommand :: "(options \<Rightarrow> options) \<Rightarrow> bool" where
  "TestCommand iteration \<longleftrightarrow>
     (case parsed iteration [''START'', ''url=http://127.0.0.1:8888/live.mjpg?token=a=b'', ''video_device=/dev/video100'',
         ''width=1280'', ''height=720'', ''fps=30'', ''rotation=90'', ''mirror=1'', ''.''] of
        None \<Rightarrow> False
      | Some command \<Rightarrow> cmd_type command = kStart \<and> cfg_width (cmd_config command) = 1280
          \<and> cfg_height (cmd_config command) = 720 \<and> cfg_rotation (cmd_config command) = 90 \<and> cfg_mirror (cmd_config command))
     \<and> parsed iteration [''START'', ''width=nope'', ''.''] = None
     \<and> parsed iteration [''START'', ''width=641'', ''height=480'', ''.''] = None
     \<and> parsed iteration [''START'', ''width=1920'', ''height=1080'', ''.''] = None
     \<and> parsed iteration [''START'', ''target=front'', ''.''] = None
     \<and> parsed iteration [''START'', ''package_name=com.example.camera'', ''.''] = None
     \<and> parsed iteration [''START'', ''url=rtmp://example.test/live/key'', ''.''] \<noteq> None
     \<and> parsed iteration [''START'', ''url=srt://example.test:9000'', ''.''] \<noteq> None
     \<and> parsed iteration [''START'', ''url=file:///sdcard/video.mp4'', ''.''] = None
     \<and> parsed iteration [''UNKNOWN'', ''.''] = None
     \<and> parsed iteration [''STATUS'', ''.''] \<noteq> None"

definition TestMjpegParser :: bool where
  "TestMjpegParser \<longleftrightarrow> (let
       input = [120, 120, 0xff, 0xd8, 1, 2, 3, 0xff, 0xd9, 45, 45, 0xff, 0xd8, 4, 5, 0xff, 0xd9, 122];
       (r1, parser, f1) = MjpegParser_Append (MjpegParser_new default_max_frame_bytes) None 0;
       (r2, parser, f2) = MjpegParser_Append parser (Some input) 4;
       (r3, parser, f3) = MjpegParser_Append parser (Some (drop 4 input)) (length input - 4);
       frames = f1 @ f2 @ f3
     in r1 = Inr () \<and> r2 = Inr () \<and> r3 = Inr () \<and> length frames = 2
       \<and> hd (frames ! 0) = 0xff \<and> last (frames ! 0) = 0xd9 \<and> length (frames ! 1) = 6)"

definition TestFrameLimit :: bool where
  "TestFrameLimit \<longleftrightarrow>
     (case MjpegParser_Append (MjpegParser_new 5) (Some [0xff, 0xd8, 1, 2, 3, 4]) 6 of
        (Inl message, _) \<Rightarrow> message \<noteq> []
      | (Inr _, _) \<Rightarrow> False)"

lemma parser_test_command: "TestCommand rev"
  by code_simp

lemma parser_test_limit: "TestFrameLimit"
  by code_simp

lemma parser_test: "TestMjpegParser"
  by (simp add: TestMjpegParser_def MjpegParser_new_def MjpegParser_Append_def Let_def default_max_frame_bytes_def
      append_loop.simps [of _ "x # xs" for x xs] append_loop.simps [of _ "[]"] kSoiMarker_def eoi_marker_def)

subsection \<open>\<open>stream_source_test.cpp\<close>\<close>

definition TestSupportedTransports :: bool where
  "TestSupportedTransports \<longleftrightarrow> list_all (\<lambda>s.
       case ParseStreamSourceUrl (s @ ''://user:secret@example.test:9000/live'') (Some StreamSourceSpec_default) of
         Inl _ \<Rightarrow> False
       | Inr spec \<Rightarrow> spec_scheme spec = s \<and> spec_label spec \<noteq> [])
     [''http'', ''https'', ''rtmp'', ''rtmps'', ''rtmpe'', ''rtmpt'', ''rtmpte'', ''rtmpts'', ''rtsp'', ''rtsps'', ''srt'',
      ''rist'', ''rtp'', ''srtp'', ''udp'', ''tcp'', ''mmsh'', ''mmst'']"

definition TestUnsafeInputsFailClosed :: bool where
  "TestUnsafeInputsFailClosed \<longleftrightarrow> list_all (\<lambda>input.
       case ParseStreamSourceUrl input (Some StreamSourceSpec_default) of Inl message \<Rightarrow> message \<noteq> [] | Inr _ \<Rightarrow> False)
     [''file:///sdcard/video.mp4'', ''concat:http://a|http://b'', ''data:text/plain,hello'', ''pipe://0'',
      ''unix:///tmp/source'', ''http://'', ''not-a-url'', ''http://example.test/line'' @ [newline] @ ''break'']"

definition TestArgumentsAreLiteralAndBounded :: bool where
  "TestArgumentsAreLiteralAndBounded \<longleftrightarrow> (let
       ffmpeg = ''/data/adb/modules/vcames_root_bridge/bin/ffmpeg'';
       url = ''rtsp://user:p@ss;$(id)@example.test/live?x=a=b'';
       http_url = ''https://example.test/live.m3u8''
     in (case ParseStreamSourceUrl url (Some StreamSourceSpec_default) of
           Inl _ \<Rightarrow> False
         | Inr spec \<Rightarrow> (let args = BuildFfmpegArguments ffmpeg url 30 spec in
             drop (length (hd args) - 7) (hd args) = ''/ffmpeg'' \<and> url \<in> set args \<and> ''-rtsp_transport'' \<in> set args
             \<and> ''-protocol_whitelist'' \<in> set args
             \<and> list_all (\<lambda>forbidden. search forbidden FfmpegProtocolWhitelist = None)
                 [''file'', ''concat'', ''data'', ''subfile'', ''unix'']
             \<and> last args = ''pipe:1''))
       \<and> (case ParseStreamSourceUrl http_url (Some StreamSourceSpec_default) of
            Inl _ \<Rightarrow> False
          | Inr spec \<Rightarrow> (let args = BuildFfmpegArguments ffmpeg http_url 30 spec in
              ''-reconnect_on_network_error'' \<in> set args \<and> ''-reconnect_on_http_error'' \<in> set args
              \<and> ''-reconnect_delay_max'' \<in> set args)))"

lemma stream_source_test: "TestSupportedTransports" "TestUnsafeInputsFailClosed" "TestArgumentsAreLiteralAndBounded"
  by code_simp+

subsection \<open>\<open>yuv420_converter_test.cpp\<close>\<close>

text \<open>The vectors of the test, in one memory.\<close>

definition placed :: "(u64 \<times> bytes) list \<Rightarrow> memory" where
  "placed vectors a = (case filter (\<lambda>(base, bytes). base \<le> a \<and> unat (a - base) < length bytes) vectors of
     [] \<Rightarrow> None | (base, bytes) # _ \<Rightarrow> Some (bytes ! unat (a - base)))"

definition y_vector :: bytes where
  "y_vector = [0, 1, 2, 3, 4, 0, 0, 5, 6, 7, 8, 0, 0, 9, 10, 11, 12, 0, 0, 13, 14, 15, 16, 0]"
definition u_vector :: bytes where "u_vector = [0, 20, 21, 0, 0, 22, 23, 0]"
definition v_vector :: bytes where "v_vector = [0, 30, 31, 0, 0, 32, 33, 0]"
definition interleaved_vector :: bytes where "interleaved_vector = [40, 50, 41, 51]"
definition small_y_vector :: bytes where "small_y_vector = [1, 2, 3, 4, 5, 6, 7, 8]"

definition test_memory :: memory where
  "test_memory = placed [(100, y_vector), (200, u_vector), (300, v_vector), (400, interleaved_vector), (500, small_y_vector)]"

definition view :: "u64 \<Rightarrow> u64 \<Rightarrow> u64 \<Rightarrow> u64 \<Rightarrow> u64 \<Rightarrow> YuvPlaneView" where
  "view base n p row pixel =
     \<lparr>data = base, limit = n, position = p, row_stride = row, pixel_stride = pixel\<rparr>"

definition yuv_test :: "u64 \<Rightarrow> bool" where
  "yuv_test u_limit \<longleftrightarrow>
     ConvertYuv420ToNv21 test_memory (view 100 24 1 6 1) (view 200 8 1 4 1) (view 300 8 1 4 1) 0 0 4 4
       (Some (replicate 24 0)) 24 =
       Some (Inr (), Some [1, 2, 3, 4, 5, 6, 7, 8, 9, 10, 11, 12, 13, 14, 15, 16, 30, 20, 31, 21, 32, 22, 33, 23])
     \<and> ConvertYuv420ToNv21 test_memory (view 100 24 1 6 1) (view 200 8 1 4 1) (view 300 8 1 4 1) 2 2 2 2
         (Some (replicate 6 0)) 6 = Some (Inr (), Some [11, 12, 15, 16, 33, 23])
     \<and> ConvertYuv420ToNv21 test_memory (view 500 8 0 4 1) (view 401 3 0 4 2) (view 400 4 0 4 2) 0 0 4 2
         (Some (replicate 12 0)) 12 = Some (Inr (), Some [1, 2, 3, 4, 5, 6, 7, 8, 40, 50, 41, 51])
     \<and> (case ConvertYuv420ToNv21 test_memory (view 500 8 0 4 1) (view 401 u_limit 0 4 2) (view 400 4 0 4 2) 0 0 4 2
          (Some (replicate 12 0)) 12 of Some (Inl _, _) \<Rightarrow> True | _ \<Rightarrow> False)"

lemma yuv420_converter_test: "yuv_test 2"
  by code_simp

subsection \<open>\<open>image_transform_test.cpp\<close>\<close>

definition image_test :: bool where
  "image_test \<longleftrightarrow> (let
       input = [1, 2, 3, 4, 5, 6, 7, 8, 10, 20, 30, 40];
       options = TransformOptions_default\<lparr>width := 4, height := 2\<rparr>
     in (case TransformNv21 input 4 2 options (Some []) of
           None \<Rightarrow> False | Some c \<Rightarrow> outcome_of c = Inr () \<and> contents c = Some input)
       \<and> (case TransformNv21 input 4 2 (options\<lparr>mirror := True\<rparr>) (Some input) of
           None \<Rightarrow> False
         | Some c \<Rightarrow> outcome_of c = Inr () \<and> contents c = Some [4, 3, 2, 1, 8, 7, 6, 5, 30, 40, 10, 20]))"

lemma map_mirrored:
  assumes "0 \<le> x" "x < 4" "0 \<le> y" "y < 2"
  shows "MapOutputToSource x y 4 2 4 2 0 True = coordinate (of_int (3 - x)) (of_int y)"
proof -
  have "(4, 2) = oriented_size 4 2 0" by (simp add: oriented_size_def)
  from MapOutputToSource_exact [OF this _ _ _ _ assms, of True] show ?thesis
    by (simp add: grid_source_def oriented_size_def)
qed

lemma upto_small: "[0..<4] = [0, 1, 2, 3::nat]" "[0..<2] = [0, 1::nat]" "[0..<Suc 0] = [0]"
  by (simp_all add: upt_rec)

lemma lround_numeral: "lround (numeral n) = numeral n" "lround 0 = 0" "lround 1 = 1"
  using lround_of_int [of "numeral n"] lround_of_int [of 0] lround_of_int [of 1] by simp_all

lemma image_transform_test: "image_test"
  by (simp add: image_test_def TransformOptions_default_def TransformNv21_def max_pixels_def right_angle_def
      upto_small map_mirrored lround_numeral int_of_long_def clamp_def poke_def peek_def Let_def)
    (simp add: eval_nat_numeral)

end
